(* ===== verification/Prelude.thy ===== *)
theory Prelude
  imports
    Main
    "HOL-Library.Word"
    "HOL-Library.Char_ord"
    "HOL-Library.List_Lexorder"
    "HOL-Library.Product_Lexorder"
begin

text \<open>
  Shared vocabulary of the development: bytes and little-endian integers, Rust's \<open>BTreeMap\<close>
  as a strictly sorted association list, the \<open>entry(k).or_default().push(v)\<close> grouping loop,
  and the 64-bit integer helpers (\<open>saturating_*\<close>, wrapping addition) the source uses.

  Representation choices used everywhere:
  \<^item> a Rust \<open>String\<close> is its UTF-8 byte sequence, a \<open>char list\<close> (a \<open>char\<close> is one byte), so
    \<open>as_bytes\<close> is a change of type and \<open>String\<close>'s order is the lexicographic order of
    \<^theory_text>\<open>List_Lexorder\<close>;
  \<^item> an \<open>i64\<close> is an \<open>int\<close> with its range written out where it matters, a \<open>u64\<close> or \<open>usize\<close>
    a \<open>nat\<close> with wrap-around written out where it can happen, hashes and checksums are words;
  \<^item> a \<open>BTreeMap<K, V>\<close> is a list of pairs strictly sorted by key: iteration is the list itself,
    and \<open>Ord\<close> on maps is the lexicographic order on that list, as in Rust.
\<close>

section \<open>Bundles of facts\<close>

named_theorems bt_simps \<open>rewrite rules for sorted association lists\<close>
named_theorems bt_intros \<open>well-formedness of sorted association lists\<close>

section \<open>Bytes and little-endian integers\<close>

type_synonym byte = "8 word"
type_synonym bytes = "8 word list"

definition as_bytes :: "string \<Rightarrow> bytes" where
  "as_bytes s = map of_char s"

fun le_bytes :: "nat \<Rightarrow> nat \<Rightarrow> bytes" where
  "le_bytes 0 n = []"
| "le_bytes (Suc k) n = word_of_nat (n mod 256) # le_bytes k (n div 256)"

fun le_nat :: "bytes \<Rightarrow> nat" where
  "le_nat [] = 0"
| "le_nat (b # bs) = unat b + 256 * le_nat bs"

lemma length_le_bytes [simp]: "length (le_bytes k n) = k"
  by (induction k arbitrary: n) auto

lemma le_nat_le_bytes_mod: "le_nat (le_bytes k n) = n mod 256 ^ k"
proof (induction k arbitrary: n)
  case 0
  then show ?case by simp
next
  case (Suc k)
  have "unat (word_of_nat (n mod 256) :: byte) = n mod 256"
    by (simp add: unat_of_nat)
  then show ?case
    using Suc by (simp add: mod_mult2_eq mult.commute add.commute)
qed

lemma le_nat_le_bytes [simp]: "n < 256 ^ k \<Longrightarrow> le_nat (le_bytes k n) = n"
  by (simp add: le_nat_le_bytes_mod)

lemma unat_of_char_byte [simp]: "unat (of_char c :: byte) = of_char c"
proof -
  have "(of_char c :: byte) = word_of_nat (of_char c)"
    by (simp only: of_nat_of_char)
  then show ?thesis
    by (simp add: unat_of_nat take_bit_eq_mod)
qed

lemma of_char_byte_inj: "(of_char c :: byte) = of_char d \<longleftrightarrow> c = d"
proof
  assume "(of_char c :: byte) = of_char d"
  then have "unat (of_char c :: byte) = unat (of_char d :: byte)" by simp
  then show "c = d" by simp
qed simp

lemma as_bytes_inj: "as_bytes s = as_bytes t \<longleftrightarrow> s = t"
  unfolding as_bytes_def
  by (rule inj_map_eq_map) (rule injI, simp add: of_char_byte_inj)

lemma as_bytes_append: "as_bytes (s @ t) = as_bytes s @ as_bytes t"
  by (simp add: as_bytes_def)

lemma in_as_bytes: "of_char c \<in> set (as_bytes s) \<longleftrightarrow> c \<in> set s"
  by (auto simp: as_bytes_def of_char_byte_inj)

text \<open>A separator that does not occur in the two prefixes splits equal lists at the same place.\<close>

lemma split_at_first_iff:
  "c \<notin> set xs \<Longrightarrow> c \<notin> set xs' \<Longrightarrow> xs @ c # ys = xs' @ c # ys' \<longleftrightarrow> xs = xs' \<and> ys = ys'"
proof (induction xs arbitrary: xs')
  case Nil
  then show ?case by (cases xs') auto
next
  case (Cons x xs)
  then show ?case by (cases xs') auto
qed

section \<open>64-bit integers\<close>

definition i64_min :: int where "i64_min = - (2 ^ 63)"
definition i64_max :: int where "i64_max = 2 ^ 63 - 1"

definition i64_ok :: "int \<Rightarrow> bool" where
  "i64_ok x \<longleftrightarrow> i64_min \<le> x \<and> x \<le> i64_max"

text \<open>\<open>i64::saturating_add\<close>, \<open>saturating_sub\<close>, \<open>saturating_mul\<close>: compute, then clamp.\<close>

definition i64_sat :: "int \<Rightarrow> int" where
  "i64_sat x = max i64_min (min i64_max x)"

lemma i64_sat_id: "i64_ok x \<Longrightarrow> i64_sat x = x"
  by (auto simp: i64_sat_def i64_ok_def)

lemma i64_sat_ok [simp]: "i64_ok (i64_sat x)"
  by (auto simp: i64_sat_def i64_ok_def i64_min_def i64_max_def)

text \<open>Plain \<open>+\<close> and \<open>-\<close> on \<open>i64\<close> in a release build: two's-complement wrap-around.\<close>

definition i64_wrap :: "int \<Rightarrow> int" where
  "i64_wrap x = (x + 2 ^ 63) mod 2 ^ 64 - 2 ^ 63"

lemma i64_wrap_id: "i64_ok x \<Longrightarrow> i64_wrap x = x"
  by (auto simp: i64_wrap_def i64_ok_def i64_min_def i64_max_def)

text \<open>\<open>n + 1\<close> on \<open>u64\<close> in a release build.\<close>

definition u64_succ :: "nat \<Rightarrow> nat" where
  "u64_succ n = (n + 1) mod 2 ^ 64"

lemma u64_succ_small: "n + 1 < 2 ^ 64 \<Longrightarrow> u64_succ n = n + 1"
  by (simp add: u64_succ_def)

section \<open>\<open>BTreeMap\<close> as a strictly sorted association list\<close>

type_synonym ('k, 'v) btree = "('k \<times> 'v) list"

definition bt_wf :: "('k::linorder, 'v) btree \<Rightarrow> bool" where
  "bt_wf m \<longleftrightarrow> sorted_wrt (<) (map fst m)"

text \<open>\<open>bt_upd k f m\<close> is the entry API: \<open>f\<close> maps the old value, if any, to the new one.\<close>

fun bt_upd :: "'k::linorder \<Rightarrow> ('v option \<Rightarrow> 'v) \<Rightarrow> ('k, 'v) btree \<Rightarrow> ('k, 'v) btree" where
  "bt_upd k f [] = [(k, f None)]"
| "bt_upd k f ((a, b) # m) =
     (if k < a then (k, f None) # (a, b) # m
      else if k = a then (a, f (Some b)) # m
      else (a, b) # bt_upd k f m)"

definition bt_insert :: "'k::linorder \<Rightarrow> 'v \<Rightarrow> ('k, 'v) btree \<Rightarrow> ('k, 'v) btree" where
  "bt_insert k v m = bt_upd k (\<lambda>_. v) m"

definition bt_push :: "'k::linorder \<Rightarrow> 'v \<Rightarrow> ('k, 'v list) btree \<Rightarrow> ('k, 'v list) btree" where
  "bt_push k v m = bt_upd k (\<lambda>old. case old of None \<Rightarrow> [v] | Some vs \<Rightarrow> vs @ [v]) m"

definition bt_remove :: "'k \<Rightarrow> ('k, 'v) btree \<Rightarrow> ('k, 'v) btree" where
  "bt_remove k m = filter (\<lambda>p. fst p \<noteq> k) m"

text \<open>\<open>collect::<BTreeMap<_, _>>()\<close>: later pairs overwrite earlier ones.\<close>

definition bt_collect :: "('k::linorder \<times> 'v) list \<Rightarrow> ('k, 'v) btree" where
  "bt_collect ps = foldl (\<lambda>m p. bt_insert (fst p) (snd p) m) [] ps"

text \<open>\<open>for x in xs { groups.entry(key(x)).or_default().push(val(x)) }\<close>\<close>

definition bt_group :: "('a \<Rightarrow> 'k::linorder) \<Rightarrow> ('a \<Rightarrow> 'v) \<Rightarrow> 'a list \<Rightarrow> ('k, 'v list) btree" where
  "bt_group key val xs = foldl (\<lambda>m x. bt_push (key x) (val x) m) [] xs"

lemma bt_wf_Nil [simp, bt_intros]: "bt_wf []"
  by (simp add: bt_wf_def)

lemma bt_wf_Cons [bt_simps]:
  "bt_wf ((a, b) # m) \<longleftrightarrow> (\<forall>k \<in> fst ` set m. a < k) \<and> bt_wf m"
  by (auto simp: bt_wf_def)

lemma bt_wf_tl: "bt_wf (p # m) \<Longrightarrow> bt_wf m"
  by (cases p) (simp add: bt_wf_Cons)

lemma bt_wf_distinct: "bt_wf m \<Longrightarrow> distinct (map fst m)"
  by (simp add: bt_wf_def strict_sorted_iff)

lemma set_fst_bt_upd [bt_simps]: "fst ` set (bt_upd k f m) = insert k (fst ` set m)"
  by (induction k f m rule: bt_upd.induct) auto

lemma bt_wf_upd [bt_intros]: "bt_wf m \<Longrightarrow> bt_wf (bt_upd k f m)"
  by (induction k f m rule: bt_upd.induct) (auto simp: bt_wf_Cons set_fst_bt_upd)

lemma map_of_bt_notin: "k \<notin> fst ` set m \<Longrightarrow> map_of m k = None"
  by (simp add: map_of_eq_None_iff)

lemma map_of_bt_upd [bt_simps]:
  "bt_wf m \<Longrightarrow> map_of (bt_upd k f m) = (map_of m)(k \<mapsto> f (map_of m k))"
proof (induction k f m rule: bt_upd.induct)
  case (1 k f)
  then show ?case by auto
next
  case (2 k f a b m)
  show ?case
  proof (cases "k < a")
    case True
    with "2.prems" have "map_of ((a, b) # m) k = None"
      by (auto simp: bt_wf_Cons map_of_eq_None_iff)
    with True show ?thesis by auto
  next
    case False
    with 2 show ?thesis by (auto simp: bt_wf_Cons fun_eq_iff)
  qed
qed

lemma bt_wf_insert [bt_intros]: "bt_wf m \<Longrightarrow> bt_wf (bt_insert k v m)"
  by (simp add: bt_insert_def bt_wf_upd)

lemma map_of_bt_insert [bt_simps]:
  "bt_wf m \<Longrightarrow> map_of (bt_insert k v m) = (map_of m)(k \<mapsto> v)"
  by (simp add: bt_insert_def map_of_bt_upd)

lemma bt_wf_push [bt_intros]: "bt_wf m \<Longrightarrow> bt_wf (bt_push k v m)"
  by (simp add: bt_push_def bt_wf_upd)

lemma map_of_bt_push [bt_simps]:
  "bt_wf m \<Longrightarrow> map_of (bt_push k v m) =
     (map_of m)(k \<mapsto> (case map_of m k of None \<Rightarrow> [v] | Some vs \<Rightarrow> vs @ [v]))"
  by (simp add: bt_push_def map_of_bt_upd)

lemma bt_wf_filter [bt_intros]: "bt_wf m \<Longrightarrow> bt_wf (filter P m)"
  unfolding bt_wf_def by (induction m) auto

lemma bt_wf_remove [bt_intros]: "bt_wf m \<Longrightarrow> bt_wf (bt_remove k m)"
  by (simp add: bt_remove_def bt_wf_filter)

lemma map_of_bt_remove [bt_simps]: "map_of (bt_remove k m) = (map_of m)(k := None)"
  by (induction m) (auto simp: bt_remove_def fun_eq_iff)

lemma bt_wf_map_snd [bt_intros]: "bt_wf m \<Longrightarrow> bt_wf (map (\<lambda>(k, v). (k, g k v)) m)"
  by (simp add: bt_wf_def case_prod_unfold comp_def)

lemma map_of_bt_map_snd [bt_simps]:
  "map_of (map (\<lambda>(k, v). (k, g k v)) m) k = map_option (g k) (map_of m k)"
  by (induction m) auto

text \<open>Two well-formed maps with the same lookups are the same list.\<close>

lemma bt_ext:
  assumes "bt_wf m" "bt_wf n" "map_of m = map_of n"
  shows "m = n"
proof -
  have d: "distinct (map fst m)" "distinct (map fst n)"
    using assms bt_wf_distinct by auto
  then have eq: "set m = set n"
    using assms(3) by (simp add: map_of_inject_set [OF d])
  have s: "sorted (map fst m)" "sorted (map fst n)"
    using assms(1,2) by (auto simp: bt_wf_def strict_sorted_iff)
  have "inj_on fst (set m \<union> set n)"
    using d(1) eq by (simp add: distinct_map)
  then show ?thesis
    using s d eq by (intro map_sorted_distinct_set_unique [of fst m n])
qed

lemma bt_wf_mem: "bt_wf m \<Longrightarrow> (k, v) \<in> set m \<longleftrightarrow> map_of m k = Some v"
  using bt_wf_distinct by fastforce

lemma bt_collect_snoc: "bt_collect (ps @ [p]) = bt_insert (fst p) (snd p) (bt_collect ps)"
  by (simp add: bt_collect_def)

lemma bt_wf_collect [bt_intros]: "bt_wf (bt_collect ps)"
proof (induction ps rule: rev_induct)
  case Nil
  then show ?case by (simp add: bt_collect_def)
next
  case (snoc p ps)
  then show ?case by (simp add: bt_collect_snoc bt_wf_insert)
qed

lemma map_of_bt_collect [bt_simps]: "map_of (bt_collect ps) = map_of (rev ps)"
proof (induction ps rule: rev_induct)
  case Nil
  then show ?case by (simp add: bt_collect_def)
next
  case (snoc p ps)
  then show ?case
    by (cases p) (auto simp: bt_collect_snoc map_of_bt_insert bt_wf_collect)
qed

section \<open>The ordered-map contract and the grouping loop\<close>

text \<open>
  What the clients of a \<open>BTreeMap\<close> rely on: an invariant kept by the entry API and the value
  found after an update. The grouping loop is verified once against this contract.
\<close>

locale entry_map =
  fixes get :: "'m \<Rightarrow> 'k \<Rightarrow> 'v list option"
    and upd :: "'k \<Rightarrow> ('v list option \<Rightarrow> 'v list) \<Rightarrow> 'm \<Rightarrow> 'm"
    and emp :: "'m"
    and inv :: "'m \<Rightarrow> bool"
  assumes inv_emp: "inv emp"
    and get_emp: "get emp k = None"
    and inv_upd: "inv m \<Longrightarrow> inv (upd k f m)"
    and get_upd: "inv m \<Longrightarrow> get (upd k f m) = (get m)(k \<mapsto> f (get m k))"
begin

definition push :: "'k \<Rightarrow> 'v \<Rightarrow> 'm \<Rightarrow> 'm" where
  "push k v m = upd k (\<lambda>old. case old of None \<Rightarrow> [v] | Some vs \<Rightarrow> vs @ [v]) m"

definition group :: "('a \<Rightarrow> 'k) \<Rightarrow> ('a \<Rightarrow> 'v) \<Rightarrow> 'a list \<Rightarrow> 'm" where
  "group key val xs = foldl (\<lambda>m x. push (key x) (val x) m) emp xs"

lemma group_snoc: "group key val (xs @ [x]) = push (key x) (val x) (group key val xs)"
  by (simp add: group_def)

lemma inv_group: "inv (group key val xs)"
proof (induction xs rule: rev_induct)
  case Nil
  then show ?case by (simp add: group_def inv_emp)
next
  case (snoc x xs)
  then show ?case by (simp add: group_snoc push_def inv_upd)
qed

lemma get_group:
  "get (group key val xs) k =
     (if k \<in> key ` set xs then Some (map val (filter (\<lambda>x. key x = k) xs)) else None)"
proof (induction xs rule: rev_induct)
  case Nil
  then show ?case by (simp add: group_def get_emp)
next
  case (snoc x xs)
  have "filter (\<lambda>y. key y = k) xs = []" if "k \<notin> key ` set xs"
    using that by (auto simp: filter_empty_conv)
  then show ?case
    using snoc by (auto simp: group_snoc push_def get_upd inv_group)
qed

lemma get_group_nonempty: "get (group key val xs) k = Some vs \<Longrightarrow> vs \<noteq> []"
  by (auto simp: get_group filter_empty_conv split: if_splits)

end

interpretation btm: entry_map map_of bt_upd "[]" bt_wf
  by unfold_locales (simp_all add: bt_wf_upd map_of_bt_upd)

lemma bt_group_eq: "bt_group key val xs = btm.group key val xs"
  by (simp add: bt_group_def btm.group_def btm.push_def bt_push_def)

lemma bt_wf_group [bt_intros]: "bt_wf (bt_group key val xs)"
  unfolding bt_group_eq by (rule btm.inv_group)

lemma map_of_bt_group [bt_simps]:
  "map_of (bt_group key val xs) k =
     (if k \<in> key ` set xs then Some (map val (filter (\<lambda>x. key x = k) xs)) else None)"
  unfolding bt_group_eq by (rule btm.get_group)

lemma bt_group_lookup:
  "map_of (bt_group key val xs) k =
     (let vs = map val (filter (\<lambda>x. key x = k) xs) in if vs = [] then None else Some vs)"
  by (auto simp: map_of_bt_group Let_def filter_empty_conv)

lemma bt_group_mem:
  "(k, vs) \<in> set (bt_group key val xs) \<longleftrightarrow>
     k \<in> key ` set xs \<and> vs = map val (filter (\<lambda>x. key x = k) xs)"
  by (auto simp: bt_wf_mem [OF bt_wf_group] map_of_bt_group)

lemma bt_group_nonempty: "(k, vs) \<in> set (bt_group key val xs) \<Longrightarrow> vs \<noteq> []"
  by (auto simp: bt_group_mem filter_empty_conv)

lemma bt_group_keys: "fst ` set (bt_group key val xs) = key ` set xs"
proof (rule set_eqI)
  fix k
  have "k \<in> fst ` set (bt_group key val xs) \<longleftrightarrow> (\<exists>vs. (k, vs) \<in> set (bt_group key val xs))"
    by force
  then show "k \<in> fst ` set (bt_group key val xs) \<longleftrightarrow> k \<in> key ` set xs"
    by (simp add: bt_group_mem)
qed

text \<open>The grouping loop in closed form: the sorted keys, each with its values in input order.\<close>

lemma bt_group_eq_map:
  "bt_group key val xs =
     map (\<lambda>k. (k, map val (filter (\<lambda>x. key x = k) xs))) (sorted_list_of_set (key ` set xs))"
proof (rule bt_ext)
  show "bt_wf (map (\<lambda>k. (k, map val (filter (\<lambda>x. key x = k) xs))) (sorted_list_of_set (key ` set xs)))"
    by (simp add: bt_wf_def comp_def)
qed (auto simp: bt_wf_group map_of_bt_group map_of_map_restrict restrict_map_def fun_eq_iff)

lemma map_of_rev_distinct: "distinct (map fst ps) \<Longrightarrow> map_of (rev ps) = map_of ps"
  by (metis map_of_inject_set distinct_rev rev_map set_rev)

lemma bt_collect_id: "bt_wf m \<Longrightarrow> bt_collect m = m"
  by (intro bt_ext) (auto simp: bt_wf_collect map_of_bt_collect map_of_rev_distinct bt_wf_distinct)

lemma ball_bt_upd:
  assumes "bt_wf m" "\<forall>p \<in> set m. P (fst p) (snd p)" "P k (f (map_of m k))"
  shows "\<forall>p \<in> set (bt_upd k f m). P (fst p) (snd p)"
proof
  fix p assume p: "p \<in> set (bt_upd k f m)"
  obtain a v where av: "p = (a, v)" by (cases p)
  have "((map_of m)(k \<mapsto> f (map_of m k))) a = Some v"
    using p assms(1) bt_wf_mem [OF bt_wf_upd [OF assms(1)], of a v k f] by (simp add: av map_of_bt_upd)
  then show "P (fst p) (snd p)"
    using assms(2,3) by (auto simp: av split: if_splits dest!: map_of_SomeD)
qed

lemma concat_map_unless: "concat (map (\<lambda>x. if x \<notin> A then [] else f x) xs) = concat (map f (filter (\<lambda>x. x \<in> A) xs))"
  by (induction xs) auto

lemma sorted_list_of_set_filter:
  "finite A \<Longrightarrow> filter P (sorted_list_of_set A) = sorted_list_of_set {x \<in> A. P x}"
  by (rule sorted_distinct_set_unique) (auto simp: sorted_wrt_filter)

section \<open>Results\<close>

text \<open>The \<open>?\<close> operator on \<open>Result\<close>: \<open>Inl\<close> is the error, \<open>Inr\<close> the value.\<close>

definition res_bind :: "'e + 'a \<Rightarrow> ('a \<Rightarrow> 'e + 'b) \<Rightarrow> 'e + 'b" where
  "res_bind r f = (case r of Inl e \<Rightarrow> Inl e | Inr x \<Rightarrow> f x)"

lemma res_bind_simps [simp]: "res_bind (Inl e) f = Inl e" "res_bind (Inr x) f = f x"
  by (simp_all add: res_bind_def)

lemma res_bind_Inr: "res_bind r f = Inr y \<longleftrightarrow> (\<exists>x. r = Inr x \<and> f x = Inr y)"
  by (cases r) auto

end
