(* ===== verification/Float64.thy ===== *)
theory Float64
  imports Prelude Complex_Main
begin

text \<open>
  The \<open>f64\<close> of the source: IEEE-754 binary64 up to NaN payloads (a NaN is a single value here).
  A finite number is its exact rational value; \<open>NZero\<close> is the negative zero, \<open>Num 0\<close> the positive
  one. Arithmetic computes the exact rational result and rounds it to the nearest representable
  value, ties to even, with gradual underflow and overflow to an infinity (\<open>rnd\<close>).
  \<open>powf\<close>, whose last bits Rust leaves to the platform, is a parameter wherever it is used.
\<close>

section \<open>Values and classification\<close>

datatype f64 = NaN | PInf | NInf | NZero | Num rat

fun is_nan :: "f64 \<Rightarrow> bool" where
  "is_nan NaN = True"
| "is_nan _ = False"

fun is_infinite :: "f64 \<Rightarrow> bool" where
  "is_infinite PInf = True"
| "is_infinite NInf = True"
| "is_infinite _ = False"

definition is_finite :: "f64 \<Rightarrow> bool" where
  "is_finite x \<longleftrightarrow> \<not> is_nan x \<and> \<not> is_infinite x"

text \<open>The rational value of a finite number (0 for the others, which callers exclude).\<close>

fun fval :: "f64 \<Rightarrow> rat" where
  "fval (Num r) = r"
| "fval _ = 0"

text \<open>Sign bit.\<close>

fun is_neg :: "f64 \<Rightarrow> bool" where
  "is_neg NInf = True"
| "is_neg NZero = True"
| "is_neg (Num r) = (r < 0)"
| "is_neg _ = False"

section \<open>Comparison\<close>

text \<open>\<open><\<close> and \<open>==\<close> are false when an operand is NaN; the two zeros are equal.\<close>

fun f64_lt :: "f64 \<Rightarrow> f64 \<Rightarrow> bool" where
  "f64_lt NaN y = False"
| "f64_lt x NaN = False"
| "f64_lt PInf y = False"
| "f64_lt x NInf = False"
| "f64_lt NInf y = True"
| "f64_lt x PInf = True"
| "f64_lt x y = (fval x < fval y)"

fun f64_eq :: "f64 \<Rightarrow> f64 \<Rightarrow> bool" where
  "f64_eq NaN y = False"
| "f64_eq x NaN = False"
| "f64_eq PInf y = (y = PInf)"
| "f64_eq NInf y = (y = NInf)"
| "f64_eq x PInf = False"
| "f64_eq x NInf = False"
| "f64_eq x y = (fval x = fval y)"

definition f64_le :: "f64 \<Rightarrow> f64 \<Rightarrow> bool" where
  "f64_le x y \<longleftrightarrow> f64_lt x y \<or> f64_eq x y"

definition f64_gt :: "f64 \<Rightarrow> f64 \<Rightarrow> bool" where
  "f64_gt x y = f64_lt y x"

definition f64_ge :: "f64 \<Rightarrow> f64 \<Rightarrow> bool" where
  "f64_ge x y = f64_le y x"

definition f64_ne :: "f64 \<Rightarrow> f64 \<Rightarrow> bool" where
  "f64_ne x y = (\<not> f64_eq x y)"

text \<open>\<open>a.partial_cmp(&b).unwrap_or(Equal)\<close>, as the strict "less" that a sort uses.\<close>

datatype ordering = Less | Equal | Greater

definition cmp_or_equal :: "f64 \<Rightarrow> f64 \<Rightarrow> ordering" where
  "cmp_or_equal x y = (if f64_lt x y then Less else if f64_lt y x then Greater else Equal)"

fun ord_reverse :: "ordering \<Rightarrow> ordering" where
  "ord_reverse Less = Greater"
| "ord_reverse Equal = Equal"
| "ord_reverse Greater = Less"

lemma f64_lt_irrefl [simp]: "\<not> f64_lt x x"
  by (cases x) auto

lemma f64_lt_trans: "f64_lt x y \<Longrightarrow> f64_lt y z \<Longrightarrow> f64_lt x z"
  by (cases x; cases y; cases z) auto

lemma f64_le_refl: "\<not> is_nan x \<Longrightarrow> f64_le x x"
  by (cases x) (auto simp: f64_le_def)

lemma f64_le_trans: "f64_le x y \<Longrightarrow> f64_le y z \<Longrightarrow> f64_le x z"
  by (cases x; cases y; cases z) (auto simp: f64_le_def)

lemma f64_total: "\<not> is_nan x \<Longrightarrow> \<not> is_nan y \<Longrightarrow> f64_lt x y \<or> f64_eq x y \<or> f64_lt y x"
  by (cases x; cases y) auto

lemma f64_le_fin: "is_finite x \<Longrightarrow> is_finite y \<Longrightarrow> f64_le x y \<longleftrightarrow> fval x \<le> fval y"
  by (cases x; cases y) (auto simp: f64_le_def is_finite_def)

lemma f64_lt_fin: "is_finite x \<Longrightarrow> is_finite y \<Longrightarrow> f64_lt x y \<longleftrightarrow> fval x < fval y"
  by (cases x; cases y) (auto simp: is_finite_def)

lemma f64_not_lt: "\<not> is_nan x \<Longrightarrow> \<not> is_nan y \<Longrightarrow> \<not> f64_lt x y \<longleftrightarrow> f64_le y x"
  by (cases x; cases y) (auto simp: f64_le_def)

section \<open>Rounding\<close>

text \<open>\<open>pow2 e\<close> is \<open>2\<close> to an integer power; \<open>ilog2\<close> the exponent of the binade of a positive rational.\<close>

definition pow2 :: "int \<Rightarrow> rat" where
  "pow2 e = 2 powi e"

fun bit_len :: "nat \<Rightarrow> nat" where
  "bit_len n = (if n = 0 then 0 else Suc (bit_len (n div 2)))"

declare bit_len.simps [simp del]

definition ilog2 :: "rat \<Rightarrow> int" where
  "ilog2 r =
     (let (p, q) = quotient_of r;
          k = int (bit_len (nat p)) - int (bit_len (nat q))
      in if pow2 k \<le> r then k else k - 1)"

text \<open>Round a non-negative rational to the nearest integer, ties to even.\<close>

definition round_even :: "rat \<Rightarrow> int" where
  "round_even x =
     (let n = \<lfloor>x\<rfloor>; d = x - of_int n
      in if d < 1 / 2 then n else if 1 / 2 < d then n + 1 else if even n then n else n + 1)"

text \<open>The largest binary64 is \<open>(2 ^ 53 - 1) * 2 ^ 971\<close>; the smallest step is \<open>2 ^ -1074\<close>.\<close>

definition rnd_pos :: "rat \<Rightarrow> rat" where
  "rnd_pos r = (let e = max (ilog2 r - 52) (- 1074) in of_int (round_even (r / pow2 e)) * pow2 e)"

definition rnd :: "rat \<Rightarrow> f64" where
  "rnd r =
     (if r = 0 then Num 0
      else if 0 < r then (let v = rnd_pos r in if pow2 1024 \<le> v then PInf else Num v)
      else (let v = rnd_pos (- r) in if pow2 1024 \<le> v then NInf else if v = 0 then NZero else Num (- v)))"

lemma pow2_pos [simp]: "0 < pow2 e"
  by (simp add: pow2_def)

lemma pow2_nz [simp]: "pow2 e \<noteq> 0"
  by (simp add: pow2_def)

lemma pow2_nonneg [simp]: "0 \<le> pow2 e"
  by (simp add: pow2_def)

lemma div_pow2_mono: "r \<le> s \<Longrightarrow> r / pow2 e \<le> s / pow2 e"
  by (simp add: divide_right_mono)

lemma pow2_add: "pow2 (a + b) = pow2 a * pow2 b"
  by (simp add: pow2_def power_int_add)

lemma pow2_diff: "pow2 (a - b) = pow2 a / pow2 b"
  by (simp add: pow2_def power_int_diff)

lemma pow2_mono: "a \<le> b \<Longrightarrow> pow2 a \<le> pow2 b"
  by (simp add: pow2_def power_int_increasing)

lemma pow2_less_cancel: "pow2 a < pow2 b \<Longrightarrow> a < b"
  using pow2_mono [of b a] by (meson leD leI)

lemma pow2_nat: "0 \<le> e \<Longrightarrow> pow2 e = of_int (2 ^ nat e)"
  by (simp add: pow2_def power_int_def)

lemma bit_len_bounds: "0 < n \<Longrightarrow> 2 ^ (bit_len n - 1) \<le> n \<and> n < 2 ^ bit_len n \<and> 0 < bit_len n"
proof (induction n rule: bit_len.induct)
  case (1 n)
  show ?case
  proof (cases "n = 1")
    case True
    then show ?thesis by (simp add: bit_len.simps [of "Suc 0"] bit_len.simps [of 0])
  next
    case False
    with "1.prems" have h: "0 < n div 2" by auto
    let ?k = "bit_len (n div 2)"
    from 1 h have IH: "2 ^ (?k - 1) \<le> n div 2" "n div 2 < 2 ^ ?k" "0 < ?k" by auto
    have eq: "bit_len n = Suc ?k"
      using "1.prems" by (simp add: bit_len.simps [of n])
    have "(2::nat) ^ ?k = 2 * 2 ^ (?k - 1)"
      using IH(3) by (metis Suc_diff_1 power_Suc)
    then have "2 ^ ?k \<le> n" using IH(1) by linarith
    moreover have "n < 2 * 2 ^ ?k" using IH(2) by linarith
    ultimately show ?thesis by (simp add: eq)
  qed
qed

lemma bit_len_pow2:
  assumes "0 < n"
  shows "pow2 (int (bit_len n) - 1) \<le> of_nat n" and "of_nat n < pow2 (int (bit_len n))"
proof -
  from bit_len_bounds [OF assms] have b: "2 ^ (bit_len n - 1) \<le> n" "n < 2 ^ bit_len n" "0 < bit_len n"
    by auto
  have "pow2 (int (bit_len n) - 1) = of_nat (2 ^ (bit_len n - 1))"
    using b(3) by (simp add: pow2_def power_int_def nat_diff_distrib)
  then show "pow2 (int (bit_len n) - 1) \<le> of_nat n"
    using b(1) of_nat_le_iff [where 'a = rat, of "2 ^ (bit_len n - 1)" n] by simp
  have "pow2 (int (bit_len n)) = of_nat (2 ^ bit_len n)"
    by (simp add: pow2_def)
  then show "of_nat n < pow2 (int (bit_len n))"
    using b(2) of_nat_less_iff [where 'a = rat, of n "2 ^ bit_len n"] by simp
qed

lemma ilog2_bounds:
  assumes "0 < r"
  shows "pow2 (ilog2 r) \<le> r" and "r < pow2 (ilog2 r + 1)"
proof -
  obtain p q where pq: "quotient_of r = (p, q)" by fastforce
  have q: "0 < q" using quotient_of_denom_pos [OF pq] .
  have r: "r = of_int p / of_int q" by (rule quotient_of_div [OF pq])
  with assms q have p: "0 < p" by (simp add: zero_less_divide_iff)
  let ?a = "int (bit_len (nat p))" and ?b = "int (bit_len (nat q))"
  let ?k = "?a - ?b"
  have P: "pow2 (?a - 1) \<le> of_int p" "of_int p < pow2 ?a"
    using bit_len_pow2 [of "nat p"] p by auto
  have Q: "pow2 (?b - 1) \<le> of_int q" "of_int q < pow2 ?b"
    using bit_len_pow2 [of "nat q"] q by auto
  have Q0: "(0::rat) < of_int q" using q by simp
  have "r < pow2 ?a / pow2 (?b - 1)"
    unfolding r using P(2) Q(1) Q0 p by (intro frac_less) auto
  then have up: "r < pow2 (?k + 1)"
    by (simp add: algebra_simps flip: pow2_diff)
  have "pow2 (?a - 1) / pow2 ?b \<le> r"
    unfolding r using P(1) Q(2) Q0 p by (intro frac_le) auto
  then have lo: "pow2 (?k - 1) \<le> r"
    by (simp add: algebra_simps flip: pow2_diff)
  have il: "ilog2 r = (if pow2 ?k \<le> r then ?k else ?k - 1)"
    by (simp add: ilog2_def pq Let_def)
  show "pow2 (ilog2 r) \<le> r" using lo by (simp add: il)
  show "r < pow2 (ilog2 r + 1)" using up by (auto simp: il not_le)
qed

lemma ilog2_mono:
  assumes "0 < r" "r \<le> s"
  shows "ilog2 r \<le> ilog2 s"
proof -
  have "pow2 (ilog2 r) < pow2 (ilog2 s + 1)"
    using ilog2_bounds(1) [OF assms(1)] ilog2_bounds(2) [of s] assms by linarith
  then show ?thesis by (auto dest: pow2_less_cancel)
qed

lemma round_even_int [simp]: "round_even (of_int n) = n"
  by (simp add: round_even_def)

lemma round_even_cases: "round_even x = \<lfloor>x\<rfloor> \<or> round_even x = \<lfloor>x\<rfloor> + 1"
  by (auto simp: round_even_def Let_def)

lemma round_even_mono:
  assumes "x \<le> y"
  shows "round_even x \<le> round_even y"
proof (cases "\<lfloor>x\<rfloor> = \<lfloor>y\<rfloor>")
  case True
  then show ?thesis using assms by (auto simp: round_even_def Let_def)
next
  case False
  with assms have "\<lfloor>x\<rfloor> + 1 \<le> \<lfloor>y\<rfloor>" using floor_mono [OF assms] by linarith
  then show ?thesis using round_even_cases [of x] round_even_cases [of y] by linarith
qed

definition rexp :: "rat \<Rightarrow> int" where
  "rexp r = max (ilog2 r - 52) (- 1074)"

lemma rnd_pos_alt: "rnd_pos r = of_int (round_even (r / pow2 (rexp r))) * pow2 (rexp r)"
  by (simp add: rnd_pos_def rexp_def Let_def)

lemma rnd_pos_grid:
  assumes "r = of_int n * pow2 (rexp r)"
  shows "rnd_pos r = r"
proof -
  have "r / pow2 (rexp r) = of_int n" by (subst assms) simp
  then show ?thesis using assms by (simp add: rnd_pos_alt)
qed

text \<open>A power of two at or above the grid of \<open>r\<close> is on the grid, so rounding never crosses it.\<close>

lemma pow2_on_grid:
  assumes "e \<le> j"
  shows "pow2 j / pow2 e = of_int (2 ^ nat (j - e))"
  using assms pow2_nat [of "j - e"] by (simp add: pow2_diff)

lemma rnd_pos_le_pow2:
  assumes "r \<le> pow2 j" "rexp r \<le> j"
  shows "rnd_pos r \<le> pow2 j"
proof -
  have "round_even (r / pow2 (rexp r)) \<le> round_even (of_int (2 ^ nat (j - rexp r)))"
    using div_pow2_mono [OF assms(1)] by (intro round_even_mono) (simp only: pow2_on_grid [OF assms(2), symmetric])
  then have "of_int (round_even (r / pow2 (rexp r))) \<le> (of_int (2 ^ nat (j - rexp r)) :: rat)"
    by (simp only: round_even_int of_int_le_iff)
  then have "of_int (round_even (r / pow2 (rexp r))) \<le> pow2 j / pow2 (rexp r)"
    by (simp only: pow2_on_grid [OF assms(2)])
  then show ?thesis by (simp add: rnd_pos_alt le_divide_eq)
qed

lemma pow2_le_rnd_pos:
  assumes "pow2 j \<le> r" "rexp r \<le> j"
  shows "pow2 j \<le> rnd_pos r"
proof -
  have "round_even (of_int (2 ^ nat (j - rexp r))) \<le> round_even (r / pow2 (rexp r))"
    using div_pow2_mono [OF assms(1)] by (intro round_even_mono) (simp only: pow2_on_grid [OF assms(2), symmetric])
  then have "(of_int (2 ^ nat (j - rexp r)) :: rat) \<le> of_int (round_even (r / pow2 (rexp r)))"
    by (simp only: round_even_int of_int_le_iff)
  then have "pow2 j / pow2 (rexp r) \<le> of_int (round_even (r / pow2 (rexp r)))"
    by (simp only: pow2_on_grid [OF assms(2)])
  then show ?thesis by (simp add: rnd_pos_alt divide_le_eq)
qed

lemma rnd_pos_mono:
  assumes "0 < r" "r \<le> s"
  shows "rnd_pos r \<le> rnd_pos s"
proof (cases "rexp r = rexp s")
  case True
  have "round_even (r / pow2 (rexp s)) \<le> round_even (s / pow2 (rexp s))"
    using assms(2) by (intro round_even_mono div_pow2_mono)
  then show ?thesis by (simp add: rnd_pos_alt True mult_right_mono)
next
  case False
  have m: "ilog2 r \<le> ilog2 s" by (rule ilog2_mono [OF assms])
  with False have lt: "rexp r < rexp s" by (auto simp: rexp_def)
  then have es: "rexp s = ilog2 s - 52" and gap: "ilog2 r + 1 \<le> ilog2 s"
    by (auto simp: rexp_def)
  have "r \<le> pow2 (ilog2 s)"
    using ilog2_bounds(2) [OF assms(1)] pow2_mono [OF gap] by linarith
  then have "rnd_pos r \<le> pow2 (ilog2 s)"
    using lt es by (intro rnd_pos_le_pow2) auto
  also have "pow2 (ilog2 s) \<le> rnd_pos s"
    using assms es by (intro pow2_le_rnd_pos ilog2_bounds) auto
  finally show ?thesis .
qed

lemma rnd_pos_nonneg: "0 < r \<Longrightarrow> 0 \<le> rnd_pos r"
proof -
  assume "0 < r"
  then have "round_even (of_int 0) \<le> round_even (r / pow2 (rexp r))"
    by (intro round_even_mono) (simp add: less_imp_le)
  then have "0 \<le> round_even (r / pow2 (rexp r))"
    by (simp only: round_even_int)
  then show ?thesis by (simp add: rnd_pos_alt)
qed

lemma rnd_0 [simp]: "rnd 0 = Num 0"
  by (simp add: rnd_def)

lemma rnd_not_nan [simp]: "\<not> is_nan (rnd r)"
  by (simp add: rnd_def Let_def)

text \<open>Rounding is monotone: the basis of every bound on a computed value.\<close>

lemma rnd_mono:
  assumes "r \<le> s"
  shows "f64_le (rnd r) (rnd s)"
proof -
  consider "r = s" | "0 < r" "r < s" | "r \<le> 0" "0 \<le> s" "r < s" | "s < 0" "r < s"
    using assms by linarith
  then show ?thesis
  proof cases
    case 1
    then show ?thesis by (simp add: f64_le_refl)
  next
    case 2
    then show ?thesis using rnd_pos_mono [of r s]
      by (auto simp: rnd_def Let_def f64_le_def)
  next
    case 3
    then show ?thesis using rnd_pos_nonneg [of s] rnd_pos_nonneg [of "- r"]
      by (auto simp: rnd_def Let_def f64_le_def)
  next
    case 4
    then show ?thesis using rnd_pos_mono [of "- s" "- r"] rnd_pos_nonneg [of "- s"]
      by (auto simp: rnd_def Let_def f64_le_def)
  qed
qed

text \<open>Integers up to \<open>2 ^ 53\<close> are exact.\<close>

lemma rnd_pos_int:
  assumes "0 < n" "n \<le> 2 ^ 53"
  shows "rnd_pos (of_int n) = of_int n"
proof (cases "n = 2 ^ 53")
  case True
  have "ilog2 (2 ^ 53) = 53"
  proof -
    have "pow2 (ilog2 (2 ^ 53)) < pow2 (53 + 1)" "pow2 53 < pow2 (ilog2 (2 ^ 53) + 1)"
      using ilog2_bounds [of "2 ^ 53"] by (simp_all add: pow2_def power_int_def)
    then show ?thesis by (auto dest!: pow2_less_cancel)
  qed
  then have "rexp (of_int n) = 1" by (simp add: rexp_def True)
  then show ?thesis
    by (intro rnd_pos_grid [of _ "2 ^ 52"]) (simp add: True pow2_def)
next
  case False
  with assms have "of_int n < pow2 53"
    by (simp add: pow2_def power_int_def)
  then have "pow2 (ilog2 (of_int n)) < pow2 53"
    using ilog2_bounds(1) [of "of_int n"] assms by force
  then have e: "rexp (of_int n) \<le> 0"
    by (auto dest: pow2_less_cancel simp: rexp_def)
  have "of_int n = of_int (n * 2 ^ nat (- rexp (of_int n))) * pow2 (rexp (of_int n))"
    using e pow2_on_grid [of "rexp (of_int n)" 0] by (simp add: pow2_def field_simps)
  then show ?thesis by (rule rnd_pos_grid)
qed

lemma rnd_int:
  assumes "\<bar>n\<bar> \<le> 2 ^ 53"
  shows "rnd (of_int n) = Num (of_int n)"
proof -
  have big: "(2::rat) ^ 53 < pow2 1024"
    by (simp add: pow2_def power_int_def)
  have le: "of_int k \<le> (2::rat) ^ 53" if "k \<le> 2 ^ 53" for k :: int
    using that by (metis of_int_le_iff of_int_numeral of_int_power)
  consider "n = 0" | "0 < n" | "n < 0" by linarith
  then show ?thesis
  proof cases
    case 1
    then show ?thesis by simp
  next
    case 2
    then show ?thesis
      using assms rnd_pos_int [of n] le [of n] big by (auto simp: rnd_def Let_def)
  next
    case 3
    then show ?thesis
      using assms rnd_pos_int [of "- n"] le [of "- n"] big by (auto simp: rnd_def Let_def)
  qed
qed

lemma rnd_numeral [simp]:
  "(numeral w :: int) \<le> 2 ^ 53 \<Longrightarrow> rnd (numeral w) = Num (numeral w)"
  "(numeral w :: int) \<le> 2 ^ 53 \<Longrightarrow> rnd (- numeral w) = Num (- numeral w)"
  "rnd 1 = Num 1" "rnd (- 1) = Num (- 1)"
  using rnd_int [of "numeral w"] rnd_int [of "- numeral w"] rnd_int [of 1] rnd_int [of "- 1"]
  by auto

section \<open>Arithmetic\<close>

fun f64_neg :: "f64 \<Rightarrow> f64" where
  "f64_neg NaN = NaN"
| "f64_neg PInf = NInf"
| "f64_neg NInf = PInf"
| "f64_neg NZero = Num 0"
| "f64_neg (Num r) = (if r = 0 then NZero else Num (- r))"

text \<open>An exact zero sum is \<open>+0\<close> unless both operands are \<open>-0\<close>.\<close>

fun f64_add :: "f64 \<Rightarrow> f64 \<Rightarrow> f64" where
  "f64_add NaN y = NaN"
| "f64_add x NaN = NaN"
| "f64_add PInf y = (if y = NInf then NaN else PInf)"
| "f64_add NInf y = (if y = PInf then NaN else NInf)"
| "f64_add x PInf = PInf"
| "f64_add x NInf = NInf"
| "f64_add NZero NZero = NZero"
| "f64_add x y = rnd (fval x + fval y)"

definition f64_sub :: "f64 \<Rightarrow> f64 \<Rightarrow> f64" where
  "f64_sub x y = f64_add x (f64_neg y)"

definition signed_zero :: "bool \<Rightarrow> f64" where
  "signed_zero neg = (if neg then NZero else Num 0)"

definition signed_inf :: "bool \<Rightarrow> f64" where
  "signed_inf neg = (if neg then NInf else PInf)"

definition f64_mul :: "f64 \<Rightarrow> f64 \<Rightarrow> f64" where
  "f64_mul x y =
     (let s = (is_neg x \<noteq> is_neg y) in
      if is_nan x \<or> is_nan y then NaN
      else if is_infinite x \<or> is_infinite y
        then (if f64_eq x (Num 0) \<or> f64_eq y (Num 0) then NaN else signed_inf s)
      else if fval x * fval y = 0 then signed_zero s
      else rnd (fval x * fval y))"

definition f64_div :: "f64 \<Rightarrow> f64 \<Rightarrow> f64" where
  "f64_div x y =
     (let s = (is_neg x \<noteq> is_neg y) in
      if is_nan x \<or> is_nan y then NaN
      else if is_infinite x then (if is_infinite y then NaN else signed_inf s)
      else if is_infinite y then signed_zero s
      else if fval y = 0 then (if fval x = 0 then NaN else signed_inf s)
      else if fval x = 0 then signed_zero s
      else rnd (fval x / fval y))"

text \<open>Rust's \<open>%\<close>: the exact remainder of the truncated quotient, with the sign of the dividend.\<close>

definition rat_trunc :: "rat \<Rightarrow> int" where
  "rat_trunc r = (if 0 \<le> r then \<lfloor>r\<rfloor> else \<lceil>r\<rceil>)"

definition f64_rem :: "f64 \<Rightarrow> f64 \<Rightarrow> f64" where
  "f64_rem x y =
     (if is_nan x \<or> is_nan y \<or> is_infinite x \<or> f64_eq y (Num 0) then NaN
      else if is_infinite y then x
      else (let r = fval x - of_int (rat_trunc (fval x / fval y)) * fval y
            in if r = 0 then signed_zero (is_neg x) else Num r))"

text \<open>\<open>f64::min\<close> and \<open>f64::max\<close> ignore a NaN operand.\<close>

definition f64_min :: "f64 \<Rightarrow> f64 \<Rightarrow> f64" where
  "f64_min x y = (if is_nan x then y else if is_nan y then x else if f64_lt y x then y else x)"

definition f64_max :: "f64 \<Rightarrow> f64 \<Rightarrow> f64" where
  "f64_max x y = (if is_nan x then y else if is_nan y then x else if f64_lt x y then y else x)"

text \<open>\<open>iter().sum::<f64>()\<close> starts from \<open>-0.0\<close>.\<close>

definition f64_sum :: "f64 list \<Rightarrow> f64" where
  "f64_sum vs = foldl f64_add NZero vs"

text \<open>\<open>n as f64\<close> for an integer, \<open>x as i64\<close> and \<open>x as usize\<close> for a float (saturating casts).\<close>

definition f64_of_int :: "int \<Rightarrow> f64" where
  "f64_of_int n = rnd (of_int n)"

definition f64_to_i64 :: "f64 \<Rightarrow> int" where
  "f64_to_i64 x =
     (case x of NaN \<Rightarrow> 0 | PInf \<Rightarrow> i64_max | NInf \<Rightarrow> i64_min | NZero \<Rightarrow> 0
      | Num r \<Rightarrow> i64_sat (rat_trunc r))"

definition f64_to_usize :: "f64 \<Rightarrow> nat" where
  "f64_to_usize x =
     (case x of NaN \<Rightarrow> 0 | PInf \<Rightarrow> 2 ^ 64 - 1 | NInf \<Rightarrow> 0 | NZero \<Rightarrow> 0
      | Num r \<Rightarrow> nat (max 0 (min (2 ^ 64 - 1) (rat_trunc r))))"

lemma f64_to_i64_ok: "i64_ok (f64_to_i64 x)"
  by (cases x) (auto simp: f64_to_i64_def, auto simp: i64_ok_def i64_min_def i64_max_def)

lemma is_finite_simps [simp]:
  "is_finite (Num r)" "is_finite NZero" "\<not> is_finite NaN" "\<not> is_finite PInf" "\<not> is_finite NInf"
  by (simp_all add: is_finite_def)

lemma f64_min_le:
  "\<not> is_nan x \<Longrightarrow> \<not> is_nan y \<Longrightarrow> f64_le (f64_min x y) x \<and> f64_le (f64_min x y) y"
  by (cases x; cases y) (auto simp: f64_min_def f64_le_def)

lemma f64_max_ge:
  "\<not> is_nan x \<Longrightarrow> \<not> is_nan y \<Longrightarrow> f64_le x (f64_max x y) \<and> f64_le y (f64_max x y)"
  by (cases x; cases y) (auto simp: f64_max_def f64_le_def)

lemma f64_min_in: "f64_min x y \<in> {x, y}"
  by (simp add: f64_min_def)

lemma f64_max_in: "f64_max x y \<in> {x, y}"
  by (simp add: f64_max_def)

end
