(* ===== verification/Sample_Types.thy ===== *)
theory Sample_Types
  imports Float64
begin

text \<open>
  The data that flows through the write path (\<open>src/src/ingest/types.rs\<close>), decimal printing as
  \<open>format!\<close> does it, and the record of third-party functions the source calls. Those functions are
  parameters of the model: every definition that reaches one takes the record \<open>externals\<close>.
\<close>

section \<open>Decimal printing (\<open>{}\<close> of the unsigned and signed integers)\<close>

fun dec_of_nat :: "nat \<Rightarrow> string" where
  "dec_of_nat n =
     (if n < 10 then [char_of (48 + n)] else dec_of_nat (n div 10) @ [char_of (48 + n mod 10)])"

declare dec_of_nat.simps [simp del]

definition dec_of_int :: "int \<Rightarrow> string" where
  "dec_of_int i = (if i < 0 then ''-'' @ dec_of_nat (nat (- i)) else dec_of_nat (nat i))"

section \<open>\<open>str::strip_prefix\<close>\<close>

definition strip_prefix :: "string \<Rightarrow> string \<Rightarrow> string option" where
  "strip_prefix p s = (if take (length p) s = p then Some (drop (length p) s) else None)"

lemma strip_prefix_Some: "strip_prefix p h = Some t \<longleftrightarrow> h = p @ t"
  by (metis append_eq_conv_conj append_take_drop_id option.distinct(1) option.inject strip_prefix_def)

section \<open>Samples\<close>

type_synonym labels = "(string, string) btree"

text \<open>
  A sample as it appears on the wire; \<open>rs_ts\<close> is in milliseconds. A \<open>HashMap\<close> is the list of its
  entries in iteration order, which is unspecified: keys are distinct, the order is arbitrary.
\<close>

record raw_sample =
  rs_metric :: string
  rs_labels :: "(string \<times> string) list"
  rs_ts :: int
  rs_value :: f64

text \<open>A sample that has cleared validation; \<open>vs_ts_us\<close> is in microseconds, the labels are sorted.\<close>

record validated_sample =
  vs_series_id :: int
  vs_metric :: string
  vs_labels :: labels
  vs_ts_us :: int
  vs_value :: f64

record rejected_sample =
  rej_index :: nat
  rej_reason :: string

record ingest_response =
  ir_accepted :: nat
  ir_rejected :: "rejected_sample list"

section \<open>Third-party functions\<close>

text \<open>
  \<^item> \<open>xxh3_64\<close>: \<open>xxhash_rust::xxh3::xxh3_64\<close>;
  \<^item> \<open>crc32\<close>: one \<open>crc32fast::Hasher\<close> run over the concatenated updates;
  \<^item> \<open>json_of_samples\<close> / \<open>samples_of_json\<close>: \<open>serde_json::to_vec\<close> and \<open>from_slice\<close> at type
    \<open>Vec<ValidatedSample>\<close> (\<open>None\<close> is the error);
  \<^item> \<open>chrono_ok s\<close>: whether \<open>chrono::DateTime::from_timestamp\<close> accepts the second \<open>s\<close>
    (the calendar itself is proleptic Gregorian UTC, so the date of second \<open>s\<close> is day
    \<open>s div 86400\<close> after 1970-01-01).
\<close>

record externals =
  xxh3_64 :: "bytes \<Rightarrow> 64 word"
  crc32 :: "bytes \<Rightarrow> 32 word"
  json_of_samples :: "validated_sample list \<Rightarrow> bytes option"
  samples_of_json :: "bytes \<Rightarrow> validated_sample list option"
  chrono_ok :: "int \<Rightarrow> bool"

end
