(* ===== verification/Buffer.thy ===== *)
theory Buffer
  imports Sample_Types "HOL-Library.Multiset"
begin

text \<open>
  \<open>src/src/ingest/buffer.rs\<close>: the accumulator between the write-ahead log and the flush. Days are
  counted from 1970-01-01 (a \<open>NaiveDate\<close>), the known series are a set. The invariant ties the
  counters and the series registry to the points; the contents are specified by the multiset of
  rows, which an insert extends by exactly the batch and \<open>take\<close> hands over whole.
\<close>

section \<open>State\<close>

definition bytes_per_sample :: nat where
  "bytes_per_sample = 32"

record new_series_entry =
  nse_series_id :: int
  nse_metric :: string
  nse_labels :: labels

type_synonym points = "(int \<times> f64) list"
type_synonym day_map = "(int, (int, points) btree) btree"

record buffer =
  bf_by_day :: day_map
  bf_new_series :: "(int, new_series_entry) btree"
  bf_known :: "int set"
  bf_bytes :: nat
  bf_count :: nat
  bf_max_seq :: nat

record snapshot =
  sn_by_day :: day_map
  sn_new_series :: "(int, new_series_entry) btree"
  sn_bytes :: nat
  sn_count :: nat
  sn_max_seq :: nat

section \<open>Operations\<close>

definition with_known_series :: "int list \<Rightarrow> buffer" where
  "with_known_series seed = \<lparr>bf_by_day = [], bf_new_series = [], bf_known = set seed,
     bf_bytes = 0, bf_count = 0, bf_max_seq = 0\<rparr>"

definition day_of_us :: "externals \<Rightarrow> int \<Rightarrow> int" where
  "day_of_us X ts_us = (let s = ts_us div 1000000 in if chrono_ok X s then s div 86400 else 0)"

definition insert_point :: "int \<Rightarrow> int \<Rightarrow> int \<times> f64 \<Rightarrow> day_map \<Rightarrow> day_map" where
  "insert_point day sid pt m =
     bt_upd day (\<lambda>old. bt_push sid pt (case old of None \<Rightarrow> [] | Some series_map \<Rightarrow> series_map)) m"

definition insert_one :: "externals \<Rightarrow> validated_sample \<Rightarrow> buffer \<Rightarrow> buffer" where
  "insert_one X s b =
     (let day = day_of_us X (vs_ts_us s);
          sid = vs_series_id s;
          new = (if sid \<notin> bf_known b \<and> map_of (bf_new_series b) sid = None
                 then bt_insert sid \<lparr>nse_series_id = sid, nse_metric = vs_metric s,
                        nse_labels = vs_labels s\<rparr> (bf_new_series b)
                 else bf_new_series b)
      in b\<lparr>bf_new_series := new,
           bf_by_day := insert_point day sid (vs_ts_us s, vs_value s) (bf_by_day b),
           bf_bytes := bf_bytes b + bytes_per_sample,
           bf_count := bf_count b + 1\<rparr>)"

definition insert_batch :: "externals \<Rightarrow> nat \<Rightarrow> validated_sample list \<Rightarrow> buffer \<Rightarrow> buffer" where
  "insert_batch X record_seq samples b =
     fold (insert_one X) samples
       (if bf_max_seq b < record_seq then b\<lparr>bf_max_seq := record_seq\<rparr> else b)"

definition is_empty :: "buffer \<Rightarrow> bool" where
  "is_empty b \<longleftrightarrow> bf_count b = 0"

definition take_snapshot :: "buffer \<Rightarrow> snapshot \<times> buffer" where
  "take_snapshot b =
     (\<lparr>sn_by_day = bf_by_day b, sn_new_series = bf_new_series b, sn_bytes = bf_bytes b,
       sn_count = bf_count b, sn_max_seq = bf_max_seq b\<rparr>,
      \<lparr>bf_by_day = [], bf_new_series = [], bf_known = bf_known b \<union> fst ` set (bf_new_series b),
       bf_bytes = 0, bf_count = 0, bf_max_seq = 0\<rparr>)"

section \<open>Contents\<close>

type_synonym row = "int \<times> int \<times> f64"

definition row_of :: "validated_sample \<Rightarrow> row" where
  "row_of s = (vs_series_id s, vs_ts_us s, vs_value s)"

definition series_rows :: "(int, points) btree \<Rightarrow> row list" where
  "series_rows m = concat (map (\<lambda>(sid, pts). map (\<lambda>pt. (sid, pt)) pts) m)"

definition day_rows :: "day_map \<Rightarrow> row list" where
  "day_rows m = concat (map (\<lambda>(day, series_map). series_rows series_map) m)"

definition buffer_rows :: "buffer \<Rightarrow> row multiset" where
  "buffer_rows b = mset (day_rows (bf_by_day b))"

lemma series_rows_simps [simp]:
  "series_rows [] = []"
  "series_rows ((sid, pts) # m) = map (Pair sid) pts @ series_rows m"
  by (simp_all add: series_rows_def)

lemma day_rows_simps [simp]:
  "day_rows [] = []"
  "day_rows ((day, sm) # m) = series_rows sm @ day_rows m"
  by (simp_all add: day_rows_def)

lemma mset_series_rows_push: "mset (series_rows (bt_push sid pt m)) = add_mset (sid, pt) (mset (series_rows m))"
  unfolding bt_push_def by (induction m) auto

lemma mset_day_rows_insert:
  "mset (day_rows (insert_point day sid pt m)) = add_mset (sid, pt) (mset (day_rows m))"
  unfolding insert_point_def by (induction m) (auto simp: mset_series_rows_push)

section \<open>Invariant\<close>

text \<open>Every point is filed under its own day, and every series on file is registered.\<close>

definition points_wf :: "externals \<Rightarrow> int \<Rightarrow> points \<Rightarrow> bool" where
  "points_wf X day pts \<longleftrightarrow> pts \<noteq> [] \<and> (\<forall>q \<in> set pts. day_of_us X (fst q) = day)"

definition day_entry_wf :: "externals \<Rightarrow> int \<Rightarrow> (int, points) btree \<Rightarrow> bool" where
  "day_entry_wf X day sm \<longleftrightarrow> bt_wf sm \<and> sm \<noteq> [] \<and> (\<forall>p \<in> set sm. points_wf X day (snd p))"

definition day_map_wf :: "externals \<Rightarrow> day_map \<Rightarrow> bool" where
  "day_map_wf X m \<longleftrightarrow> bt_wf m \<and> (\<forall>p \<in> set m. day_entry_wf X (fst p) (snd p))"

definition registry_wf :: "int set \<Rightarrow> (int, new_series_entry) btree \<Rightarrow> bool" where
  "registry_wf known new \<longleftrightarrow> bt_wf new \<and>
     (\<forall>p \<in> set new. nse_series_id (snd p) = fst p \<and> fst p \<notin> known)"

definition buffer_inv :: "externals \<Rightarrow> buffer \<Rightarrow> bool" where
  "buffer_inv X b \<longleftrightarrow>
     day_map_wf X (bf_by_day b) \<and>
     bf_count b = size (buffer_rows b) \<and>
     bf_bytes b = bytes_per_sample * bf_count b \<and>
     registry_wf (bf_known b) (bf_new_series b) \<and>
     fst ` set (bf_new_series b) = fst ` set_mset (buffer_rows b) - bf_known b"

lemma buffer_inv_start: "buffer_inv X (with_known_series seed)"
  by (simp add: buffer_inv_def day_map_wf_def registry_wf_def with_known_series_def buffer_rows_def)

lemma bt_upd_neq_Nil: "bt_upd k f m \<noteq> []"
proof -
  have "k \<in> fst ` set (bt_upd k f m)" by (simp add: set_fst_bt_upd)
  then show ?thesis by auto
qed

lemma day_entry_wf_push:
  assumes "sm = [] \<or> day_entry_wf X (day_of_us X (fst pt)) sm"
  shows "day_entry_wf X (day_of_us X (fst pt)) (bt_push sid pt sm)"
proof -
  let ?day = "day_of_us X (fst pt)"
  have sm: "bt_wf sm" "\<forall>p \<in> set sm. points_wf X ?day (snd p)"
    using assms by (auto simp: day_entry_wf_def)
  have old: "points_wf X ?day ps" if "map_of sm sid = Some ps" for ps
    using sm(2) map_of_SomeD [OF that] by force
  have "points_wf X ?day (case map_of sm sid of None \<Rightarrow> [pt] | Some vs \<Rightarrow> vs @ [pt])"
    using old by (cases "map_of sm sid") (auto simp: points_wf_def)
  then show ?thesis
    using sm ball_bt_upd [of sm "\<lambda>_. points_wf X ?day" sid]
    by (simp add: day_entry_wf_def bt_push_def bt_wf_upd bt_upd_neq_Nil)
qed

lemma day_map_wf_insert:
  assumes "day_map_wf X m"
  shows "day_map_wf X (insert_point (day_of_us X (fst pt)) sid pt m)"
proof -
  let ?day = "day_of_us X (fst pt)"
  have m: "bt_wf m" "\<forall>p \<in> set m. day_entry_wf X (fst p) (snd p)"
    using assms by (auto simp: day_map_wf_def)
  have "day_entry_wf X ?day (bt_push sid pt (case map_of m ?day of None \<Rightarrow> [] | Some sm \<Rightarrow> sm))"
    using m(2) by (intro day_entry_wf_push) (auto split: option.splits dest!: map_of_SomeD)
  then show ?thesis
    using m ball_bt_upd [of m "day_entry_wf X" ?day]
    by (simp add: day_map_wf_def insert_point_def bt_wf_upd)
qed

lemma registry_wf_insert:
  assumes "registry_wf known new" "sid \<notin> known" "nse_series_id e = sid"
  shows "registry_wf known (bt_insert sid e new)"
  using assms ball_bt_upd [of new "\<lambda>k e. nse_series_id e = k \<and> k \<notin> known" sid "\<lambda>_. e"]
  by (simp add: registry_wf_def bt_insert_def bt_wf_upd)

lemma buffer_rows_insert_one [simp]:
  "buffer_rows (insert_one X s b) = add_mset (row_of s) (buffer_rows b)"
  by (simp add: insert_one_def buffer_rows_def mset_day_rows_insert row_of_def Let_def)

lemma insert_one_known: "bf_known (insert_one X s b) = bf_known b"
  and insert_one_max: "bf_max_seq (insert_one X s b) = bf_max_seq b"
  by (simp_all add: insert_one_def Let_def)

lemma buffer_inv_insert_one:
  assumes "buffer_inv X b"
  shows "buffer_inv X (insert_one X s b)"
proof -
  let ?b = "insert_one X s b"
  let ?sid = "vs_series_id s"
  let ?e = "\<lparr>nse_series_id = ?sid, nse_metric = vs_metric s, nse_labels = vs_labels s\<rparr>"
  have reg: "registry_wf (bf_known b) (bf_new_series b)" using assms by (simp add: buffer_inv_def)
  have new: "bf_new_series ?b = (if ?sid \<notin> bf_known b \<and> map_of (bf_new_series b) ?sid = None
      then bt_insert ?sid ?e (bf_new_series b) else bf_new_series b)"
    by (simp add: insert_one_def Let_def)
  have "day_map_wf X (bf_by_day ?b)"
    using day_map_wf_insert [of X "bf_by_day b" "(vs_ts_us s, vs_value s)" ?sid] assms
    by (simp add: insert_one_def Let_def buffer_inv_def)
  moreover have "bf_count ?b = size (buffer_rows ?b)"
    unfolding buffer_rows_insert_one using assms by (simp add: insert_one_def Let_def buffer_inv_def)
  moreover have "bf_bytes ?b = bytes_per_sample * bf_count ?b"
    using assms by (simp add: insert_one_def Let_def buffer_inv_def)
  moreover have "registry_wf (bf_known ?b) (bf_new_series ?b)"
    unfolding new insert_one_known using reg by (simp add: registry_wf_insert)
  moreover have "fst ` set (bf_new_series ?b) = fst ` set_mset (buffer_rows ?b) - bf_known ?b"
  proof -
    have "fst ` set (bt_insert ?sid ?e (bf_new_series b)) = insert ?sid (fst ` set (bf_new_series b))"
      by (simp only: bt_insert_def set_fst_bt_upd)
    then have "fst ` set (bf_new_series ?b) = fst ` set (bf_new_series b) \<union> ({?sid} - bf_known b)"
      unfolding new map_of_eq_None_iff by (cases "?sid \<in> bf_known b"; cases "?sid \<in> fst ` set (bf_new_series b)") auto
    also have "fst ` set (bf_new_series b) = fst ` set_mset (buffer_rows b) - bf_known b"
      using assms by (simp only: buffer_inv_def)
    also have "\<dots> \<union> ({?sid} - bf_known b) = insert ?sid (fst ` set_mset (buffer_rows b)) - bf_known b"
      by blast
    also have "insert ?sid (fst ` set_mset (buffer_rows b)) = fst ` set_mset (buffer_rows ?b)"
      by (simp add: row_of_def)
    finally show ?thesis by (simp only: insert_one_known)
  qed
  ultimately show ?thesis unfolding buffer_inv_def by (intro conjI)
qed

lemma fold_insert:
  "buffer_inv X b \<Longrightarrow> buffer_inv X (fold (insert_one X) ss b)"
  "buffer_rows (fold (insert_one X) ss b) = mset (map row_of ss) + buffer_rows b"
  "bf_known (fold (insert_one X) ss b) = bf_known b"
  "bf_max_seq (fold (insert_one X) ss b) = bf_max_seq b"
  by (induction ss arbitrary: b) (simp_all add: buffer_inv_insert_one insert_one_known insert_one_max)

lemma max_seq_update [simp]:
  "buffer_inv X (b\<lparr>bf_max_seq := n\<rparr>) \<longleftrightarrow> buffer_inv X b"
  "buffer_rows (b\<lparr>bf_max_seq := n\<rparr>) = buffer_rows b"
  by (simp_all add: buffer_rows_def buffer_inv_def)

lemma insert_batch_simps [simp]:
  "buffer_inv X b \<Longrightarrow> buffer_inv X (insert_batch X n ss b)"
  "buffer_rows (insert_batch X n ss b) = mset (map row_of ss) + buffer_rows b"
  "bf_known (insert_batch X n ss b) = bf_known b"
  "bf_max_seq (insert_batch X n ss b) = max (bf_max_seq b) n"
  by (simp_all add: insert_batch_def fold_insert)

lemma take_snapshot_simps [simp]:
  "bf_by_day (snd (take_snapshot b)) = []"
  "buffer_rows (snd (take_snapshot b)) = {#}"
  "sn_by_day (fst (take_snapshot b)) = bf_by_day b"
  "sn_new_series (fst (take_snapshot b)) = bf_new_series b"
  "sn_count (fst (take_snapshot b)) = bf_count b"
  "sn_max_seq (fst (take_snapshot b)) = bf_max_seq b"
  "bf_max_seq (snd (take_snapshot b)) = 0"
  "bf_known (snd (take_snapshot b)) = bf_known b \<union> fst ` set (bf_new_series b)"
  by (simp_all add: take_snapshot_def buffer_rows_def)

lemma buffer_inv_take: "buffer_inv X (snd (take_snapshot b))"
  by (simp add: take_snapshot_def buffer_inv_def day_map_wf_def registry_wf_def buffer_rows_def)

lemma buffer_empty_iff: "buffer_inv X b \<Longrightarrow> is_empty b \<longleftrightarrow> buffer_rows b = {#}"
  by (simp add: is_empty_def buffer_inv_def)

section \<open>Properties\<close>

definition insert_batches :: "externals \<Rightarrow> (nat \<times> validated_sample list) list \<Rightarrow> buffer \<Rightarrow> buffer" where
  "insert_batches X bs b = fold (\<lambda>(n, ss). insert_batch X n ss) bs b"

lemma insert_batches_simps:
  "buffer_inv X b \<Longrightarrow> buffer_inv X (insert_batches X bs b)"
  "buffer_rows (insert_batches X bs b) = mset (map row_of (concat (map snd bs))) + buffer_rows b"
  "bf_known (insert_batches X bs b) = bf_known b"
  "bf_max_seq (insert_batches X bs b) = foldl max (bf_max_seq b) (map fst bs)"
  by (induction bs arbitrary: b) (simp_all add: insert_batches_def case_prod_unfold)

text \<open>
  A buffer started with the known series \<open>seed\<close> hands over, whatever batches went in before,
  exactly their samples: each point once, under its own day; an exact sample count and size estimate;
  a registry entry for exactly the series ids not in \<open>seed\<close>; the largest record number. It is then
  empty and knows all of those series.
\<close>

theorem take_returns_inserted:
  "let b = insert_batches X bs (with_known_series seed); (sn, b') = take_snapshot b;
       samples = concat (map snd bs)
   in mset (day_rows (sn_by_day sn)) = mset (map row_of samples) \<and>
      day_map_wf X (sn_by_day sn) \<and>
      sn_count sn = length samples \<and> sn_bytes sn = bytes_per_sample * length samples \<and>
      fst ` set (sn_new_series sn) = vs_series_id ` set samples - set seed \<and>
      sn_max_seq sn = foldl max 0 (map fst bs) \<and>
      is_empty b' \<and> bf_known b' = set seed \<union> vs_series_id ` set samples"
proof -
  let ?b = "insert_batches X bs (with_known_series seed)"
  let ?ss = "concat (map snd bs)"
  note I = insert_batches_simps(1) [OF buffer_inv_start, of X bs seed]
  have rows: "buffer_rows ?b = mset (map row_of ?ss)"
    by (simp only: insert_batches_simps) (simp add: with_known_series_def buffer_rows_def)
  have known: "bf_known ?b = set seed" and mx: "bf_max_seq ?b = foldl max 0 (map fst bs)"
    by (simp_all only: insert_batches_simps) (simp_all add: with_known_series_def)
  have ids: "fst ` set_mset (buffer_rows ?b) = vs_series_id ` set ?ss"
    unfolding rows by (simp add: image_image row_of_def)
  have new: "fst ` set (bf_new_series ?b) = vs_series_id ` set ?ss - set seed"
    using I unfolding buffer_inv_def ids known by blast
  have cnt: "bf_count ?b = length ?ss" "bf_bytes ?b = bytes_per_sample * length ?ss"
    using I unfolding buffer_inv_def rows by simp_all
  have wf: "day_map_wf X (bf_by_day ?b)" using I by (simp add: buffer_inv_def)
  show ?thesis
    using rows wf cnt new known mx
    by (simp add: take_snapshot_def Let_def is_empty_def buffer_rows_def Un_commute)
qed

end
