(* ===== verification/Tables.thy ===== *)
theory Tables
  imports Sample_Types
begin

text \<open>
  \<open>src/src/iceberg_table.rs\<close> and the Arrow schemas of \<open>src/src/ingest/flush.rs\<close>: the two tables,
  their schemas with explicit field ids, and the bootstrap that creates what is missing. The catalog
  is a third-party service: its contents are a state, whether a call fails is an argument.
\<close>

section \<open>Names and field ids\<close>

definition namespace_name :: string where "namespace_name = ''skaldberg''"
definition series_table :: string where "series_table = ''series''"
definition samples_table :: string where "samples_table = ''samples''"

definition fid_series_id :: nat where "fid_series_id = 1"
definition fid_metric_name :: nat where "fid_metric_name = 2"
definition fid_labels :: nat where "fid_labels = 3"
definition fid_labels_key :: nat where "fid_labels_key = 4"
definition fid_labels_value :: nat where "fid_labels_value = 5"
definition fid_samples_series_id :: nat where "fid_samples_series_id = 1"
definition fid_timestamp :: nat where "fid_timestamp = 2"
definition fid_value :: nat where "fid_value = 3"

lemmas field_id_defs = fid_series_id_def fid_metric_name_def fid_labels_def fid_labels_key_def
  fid_labels_value_def fid_samples_series_id_def fid_timestamp_def fid_value_def

section \<open>Iceberg schemas\<close>

datatype ice_type = IceString | IceLong | IceTimestamp | IceDouble
  | IceMap nested_field nested_field
and nested_field = NestedField (nf_id: nat) (nf_name: string) (nf_type: ice_type) (nf_required: bool)

text \<open>\<open>NestedField::required\<close>, \<open>map_key_element\<close> and \<open>map_value_element\<close>.\<close>

definition required_field :: "nat \<Rightarrow> string \<Rightarrow> ice_type \<Rightarrow> nested_field" where
  "required_field i n t = NestedField i n t True"

definition map_key_element :: "nat \<Rightarrow> ice_type \<Rightarrow> nested_field" where
  "map_key_element i t = NestedField i ''key'' t True"

definition map_value_element :: "nat \<Rightarrow> ice_type \<Rightarrow> bool \<Rightarrow> nested_field" where
  "map_value_element i t required = NestedField i ''value'' t required"

definition series_iceberg_schema :: "nested_field list" where
  "series_iceberg_schema =
     (let labels_key = map_key_element fid_labels_key IceString;
          labels_value = map_value_element fid_labels_value IceString True;
          labels_type = IceMap labels_key labels_value
      in [required_field fid_series_id ''series_id'' IceLong,
          required_field fid_metric_name ''metric_name'' IceString,
          required_field fid_labels ''labels'' labels_type])"

definition samples_iceberg_schema :: "nested_field list" where
  "samples_iceberg_schema =
     [required_field fid_samples_series_id ''series_id'' IceLong,
      required_field fid_timestamp ''timestamp'' IceTimestamp,
      required_field fid_value ''value'' IceDouble]"

datatype transform = DayTransform

record partition_field =
  pf_source_id :: nat
  pf_name :: string
  pf_transform :: transform

record table_creation =
  tc_name :: string
  tc_schema :: "nested_field list"
  tc_partition :: "partition_field list"

definition build_series_creation :: table_creation where
  "build_series_creation = \<lparr>tc_name = series_table, tc_schema = series_iceberg_schema, tc_partition = []\<rparr>"

definition build_samples_creation :: table_creation where
  "build_samples_creation =
     \<lparr>tc_name = samples_table, tc_schema = samples_iceberg_schema,
      tc_partition = [\<lparr>pf_source_id = fid_timestamp, pf_name = ''timestamp_day'',
                       pf_transform = DayTransform\<rparr>]\<rparr>"

section \<open>Bootstrap\<close>

datatype catalog_config = Memory string | S3Tables string "string option"

text \<open>The tables of a catalog: namespace and name of each, with what it was created from.\<close>

record catalog =
  cat_namespaces :: "string list"
  cat_tables :: "((string \<times> string) \<times> table_creation) list"

datatype catalog_call = NamespaceExists | CreateNamespace | TableExists string | CreateTable string

record iceberg_tables =
  ict_namespace :: string
  ict_series :: "string \<times> string"
  ict_samples :: "string \<times> string"

definition ensure_namespace :: "(catalog_call \<Rightarrow> bool) \<Rightarrow> catalog \<Rightarrow> (catalog_call + unit) \<times> catalog" where
  "ensure_namespace fails c =
     (if fails NamespaceExists then (Inl NamespaceExists, c)
      else if namespace_name \<in> set (cat_namespaces c) then (Inr (), c)
      else if fails CreateNamespace then (Inl CreateNamespace, c)
      else (Inr (), c\<lparr>cat_namespaces := cat_namespaces c @ [namespace_name]\<rparr>))"

definition ensure_table :: "(catalog_call \<Rightarrow> bool) \<Rightarrow> table_creation \<Rightarrow> catalog \<Rightarrow> (catalog_call + unit) \<times> catalog" where
  "ensure_table fails tc c =
     (let n = tc_name tc; ident = (namespace_name, n)
      in if fails (TableExists n) then (Inl (TableExists n), c)
         else if ident \<in> fst ` set (cat_tables c) then (Inr (), c)
         else if fails (CreateTable n) then (Inl (CreateTable n), c)
         else (Inr (), c\<lparr>cat_tables := cat_tables c @ [(ident, tc)]\<rparr>))"

definition ensure_skaldberg_tables :: "(catalog_call \<Rightarrow> bool) \<Rightarrow> catalog
    \<Rightarrow> (catalog_call + iceberg_tables) \<times> catalog" where
  "ensure_skaldberg_tables fails c =
     (case ensure_namespace fails c of
        (Inl e, c) \<Rightarrow> (Inl e, c)
      | (Inr _, c) \<Rightarrow>
     (case ensure_table fails build_series_creation c of
        (Inl e, c) \<Rightarrow> (Inl e, c)
      | (Inr _, c) \<Rightarrow>
     (case ensure_table fails build_samples_creation c of
        (Inl e, c) \<Rightarrow> (Inl e, c)
      | (Inr _, c) \<Rightarrow>
          (Inr \<lparr>ict_namespace = namespace_name,
                ict_series = (namespace_name, series_table),
                ict_samples = (namespace_name, samples_table)\<rparr>, c))))"

section \<open>Arrow schemas\<close>

datatype arrow_type = AInt64 | AUtf8 | AFloat64 | ATimestampUs
  | AStruct "arrow_field list" | AMap arrow_field bool
and arrow_field = ArrowField (af_name: string) (af_type: arrow_type) (af_nullable: bool)
    (af_metadata: "(string \<times> string) list")

definition field_id_metadata :: "nat \<Rightarrow> (string \<times> string) list" where
  "field_id_metadata i = [(''PARQUET:field_id'', dec_of_nat i)]"

definition samples_arrow_schema :: "arrow_field list" where
  "samples_arrow_schema =
     [ArrowField ''series_id'' AInt64 False (field_id_metadata fid_samples_series_id),
      ArrowField ''timestamp'' ATimestampUs False (field_id_metadata fid_timestamp),
      ArrowField ''value'' AFloat64 False (field_id_metadata fid_value)]"

text \<open>The field of a map's entries, shared by the schema and by the rewrapped labels array.\<close>

definition labels_entries_field :: arrow_field where
  "labels_entries_field =
     (let key_field = ArrowField ''key'' AUtf8 False (field_id_metadata fid_labels_key);
          value_field = ArrowField ''value'' AUtf8 False (field_id_metadata fid_labels_value)
      in ArrowField ''key_value'' (AStruct [key_field, value_field]) False [])"

definition series_arrow_schema :: "arrow_field list" where
  "series_arrow_schema =
     (let labels_dt = AMap labels_entries_field False
      in [ArrowField ''series_id'' AInt64 False (field_id_metadata fid_series_id),
          ArrowField ''metric_name'' AUtf8 False (field_id_metadata fid_metric_name),
          ArrowField ''labels'' labels_dt False (field_id_metadata fid_labels)])"

text \<open>
  How Iceberg reads an Arrow column: by field id, with the same name, a non-null column exactly for
  a required field, and the type that corresponds.
\<close>

fun arrow_matches :: "nested_field \<Rightarrow> arrow_field \<Rightarrow> bool"
  and arrow_type_matches :: "ice_type \<Rightarrow> arrow_type \<Rightarrow> bool" where
  "arrow_matches (NestedField i n t req) (ArrowField n' t' nullable md) \<longleftrightarrow>
     n = n' \<and> req = (\<not> nullable) \<and> md = field_id_metadata i \<and> arrow_type_matches t t'"
| "arrow_type_matches IceString AUtf8 = True"
| "arrow_type_matches IceLong AInt64 = True"
| "arrow_type_matches IceTimestamp ATimestampUs = True"
| "arrow_type_matches IceDouble AFloat64 = True"
| "arrow_type_matches (IceMap k v) (AMap (ArrowField _ (AStruct [k', v']) nullable _) _) \<longleftrightarrow>
     \<not> nullable \<and> arrow_matches k k' \<and> arrow_matches v v'"
| "arrow_type_matches _ _ = False"

section \<open>Properties\<close>

text \<open>
  The Arrow batches the flusher writes have, column for column, the field ids, names, types and
  nullability of the Iceberg tables they are written to, down to the key and value of the label map.
\<close>

theorem arrow_schemas_match:
  "list_all2 arrow_matches samples_iceberg_schema samples_arrow_schema \<and>
   list_all2 arrow_matches series_iceberg_schema series_arrow_schema"
  by (simp add: samples_iceberg_schema_def samples_arrow_schema_def series_iceberg_schema_def
      series_arrow_schema_def labels_entries_field_def required_field_def map_key_element_def
      map_value_element_def)

definition bootstrapped :: "catalog \<Rightarrow> bool" where
  "bootstrapped c \<longleftrightarrow> namespace_name \<in> set (cat_namespaces c) \<and>
     (namespace_name, series_table) \<in> fst ` set (cat_tables c) \<and>
     (namespace_name, samples_table) \<in> fst ` set (cat_tables c)"

definition catalog_extends :: "catalog \<Rightarrow> catalog \<Rightarrow> bool" where
  "catalog_extends c c' \<longleftrightarrow>
     (\<exists>ns ts. cat_namespaces c' = cat_namespaces c @ ns \<and> cat_tables c' = cat_tables c @ ts \<and>
        set ns \<subseteq> {namespace_name} \<and> distinct ns \<and> set ns \<inter> set (cat_namespaces c) = {} \<and>
        distinct (map fst ts) \<and> fst ` set ts \<inter> fst ` set (cat_tables c) = {})"

lemma ensure_namespace_spec:
  "\<exists>r ns. ensure_namespace fails c = (r, c\<lparr>cat_namespaces := cat_namespaces c @ ns\<rparr>) \<and>
     set ns \<subseteq> {namespace_name} \<and> distinct ns \<and> set ns \<inter> set (cat_namespaces c) = {} \<and>
     (case r of Inl e \<Rightarrow> fails e | Inr _ \<Rightarrow> namespace_name \<in> set (cat_namespaces c @ ns))"
proof (cases "\<not> fails NamespaceExists \<and> namespace_name \<notin> set (cat_namespaces c) \<and> \<not> fails CreateNamespace")
  case True
  then show ?thesis
    by (intro exI [of _ "Inr ()"] exI [of _ "[namespace_name]"]) (simp add: ensure_namespace_def)
next
  case False
  then show ?thesis
    by (intro exI [of _ "fst (ensure_namespace fails c)"] exI [of _ "[]"]) (auto simp: ensure_namespace_def)
qed

lemma ensure_table_spec:
  "\<exists>r ts. ensure_table fails tc c = (r, c\<lparr>cat_tables := cat_tables c @ ts\<rparr>) \<and>
     fst ` set ts \<subseteq> {(namespace_name, tc_name tc)} \<and> distinct (map fst ts) \<and>
     fst ` set ts \<inter> fst ` set (cat_tables c) = {} \<and>
     (case r of Inl e \<Rightarrow> fails e | Inr _ \<Rightarrow> (namespace_name, tc_name tc) \<in> fst ` set (cat_tables c @ ts))"
proof (cases "\<not> fails (TableExists (tc_name tc)) \<and> (namespace_name, tc_name tc) \<notin> fst ` set (cat_tables c) \<and>
    \<not> fails (CreateTable (tc_name tc))")
  case True
  then show ?thesis
    by (intro exI [of _ "Inr ()"] exI [of _ "[((namespace_name, tc_name tc), tc)]"]) (simp add: ensure_table_def)
next
  case False
  then show ?thesis
    by (intro exI [of _ "fst (ensure_table fails tc c)"] exI [of _ "[]"]) (auto simp: ensure_table_def Let_def)
qed

lemma creation_names: "tc_name build_series_creation = series_table" "tc_name build_samples_creation = samples_table"
  by (simp_all add: build_series_creation_def build_samples_creation_def)

text \<open>The two tables, one after the other.\<close>

definition ensure_tables :: "(catalog_call \<Rightarrow> bool) \<Rightarrow> catalog \<Rightarrow> (catalog_call + unit) \<times> catalog" where
  "ensure_tables fails c =
     (case ensure_table fails build_series_creation c of
        (Inl e, c) \<Rightarrow> (Inl e, c)
      | (Inr _, c) \<Rightarrow> ensure_table fails build_samples_creation c)"

lemma ensure_tables_spec:
  "\<exists>r ts. ensure_tables fails c = (r, c\<lparr>cat_tables := cat_tables c @ ts\<rparr>) \<and> distinct (map fst ts) \<and>
     fst ` set ts \<inter> fst ` set (cat_tables c) = {} \<and>
     (case r of Inl e \<Rightarrow> fails e | Inr _ \<Rightarrow>
        {(namespace_name, series_table), (namespace_name, samples_table)} \<subseteq> fst ` set (cat_tables c @ ts))"
proof -
  obtain r ts where 1: "ensure_table fails build_series_creation c = (r, c\<lparr>cat_tables := cat_tables c @ ts\<rparr>)"
    "distinct (map fst ts)" "fst ` set ts \<inter> fst ` set (cat_tables c) = {}"
    "case r of Inl e \<Rightarrow> fails e | Inr _ \<Rightarrow> (namespace_name, series_table) \<in> fst ` set (cat_tables c @ ts)"
    using ensure_table_spec [of fails build_series_creation c, unfolded creation_names] by blast
  let ?d = "c\<lparr>cat_tables := cat_tables c @ ts\<rparr>"
  obtain r' us where 2: "ensure_table fails build_samples_creation ?d = (r', ?d\<lparr>cat_tables := cat_tables ?d @ us\<rparr>)"
    "distinct (map fst us)" "fst ` set us \<inter> fst ` set (cat_tables ?d) = {}"
    "case r' of Inl e \<Rightarrow> fails e | Inr _ \<Rightarrow> (namespace_name, samples_table) \<in> fst ` set (cat_tables ?d @ us)"
    using ensure_table_spec [of fails build_samples_creation ?d, unfolded creation_names] by blast
  show ?thesis
  proof (cases r)
    case (Inl e)
    then show ?thesis using 1 by (intro exI [of _ r] exI [of _ ts]) (simp add: ensure_tables_def)
  next
    case (Inr u)
    have "distinct (map fst (ts @ us))" "fst ` set (ts @ us) \<inter> fst ` set (cat_tables c) = {}"
      using 1(2,3) 2(2,3) by (auto simp: image_Un)
    then show ?thesis
      using Inr 1 2(1,4) by (intro exI [of _ r'] exI [of _ "ts @ us"]) (auto simp: ensure_tables_def image_Un split: sum.splits)
  qed
qed

lemma ensure_by_stages:
  "ensure_skaldberg_tables fails c =
     (case ensure_namespace fails c of
        (Inl e, d) \<Rightarrow> (Inl e, d)
      | (Inr _, d) \<Rightarrow> map_prod (map_sum id (\<lambda>_. \<lparr>ict_namespace = namespace_name,
          ict_series = (namespace_name, series_table), ict_samples = (namespace_name, samples_table)\<rparr>)) id (ensure_tables fails d))"
  by (simp add: ensure_skaldberg_tables_def ensure_tables_def split: prod.split sum.split)

text \<open>All stages at once: what was added, and the result.\<close>

lemma ensure_spec:
  "\<exists>r ns ts. ensure_skaldberg_tables fails c =
       (r, c\<lparr>cat_namespaces := cat_namespaces c @ ns, cat_tables := cat_tables c @ ts\<rparr>) \<and>
     set ns \<subseteq> {namespace_name} \<and> distinct ns \<and> set ns \<inter> set (cat_namespaces c) = {} \<and>
     distinct (map fst ts) \<and> fst ` set ts \<inter> fst ` set (cat_tables c) = {} \<and>
     (case r of Inl e \<Rightarrow> fails e
      | Inr _ \<Rightarrow> bootstrapped (c\<lparr>cat_namespaces := cat_namespaces c @ ns, cat_tables := cat_tables c @ ts\<rparr>))"
proof -
  obtain r ns where 1: "ensure_namespace fails c = (r, c\<lparr>cat_namespaces := cat_namespaces c @ ns\<rparr>)"
    "set ns \<subseteq> {namespace_name}" "distinct ns" "set ns \<inter> set (cat_namespaces c) = {}"
    "case r of Inl e \<Rightarrow> fails e | Inr _ \<Rightarrow> namespace_name \<in> set (cat_namespaces c @ ns)"
    using ensure_namespace_spec by blast
  let ?d = "c\<lparr>cat_namespaces := cat_namespaces c @ ns\<rparr>"
  obtain r' ts where 2: "ensure_tables fails ?d = (r', ?d\<lparr>cat_tables := cat_tables ?d @ ts\<rparr>)" "distinct (map fst ts)"
    "fst ` set ts \<inter> fst ` set (cat_tables ?d) = {}"
    "case r' of Inl e \<Rightarrow> fails e | Inr _ \<Rightarrow>
       {(namespace_name, series_table), (namespace_name, samples_table)} \<subseteq> fst ` set (cat_tables ?d @ ts)"
    using ensure_tables_spec [of fails ?d] by blast
  show ?thesis
  proof (cases r)
    case (Inl e)
    then show ?thesis
      using 1 by (intro exI [of _ "Inl e"] exI [of _ ns] exI [of _ "[]"]) (simp add: ensure_by_stages)
  next
    case (Inr u)
    then show ?thesis
      using 1 2
      by (intro exI [of _ "fst (ensure_skaldberg_tables fails c)"] exI [of _ ns] exI [of _ ts])
        (auto simp: ensure_by_stages bootstrapped_def split: sum.splits)
  qed
qed

text \<open>
  (C38) The bootstrap only ever adds the namespace and tables that are missing; it reports success
  exactly when no catalog call it made failed, and then all three exist; running it again on a
  bootstrapped catalog with no failing call succeeds and changes nothing, so a start after a
  half-failed one finishes the job.
\<close>

theorem bootstrap_idempotent:
  "catalog_extends c (snd (ensure_skaldberg_tables fails c)) \<and>
   (case fst (ensure_skaldberg_tables fails c) of
      Inl e \<Rightarrow> fails e
    | Inr t \<Rightarrow> bootstrapped (snd (ensure_skaldberg_tables fails c))) \<and>
   (let (r, c1) = ensure_skaldberg_tables (\<lambda>_. False) (snd (ensure_skaldberg_tables fails c))
    in (\<exists>t. r = Inr t) \<and> bootstrapped c1 \<and> snd (ensure_skaldberg_tables (\<lambda>_. False) c1) = c1)"
proof -
  have 1: "catalog_extends d (snd (ensure_skaldberg_tables f d)) \<and>
      (case fst (ensure_skaldberg_tables f d) of Inl e \<Rightarrow> f e
       | Inr t \<Rightarrow> bootstrapped (snd (ensure_skaldberg_tables f d)))" for f d
  proof -
    obtain r ns ts where e: "ensure_skaldberg_tables f d =
        (r, d\<lparr>cat_namespaces := cat_namespaces d @ ns, cat_tables := cat_tables d @ ts\<rparr>)"
      and rest: "set ns \<subseteq> {namespace_name}" "distinct ns" "set ns \<inter> set (cat_namespaces d) = {}"
        "distinct (map fst ts)" "fst ` set ts \<inter> fst ` set (cat_tables d) = {}"
        "case r of Inl e \<Rightarrow> f e | Inr _ \<Rightarrow> bootstrapped (snd (ensure_skaldberg_tables f d))"
      using ensure_spec [of f d] by (metis snd_conv)
    have "catalog_extends d (snd (ensure_skaldberg_tables f d))"
      unfolding catalog_extends_def e using rest(1-5) by (intro exI [of _ ns] exI [of _ ts]) simp
    with rest(6) show ?thesis by (simp add: e)
  qed
  have total: "(\<exists>t. fst (ensure_skaldberg_tables (\<lambda>_. False) d) = Inr t) \<and>
      bootstrapped (snd (ensure_skaldberg_tables (\<lambda>_. False) d))" for d
    using 1 [of d "\<lambda>_. False"] by (cases "fst (ensure_skaldberg_tables (\<lambda>_. False) d)") simp_all
  have stable: "snd (ensure_skaldberg_tables (\<lambda>_. False) d) = d" if "bootstrapped d" for d
    using that by (simp add: ensure_skaldberg_tables_def ensure_namespace_def ensure_table_def Let_def
        build_series_creation_def build_samples_creation_def bootstrapped_def)
  show ?thesis
    using 1 [of c fails] total [of "snd (ensure_skaldberg_tables fails c)"] stable
    by (simp add: case_prod_unfold Let_def)
qed

end
