(* ===== verification/Flush.thy ===== *)
theory Flush
  imports Buffer Tables
begin

text \<open>
  \<open>src/src/ingest/flush.rs\<close>: a snapshot becomes one column batch per day for the samples table and
  one batch for the series table, each committed on its own. Iceberg is a third-party service; its
  documented effect is that a committed append adds the batches, and how it answers each of the two
  commits is an argument: acknowledged with a file count, refused, or landed without an answer.
\<close>

section \<open>Column batches\<close>

record samples_batch =
  sb_series_ids :: "int list"
  sb_timestamps :: "int list"
  sb_values :: "f64 list"

text \<open>The loop over the series of one day; each series' points are sorted by timestamp, stably.\<close>

definition push_points :: "int \<Rightarrow> points \<Rightarrow> samples_batch \<Rightarrow> samples_batch" where
  "push_points sid pts b =
     fold (\<lambda>(ts, v) b. b\<lparr>sb_series_ids := sb_series_ids b @ [sid],
                         sb_timestamps := sb_timestamps b @ [ts],
                         sb_values := sb_values b @ [v]\<rparr>) (sort_key fst pts) b"

definition build_samples_batch :: "(int, points) btree \<Rightarrow> samples_batch" where
  "build_samples_batch by_series =
     fold (\<lambda>(sid, pts). push_points sid pts) by_series
       \<lparr>sb_series_ids = [], sb_timestamps = [], sb_values = []\<rparr>"

definition batch_rows :: "samples_batch \<Rightarrow> row list" where
  "batch_rows b = zip (sb_series_ids b) (zip (sb_timestamps b) (sb_values b))"

text \<open>\<open>MapBuilder\<close>: flat key and value columns, and the offset at which each row ends.\<close>

record map_builder =
  mb_keys :: "string list"
  mb_values :: "string list"
  mb_offsets :: "nat list"

definition mb_append_row :: "labels \<Rightarrow> map_builder \<Rightarrow> map_builder" where
  "mb_append_row ls mb =
     (let mb = fold (\<lambda>(k, v) mb. mb\<lparr>mb_keys := mb_keys mb @ [k], mb_values := mb_values mb @ [v]\<rparr>) ls mb
      in mb\<lparr>mb_offsets := mb_offsets mb @ [length (mb_keys mb)]\<rparr>)"

record map_array =
  ma_entries_field :: arrow_field
  ma_offsets :: "nat list"
  ma_keys :: "string list"
  ma_values :: "string list"
  ma_ordered :: bool

text \<open>\<open>MapBuilder::finish\<close>: the builder marks the value field nullable and knows no field ids.\<close>

definition mb_finish :: "map_builder \<Rightarrow> map_array" where
  "mb_finish mb =
     \<lparr>ma_entries_field = ArrowField ''key_value''
        (AStruct [ArrowField ''key'' AUtf8 False [], ArrowField ''value'' AUtf8 True []]) False [],
      ma_offsets = mb_offsets mb, ma_keys = mb_keys mb, ma_values = mb_values mb, ma_ordered = False\<rparr>"

definition rewrap_labels_map :: "map_array \<Rightarrow> map_array" where
  "rewrap_labels_map raw =
     \<lparr>ma_entries_field = labels_entries_field, ma_offsets = ma_offsets raw, ma_keys = ma_keys raw,
      ma_values = ma_values raw, ma_ordered = ma_ordered raw\<rparr>"

record series_batch =
  se_series_ids :: "int list"
  se_metrics :: "string list"
  se_labels :: map_array

definition build_series_batch :: "(int, new_series_entry) btree \<Rightarrow> series_batch" where
  "build_series_batch new_series =
     (let mb = fold (\<lambda>(sid, e). mb_append_row (nse_labels e)) new_series
                 \<lparr>mb_keys = [], mb_values = [], mb_offsets = [0]\<rparr>
      in \<lparr>se_series_ids = map fst new_series, se_metrics = map (nse_metric \<circ> snd) new_series,
          se_labels = rewrap_labels_map (mb_finish mb)\<rparr>)"

text \<open>Reading the label map of a row back out of the offsets.\<close>

definition map_array_row :: "map_array \<Rightarrow> nat \<Rightarrow> labels" where
  "map_array_row a i =
     (let s = ma_offsets a ! i; e = ma_offsets a ! (i + 1)
      in zip (take (e - s) (drop s (ma_keys a))) (take (e - s) (drop s (ma_values a))))"

type_synonym series_row = "int \<times> string \<times> labels"

definition series_batch_rows :: "series_batch \<Rightarrow> series_row list" where
  "series_batch_rows b =
     map (\<lambda>i. (se_series_ids b ! i, se_metrics b ! i, map_array_row (se_labels b) i))
       [0..<length (se_series_ids b)]"

section \<open>The two commits\<close>

text \<open>The committed contents of the two tables: per commit the batches with their day partition.\<close>

record warehouse =
  wh_samples :: "(int \<times> samples_batch) list"
  wh_series :: "series_batch list"

datatype commit_io = Committed nat | Refused | LandedUnanswered

record flush_io =
  fio_samples :: commit_io
  fio_series :: commit_io

datatype flush_error = FlushSamples | FlushSeries

record flush_result =
  fr_samples_files :: nat
  fr_samples_rows :: nat
  fr_series_rows :: nat
  fr_max_record_seq :: nat

text \<open>\<open>num_days() as i32\<close> of a date counted from 1970-01-01.\<close>

definition epoch_days :: "int \<Rightarrow> int" where
  "epoch_days day = (day + 2 ^ 31) mod 2 ^ 32 - 2 ^ 31"

definition flush_samples :: "commit_io \<Rightarrow> snapshot \<Rightarrow> warehouse \<Rightarrow> (flush_error + nat) \<times> warehouse" where
  "flush_samples io snap wh =
     (let batches = map (\<lambda>(day, by_series). (epoch_days day, build_samples_batch by_series)) (sn_by_day snap);
          wh' = wh\<lparr>wh_samples := wh_samples wh @ batches\<rparr>
      in case io of
           Committed n \<Rightarrow> (Inr n, wh')
         | Refused \<Rightarrow> (Inl FlushSamples, wh)
         | LandedUnanswered \<Rightarrow> (Inl FlushSamples, wh'))"

definition flush_series :: "commit_io \<Rightarrow> snapshot \<Rightarrow> warehouse \<Rightarrow> (flush_error + unit) \<times> warehouse" where
  "flush_series io snap wh =
     (let wh' = wh\<lparr>wh_series := wh_series wh @ [build_series_batch (sn_new_series snap)]\<rparr>
      in case io of
           Committed n \<Rightarrow> (Inr (), wh')
         | Refused \<Rightarrow> (Inl FlushSeries, wh)
         | LandedUnanswered \<Rightarrow> (Inl FlushSeries, wh'))"

definition flush :: "flush_io \<Rightarrow> snapshot \<Rightarrow> warehouse \<Rightarrow> (flush_error + flush_result) \<times> warehouse" where
  "flush io snap wh =
     (let result = (\<lambda>files. \<lparr>fr_samples_files = files, fr_samples_rows = sn_count snap,
                        fr_series_rows = length (sn_new_series snap), fr_max_record_seq = sn_max_seq snap\<rparr>)
      in case (if sn_by_day snap \<noteq> [] then flush_samples (fio_samples io) snap wh else (Inr 0, wh)) of
           (Inl e, wh) \<Rightarrow> (Inl e, wh)
         | (Inr files, wh) \<Rightarrow>
             (case (if sn_new_series snap \<noteq> [] then flush_series (fio_series io) snap wh else (Inr (), wh)) of
                (Inl e, wh) \<Rightarrow> (Inl e, wh)
              | (Inr _, wh) \<Rightarrow> (Inr (result files), wh)))"

section \<open>What the batches hold\<close>

lemma push_points_cols:
  "sb_series_ids (push_points sid pts b) = sb_series_ids b @ replicate (length pts) sid"
  "sb_timestamps (push_points sid pts b) = sb_timestamps b @ map fst (sort_key fst pts)"
  "sb_values (push_points sid pts b) = sb_values b @ map snd (sort_key fst pts)"
proof -
  let ?f = "\<lambda>(ts, v) b. b\<lparr>sb_series_ids := sb_series_ids b @ [sid],
     sb_timestamps := sb_timestamps b @ [ts], sb_values := sb_values b @ [v]\<rparr>"
  have "sb_series_ids (fold ?f ps b) = sb_series_ids b @ replicate (length ps) sid"
    "sb_timestamps (fold ?f ps b) = sb_timestamps b @ map fst ps"
    "sb_values (fold ?f ps b) = sb_values b @ map snd ps" for ps :: points and b :: samples_batch
    by (induction ps arbitrary: b) (auto simp: replicate_app_Cons_same)
  from this [of "sort_key fst pts" b]
  show "sb_series_ids (push_points sid pts b) = sb_series_ids b @ replicate (length pts) sid"
    "sb_timestamps (push_points sid pts b) = sb_timestamps b @ map fst (sort_key fst pts)"
    "sb_values (push_points sid pts b) = sb_values b @ map snd (sort_key fst pts)"
    by (simp_all only: push_points_def length_sort)
qed

definition batch_aligned :: "samples_batch \<Rightarrow> bool" where
  "batch_aligned b \<longleftrightarrow> length (sb_timestamps b) = length (sb_series_ids b) \<and>
     length (sb_values b) = length (sb_series_ids b)"

lemma zip_replicate_pair: "length xs = n \<Longrightarrow> zip (replicate n c) xs = map (Pair c) xs"
  by (induction xs arbitrary: n) auto

lemma batch_rows_push_points:
  assumes "batch_aligned b"
  shows "batch_rows (push_points sid pts b) = batch_rows b @ map (Pair sid) (sort_key fst pts)"
    and "batch_aligned (push_points sid pts b)"
  using assms
  by (simp_all add: batch_rows_def batch_aligned_def push_points_cols zip_map_fst_snd zip_replicate_pair)

lemma build_samples_batch_rows:
  "batch_rows (build_samples_batch m) =
     concat (map (\<lambda>(sid, pts). map (Pair sid) (sort_key fst pts)) m)"
proof -
  have "batch_rows (fold (\<lambda>(sid, pts). push_points sid pts) m b) =
      batch_rows b @ concat (map (\<lambda>(sid, pts). map (Pair sid) (sort_key fst pts)) m)"
    if "batch_aligned b" for b
    using that by (induction m arbitrary: b) (auto simp: batch_rows_push_points)
  from this [of "\<lparr>sb_series_ids = [], sb_timestamps = [], sb_values = []\<rparr>"]
  show ?thesis by (simp add: build_samples_batch_def batch_aligned_def batch_rows_def)
qed

lemma mset_build_samples_batch: "mset (batch_rows (build_samples_batch m)) = mset (series_rows m)"
  unfolding build_samples_batch_rows by (induction m) auto

definition row_before :: "row \<Rightarrow> row \<Rightarrow> bool" where
  "row_before r r' \<longleftrightarrow> fst r < fst r' \<or> fst r = fst r' \<and> fst (snd r) \<le> fst (snd r')"

lemma sorted_build_samples_batch:
  "bt_wf m \<Longrightarrow> sorted_wrt row_before (batch_rows (build_samples_batch m))"
  unfolding build_samples_batch_rows
proof (induction m)
  case Nil
  then show ?case by simp
next
  case (Cons p m)
  obtain sid pts where p: "p = (sid, pts)" by (cases p)
  have srt: "sorted_wrt row_before (map (Pair sid) (sort_key fst pts))"
    using sorted_sort_key [of fst pts] by (simp add: sorted_wrt_map row_before_def)
  have "\<forall>r' \<in> set (concat (map (\<lambda>(sid, pts). map (Pair sid) (sort_key fst pts)) m)). sid < fst r'"
    using Cons.prems by (fastforce simp: p bt_wf_Cons)
  moreover have "\<forall>r \<in> set (map (Pair sid) (sort_key fst pts)). fst r = sid" by auto
  ultimately have "\<forall>r \<in> set (map (Pair sid) (sort_key fst pts)).
      \<forall>r' \<in> set (concat (map (\<lambda>(sid, pts). map (Pair sid) (sort_key fst pts)) m)). row_before r r'"
    unfolding row_before_def by metis
  with srt show ?case
    using Cons.IH [OF bt_wf_tl [OF Cons.prems]] by (simp only: p list.map concat.simps sorted_wrt_append prod.case simp_thms)
qed

section \<open>What the series batch holds\<close>

lemma mb_append_row_simps:
  "mb_keys (mb_append_row ls mb) = mb_keys mb @ map fst ls"
  "mb_values (mb_append_row ls mb) = mb_values mb @ map snd ls"
  "mb_offsets (mb_append_row ls mb) = mb_offsets mb @ [length (mb_keys mb) + length ls]"
proof -
  let ?f = "\<lambda>(k, v) mb. mb\<lparr>mb_keys := mb_keys mb @ [k], mb_values := mb_values mb @ [v]\<rparr>"
  have "mb_keys (fold ?f ls mb) = mb_keys mb @ map fst ls"
    "mb_values (fold ?f ls mb) = mb_values mb @ map snd ls"
    "mb_offsets (fold ?f ls mb) = mb_offsets mb" for mb :: map_builder
    by (induction ls arbitrary: mb) auto
  from this [of mb]
  show "mb_keys (mb_append_row ls mb) = mb_keys mb @ map fst ls"
    "mb_values (mb_append_row ls mb) = mb_values mb @ map snd ls"
    "mb_offsets (mb_append_row ls mb) = mb_offsets mb @ [length (mb_keys mb) + length ls]"
    by (simp_all add: mb_append_row_def Let_def)
qed

text \<open>A builder holds the rows \<open>rs\<close>: flat columns are their concatenation, offsets the running lengths.\<close>

definition mb_holds :: "labels list \<Rightarrow> map_builder \<Rightarrow> bool" where
  "mb_holds rs mb \<longleftrightarrow>
     mb_keys mb = map fst (concat rs) \<and> mb_values mb = map snd (concat rs) \<and>
     mb_offsets mb = map (\<lambda>i. length (concat (take i rs))) [0..<length rs + 1]"

lemma mb_holds_append:
  assumes "mb_holds rs mb" shows "mb_holds (rs @ [ls]) (mb_append_row ls mb)"
proof -
  have "map (\<lambda>i. length (concat (take i (rs @ [ls])))) [0..<length rs + 1] =
      map (\<lambda>i. length (concat (take i rs))) [0..<length rs + 1]"
    by (rule map_cong) auto
  then show ?thesis
    using assms by (simp add: mb_holds_def mb_append_row_simps)
qed

lemma mb_holds_fold:
  "mb_holds rs mb \<Longrightarrow>
     mb_holds (rs @ map (nse_labels \<circ> snd) m) (fold (\<lambda>(sid, e). mb_append_row (nse_labels e)) m mb)"
proof (induction m arbitrary: rs mb)
  case Nil
  then show ?case by simp
next
  case (Cons p m)
  from Cons.IH [OF mb_holds_append [OF Cons.prems, of "nse_labels (snd p)"]]
  show ?case by (simp add: case_prod_unfold)
qed

lemma map_array_row_holds:
  assumes "mb_holds rs mb" "i < length rs"
  shows "map_array_row (rewrap_labels_map (mb_finish mb)) i = rs ! i"
proof -
  have off: "mb_offsets mb ! j = length (concat (take j rs))" if "j \<le> length rs" for j
    using assms(1) that by (simp add: mb_holds_def nth_append less_Suc_eq_le del: upt_Suc)
  have c: "concat rs = concat (take i rs) @ rs ! i @ concat (drop (Suc i) rs)"
    using id_take_nth_drop [OF assms(2)] by (metis concat.simps(2) concat_append)
  have t: "take (Suc i) rs = take i rs @ [rs ! i]" using assms(2) by (rule take_Suc_conv_app_nth)
  have k: "mb_keys mb = map fst (concat (take i rs) @ rs ! i @ concat (drop (Suc i) rs))"
    "mb_values mb = map snd (concat (take i rs) @ rs ! i @ concat (drop (Suc i) rs))"
    using assms(1) unfolding mb_holds_def c [symmetric] by simp_all
  show ?thesis
    using assms(2) by (simp add: map_array_row_def rewrap_labels_map_def mb_finish_def Let_def off k t
        drop_map take_map zip_map_fst_snd)
qed

section \<open>What a flush commits\<close>

definition warehouse_rows :: "warehouse \<Rightarrow> row multiset" where
  "warehouse_rows wh = mset (concat (map (batch_rows \<circ> snd) (wh_samples wh)))"

definition warehouse_series :: "warehouse \<Rightarrow> series_row list" where
  "warehouse_series wh = concat (map series_batch_rows (wh_series wh))"

definition registered :: "(int, new_series_entry) btree \<Rightarrow> series_row list" where
  "registered new = map (\<lambda>(sid, e). (sid, nse_metric e, nse_labels e)) new"

lemma series_batch_rows_registered: "series_batch_rows (build_series_batch new) = registered new"
proof -
  let ?mb = "fold (\<lambda>(sid, e). mb_append_row (nse_labels e)) new \<lparr>mb_keys = [], mb_values = [], mb_offsets = [0]\<rparr>"
  have "mb_holds [] \<lparr>mb_keys = [], mb_values = [], mb_offsets = [0]\<rparr>"
    by (simp add: mb_holds_def)
  from mb_holds_fold [OF this, of new] have h: "mb_holds (map (nse_labels \<circ> snd) new) ?mb" by simp
  have "series_batch_rows (build_series_batch new) =
      map (\<lambda>i. (fst (new ! i), nse_metric (snd (new ! i)), nse_labels (snd (new ! i)))) [0..<length new]"
    using map_array_row_holds [OF h] by (simp add: series_batch_rows_def build_series_batch_def Let_def)
  also have "\<dots> = registered new"
    unfolding registered_def by (rule nth_equalityI) (simp_all add: case_prod_unfold)
  finally show ?thesis .
qed

text \<open>
  The series batch is lossless: reading the columns back row by row, labels through the map
  offsets, gives exactly the registered series, in order.
\<close>

theorem series_batch_roundtrip:
  "series_batch_rows (build_series_batch new) =
     map (\<lambda>(sid, e). (sid, nse_metric e, nse_labels e)) new"
  using series_batch_rows_registered by (simp add: registered_def)

definition day_batches :: "snapshot \<Rightarrow> (int \<times> samples_batch) list" where
  "day_batches snap = map (\<lambda>(day, by_series). (epoch_days day, build_samples_batch by_series)) (sn_by_day snap)"

lemma mset_day_batches:
  "mset (concat (map (batch_rows \<circ> snd) (day_batches snap))) = mset (day_rows (sn_by_day snap))"
proof -
  have "mset (concat (map (batch_rows \<circ> snd) (map (\<lambda>(day, m). (epoch_days day, build_samples_batch m)) dm))) =
      mset (day_rows dm)" for dm :: day_map
    by (induction dm) (auto simp: mset_build_samples_batch)
  then show ?thesis by (simp only: day_batches_def)
qed

lemma flush_samples_wh:
  "snd (flush_samples io snap wh) =
     (if io = Refused then wh else wh\<lparr>wh_samples := wh_samples wh @ day_batches snap\<rparr>)"
  "(\<exists>n. fst (flush_samples io snap wh) = Inr n) \<longleftrightarrow> (\<exists>n. io = Committed n)"
  by (cases io; simp add: flush_samples_def day_batches_def Let_def)+

lemma flush_series_wh:
  "snd (flush_series io snap wh) =
     (if io = Refused then wh else wh\<lparr>wh_series := wh_series wh @ [build_series_batch (sn_new_series snap)]\<rparr>)"
  "(\<exists>n. fst (flush_series io snap wh) = Inr n) \<longleftrightarrow> (\<exists>n. io = Committed n)"
  by (cases io; simp add: flush_series_def Let_def)+

text \<open>Whether the samples commit was acknowledged, or there was nothing to commit.\<close>

definition samples_acked :: "flush_io \<Rightarrow> snapshot \<Rightarrow> bool" where
  "samples_acked io snap \<longleftrightarrow> sn_by_day snap = [] \<or> (\<exists>n. fio_samples io = Committed n)"

definition series_acked :: "flush_io \<Rightarrow> snapshot \<Rightarrow> bool" where
  "series_acked io snap \<longleftrightarrow> sn_new_series snap = [] \<or> (\<exists>n. fio_series io = Committed n)"

lemma flush_rows:
  "warehouse_rows (snd (flush io snap wh)) =
     warehouse_rows wh + (if fio_samples io = Refused then {#} else mset (day_rows (sn_by_day snap)))"
proof -
  have w: "wh_samples (snd (flush io snap wh)) =
      wh_samples wh @ (if fio_samples io = Refused then [] else day_batches snap)"
    by (cases "fio_samples io"; cases "fio_series io")
      (simp_all add: flush_def flush_samples_def flush_series_def Let_def day_batches_def)
  show ?thesis
    using mset_day_batches [of snap] unfolding warehouse_rows_def w by simp
qed

lemma flush_series_rows:
  "warehouse_series (snd (flush io snap wh)) =
     warehouse_series wh @ (if samples_acked io snap \<and> fio_series io \<noteq> Refused then registered (sn_new_series snap) else [])"
proof -
  have w: "wh_series (snd (flush io snap wh)) = wh_series wh @
      (if samples_acked io snap \<and> fio_series io \<noteq> Refused \<and> sn_new_series snap \<noteq> []
       then [build_series_batch (sn_new_series snap)] else [])"
    by (cases "fio_samples io"; cases "fio_series io")
      (simp_all add: flush_def flush_samples_def flush_series_def Let_def samples_acked_def)
  have n: "registered [] = []" by (simp add: registered_def)
  show ?thesis
    unfolding warehouse_series_def w by (auto simp: series_batch_rows_registered n)
qed

lemma flush_result:
  "fst (flush io snap wh) =
     (if \<not> samples_acked io snap then Inl FlushSamples
      else if \<not> series_acked io snap then Inl FlushSeries
      else Inr \<lparr>fr_samples_files = (case fio_samples io of Committed n \<Rightarrow> if sn_by_day snap = [] then 0 else n | _ \<Rightarrow> 0),
                fr_samples_rows = sn_count snap, fr_series_rows = length (sn_new_series snap),
                fr_max_record_seq = sn_max_seq snap\<rparr>)"
  by (cases "fio_samples io"; cases "fio_series io")
    (simp_all add: flush_def flush_samples_def flush_series_def Let_def samples_acked_def series_acked_def)

lemma epoch_days_id: "- (2 ^ 31) \<le> day \<Longrightarrow> day < 2 ^ 31 \<Longrightarrow> epoch_days day = day"
  by (simp add: epoch_days_def)

lemma day_of_us_i64: "i64_ok ts \<Longrightarrow> - (2 ^ 31) \<le> day_of_us X ts \<and> day_of_us X ts < 2 ^ 31"
  by (auto simp: day_of_us_def Let_def i64_ok_def i64_min_def i64_max_def)

lemma day_rows_mem: "r \<in> set (day_rows m) \<longleftrightarrow>
    (\<exists>day sm. (day, sm) \<in> set m \<and> r \<in> set (series_rows sm))"
  by (auto simp: day_rows_def)

lemma set_build_samples_batch: "set (batch_rows (build_samples_batch m)) = set (series_rows m)"
  using arg_cong [OF mset_build_samples_batch [of m], of set_mset] by simp

lemma series_rows_mem: "(sid, ts, v) \<in> set (series_rows m) \<longleftrightarrow> (\<exists>pts. (sid, pts) \<in> set m \<and> (ts, v) \<in> set pts)"
  by (auto simp: series_rows_def)

text \<open>
  (C12) When both commits are acknowledged, a flush adds to the samples table exactly the rows of the
  snapshot and to the series table exactly its new series; every batch lies in the day partition of
  each of its timestamps and is sorted by series and time; the reported row counts are the numbers
  of rows added.
\<close>

theorem flush_persists:
  assumes "day_map_wf X (sn_by_day snap)" "sn_count snap = length (day_rows (sn_by_day snap))"
    "\<forall>(sid, ts, v) \<in> set (day_rows (sn_by_day snap)). i64_ok ts"
    "samples_acked io snap" "series_acked io snap"
  shows "let (res, wh') = flush io snap wh; batches = drop (length (wh_samples wh)) (wh_samples wh')
    in warehouse_rows wh' = warehouse_rows wh + mset (day_rows (sn_by_day snap)) \<and>
       warehouse_series wh' = warehouse_series wh @ registered (sn_new_series snap) \<and>
       (\<forall>(partition, b) \<in> set batches. sorted_wrt row_before (batch_rows b) \<and>
          (\<forall>(sid, ts, v) \<in> set (batch_rows b). day_of_us X ts = partition)) \<and>
       (case res of Inl e \<Rightarrow> False
        | Inr r \<Rightarrow> size (warehouse_rows wh') = size (warehouse_rows wh) + fr_samples_rows r \<and>
            length (warehouse_series wh') = length (warehouse_series wh) + fr_series_rows r \<and>
            fr_max_record_seq r = sn_max_seq snap)"
proof -
  let ?wh = "snd (flush io snap wh)"
  have rows: "warehouse_rows ?wh = warehouse_rows wh + mset (day_rows (sn_by_day snap))"
    using assms(4) by (auto simp: flush_rows samples_acked_def)
  have ser: "warehouse_series ?wh = warehouse_series wh @ registered (sn_new_series snap)"
    using assms(4,5) by (auto simp: flush_series_rows series_acked_def registered_def)
  have bs: "drop (length (wh_samples wh)) (wh_samples ?wh) = day_batches snap"
    using assms(4) by (cases "fio_samples io"; cases "fio_series io")
      (simp_all add: flush_def flush_samples_def flush_series_def Let_def samples_acked_def day_batches_def)
  have one: "sorted_wrt row_before (batch_rows (build_samples_batch sm)) \<and>
      (\<forall>(sid, ts, v) \<in> set (batch_rows (build_samples_batch sm)). day_of_us X ts = epoch_days day)"
    if mem: "(day, sm) \<in> set (sn_by_day snap)" for day sm
  proof -
    have wf: "day_entry_wf X day sm" using assms(1) mem by (auto simp: day_map_wf_def)
    have "day_of_us X ts = epoch_days day" if "(sid, ts, v) \<in> set (series_rows sm)" for sid ts v
    proof -
      have "(sid, ts, v) \<in> set (day_rows (sn_by_day snap))" using that mem by (auto simp: day_rows_mem)
      then have "i64_ok ts" using assms(3) by fastforce
      moreover have "day_of_us X ts = day"
        using that wf by (fastforce simp: series_rows_mem day_entry_wf_def points_wf_def)
      ultimately show ?thesis using day_of_us_i64 [of ts X] epoch_days_id [of day] by simp
    qed
    then show ?thesis
      using wf sorted_build_samples_batch [of sm] by (auto simp: set_build_samples_batch day_entry_wf_def)
  qed
  have batches: "\<forall>(partition, b) \<in> set (day_batches snap). sorted_wrt row_before (batch_rows b) \<and>
      (\<forall>(sid, ts, v) \<in> set (batch_rows b). day_of_us X ts = partition)"
    using one by (fastforce simp: day_batches_def)
  show ?thesis
    using rows ser batches assms(2,4,5) flush_result [of io snap wh] bs
    by (simp add: Let_def case_prod_unfold registered_def)
qed

definition demo_snapshot :: snapshot where
  "demo_snapshot = \<lparr>sn_by_day = [(0, [(7, [(1000001, Num 2), (1000000, Num 1)])])],
     sn_new_series = [(7, \<lparr>nse_series_id = 7, nse_metric = ''up'', nse_labels = [(''job'', ''api'')]\<rparr>)],
     sn_bytes = 64, sn_count = 2, sn_max_seq = 1\<rparr>"

definition demo_clock :: externals where
  "demo_clock = \<lparr>xxh3_64 = (\<lambda>_. 0), crc32 = (\<lambda>_. 0), json_of_samples = (\<lambda>_. None),
     samples_of_json = (\<lambda>_. None), chrono_ok = (\<lambda>_. True)\<rparr>"

theorem flush_persists_witness:
  "warehouse_rows (snd (flush \<lparr>fio_samples = Committed 1, fio_series = Committed 1\<rparr> demo_snapshot
     \<lparr>wh_samples = [], wh_series = []\<rparr>)) = {#(7, 1000000, Num 1), (7, 1000001, Num 2)#}"
proof -
  let ?io = "\<lparr>fio_samples = Committed 1, fio_series = Committed 1\<rparr>"
  have "day_map_wf demo_clock (sn_by_day demo_snapshot)"
    by (simp add: demo_snapshot_def day_map_wf_def day_entry_wf_def points_wf_def bt_wf_def
        day_of_us_def demo_clock_def)
  moreover have "sn_count demo_snapshot = length (day_rows (sn_by_day demo_snapshot))"
    "\<forall>(sid, ts, v) \<in> set (day_rows (sn_by_day demo_snapshot)). i64_ok ts"
    by (simp_all add: demo_snapshot_def i64_ok_def i64_min_def i64_max_def)
  moreover have "samples_acked ?io demo_snapshot" "series_acked ?io demo_snapshot"
    by (simp_all add: samples_acked_def series_acked_def)
  ultimately show ?thesis
    using flush_persists [of demo_clock demo_snapshot ?io "\<lparr>wh_samples = [], wh_series = []\<rparr>"]
    by (simp add: case_prod_unfold Let_def demo_snapshot_def warehouse_rows_def)
qed

end
