(* ===== verification/Wal.thy ===== *)
theory Wal
  imports Sample_Types
begin

text \<open>
  \<open>src/src/ingest/wal.rs\<close>: the append-only write-ahead log, down to its bytes. A directory is the
  list of its entries (name, contents) in \<open>read_dir\<close> order; an open file handle is the name of the
  file it was opened on. The frame codec, the name codec, the writer (open, append, rotate,
  truncate) and the replay iterator are translated operation by operation; the ways an append can
  fail on the disk (a short write, a failed \<open>fdatasync\<close>, a failed rotation) are an argument.
\<close>

section \<open>Files\<close>

type_synonym dir = "(string \<times> bytes) list"

definition fs_create :: "string \<Rightarrow> dir \<Rightarrow> dir" where
  "fs_create name d = (if name \<in> fst ` set d then d else d @ [(name, [])])"

text \<open>A write through the handle of a file that was unlinked changes no directory entry.\<close>

definition fs_append :: "string \<Rightarrow> bytes \<Rightarrow> dir \<Rightarrow> dir" where
  "fs_append name bs d = map (\<lambda>(n, c). if n = name then (n, c @ bs) else (n, c)) d"

definition fs_remove :: "string \<Rightarrow> dir \<Rightarrow> dir" where
  "fs_remove name d = filter (\<lambda>p. fst p \<noteq> name) d"

definition fs_read :: "dir \<Rightarrow> string \<Rightarrow> bytes" where
  "fs_read d name = (case map_of d name of None \<Rightarrow> [] | Some c \<Rightarrow> c)"

section \<open>File names\<close>

text \<open>\<open>str::parse::<u64>\<close>: an optional plus sign, then decimal digits, in range.\<close>

definition is_digit :: "char \<Rightarrow> bool" where
  "is_digit c \<longleftrightarrow> CHR ''0'' \<le> c \<and> c \<le> CHR ''9''"

definition digit_val :: "char \<Rightarrow> nat" where
  "digit_val c = of_char c - 48"

definition dec_value :: "string \<Rightarrow> nat" where
  "dec_value s = foldl (\<lambda>a c. 10 * a + digit_val c) 0 s"

definition parse_u64 :: "string \<Rightarrow> nat option" where
  "parse_u64 s =
     (let ds = (if s \<noteq> [] \<and> hd s = CHR ''+'' then tl s else s)
      in if ds \<noteq> [] \<and> list_all is_digit ds \<and> dec_value ds < 2 ^ 64 then Some (dec_value ds) else None)"

text \<open>\<open>Path::file_stem\<close> and \<open>Path::extension\<close>: split at the last dot, unless it leads the name.\<close>

definition split_extension :: "string \<Rightarrow> (string \<times> string) option" where
  "split_extension name =
     (let ext = takeWhile (\<lambda>c. c \<noteq> CHR ''.'') (rev name);
          stem = drop (Suc (length ext)) (rev name)
      in if CHR ''.'' \<in> set name \<and> stem \<noteq> [] then Some (rev stem, rev ext) else None)"

text \<open>\<open>format!("{:010}.log", file_seq)\<close>\<close>

definition pad10 :: "string \<Rightarrow> string" where
  "pad10 s = replicate (10 - length s) (CHR ''0'') @ s"

definition wal_path :: "nat \<Rightarrow> string" where
  "wal_path file_seq = pad10 (dec_of_nat file_seq) @ ''.log''"

datatype wal_error = WalIo | InvalidFileName string | PayloadTooLarge nat

fun list_entries :: "dir \<Rightarrow> wal_error + (nat \<times> string) list" where
  "list_entries [] = Inr []"
| "list_entries ((name, c) # rest) =
     (case split_extension name of
        None \<Rightarrow> list_entries rest
      | Some (stem, ext) \<Rightarrow>
          (if ext \<noteq> ''log'' then list_entries rest
           else case parse_u64 stem of
             None \<Rightarrow> Inl (InvalidFileName name)
           | Some sq \<Rightarrow> res_bind (list_entries rest) (\<lambda>out. Inr ((sq, name) # out))))"

definition list_wal_files :: "dir \<Rightarrow> wal_error + (nat \<times> string) list" where
  "list_wal_files d = res_bind (list_entries d) (\<lambda>out. Inr (sort_key fst out))"

section \<open>Frames\<close>

definition header_bytes :: nat where
  "header_bytes = 4 + 4 + 8"

record wal_record =
  wr_seq :: nat
  wr_payload :: bytes

definition frame_crc :: "externals \<Rightarrow> nat \<Rightarrow> bytes \<Rightarrow> 32 word" where
  "frame_crc X record_seq payload = crc32 X (le_bytes 8 record_seq @ payload)"

definition frame :: "externals \<Rightarrow> nat \<Rightarrow> bytes \<Rightarrow> bytes" where
  "frame X record_seq payload =
     le_bytes 4 (length payload) @ le_bytes 4 (unat (frame_crc X record_seq payload)) @
     le_bytes 8 record_seq @ payload"

text \<open>The largest record sequence number in a file; reading stops at the first short frame.\<close>

function scan_max_from :: "nat \<Rightarrow> bytes \<Rightarrow> nat" where
  "scan_max_from max_seq r =
     (if length r < header_bytes then max_seq
      else let payload_len = le_nat (take 4 r);
               record_seq = le_nat (take 8 (drop 8 r));
               rest = drop header_bytes r
           in if length rest < payload_len then max_seq
              else scan_max_from (if max_seq < record_seq then record_seq else max_seq)
                     (drop payload_len rest))"
  by pat_completeness auto
termination
  by (relation "measure (\<lambda>(m, r). length r)") (auto simp: header_bytes_def)

declare scan_max_from.simps [simp del]

definition scan_max_record_seq :: "bytes \<Rightarrow> nat" where
  "scan_max_record_seq r = scan_max_from 0 r"

section \<open>Writer\<close>

definition default_rotation_bytes :: nat where
  "default_rotation_bytes = 64 * 1024 * 1024"

text \<open>
  \<open>ww_file\<close> is the open handle, named by its file; \<open>ww_file_seq\<close> is what the writer believes
  the number of that file to be.
\<close>

record wal_writer =
  ww_file :: string
  ww_file_seq :: nat
  ww_file_bytes :: nat
  ww_next_record_seq :: nat
  ww_rotation_bytes :: nat

definition next_after :: "dir \<Rightarrow> (nat \<times> string) list \<Rightarrow> nat" where
  "next_after d entries =
     foldl (\<lambda>next_seq (s, path). let m = scan_max_record_seq (fs_read d path)
                           in if next_seq < u64_succ m then u64_succ m else next_seq) 1 entries"

definition open_with_rotation :: "nat \<Rightarrow> dir \<Rightarrow> wal_error + wal_writer \<times> dir" where
  "open_with_rotation rotation_bytes d =
     res_bind (list_wal_files d) (\<lambda>entries.
       let file_seq = (if entries = [] then 0 else fst (last entries));
           next_seq = next_after d entries;
           path = wal_path file_seq;
           d' = fs_create path d
       in Inr (\<lparr>ww_file = path, ww_file_seq = file_seq, ww_file_bytes = length (fs_read d' path),
                ww_next_record_seq = next_seq, ww_rotation_bytes = rotation_bytes\<rparr>, d'))"

definition wal_open :: "dir \<Rightarrow> wal_error + wal_writer \<times> dir" where
  "wal_open d = open_with_rotation default_rotation_bytes d"

text \<open>
  How the disk answers one append: everything succeeds, \<open>write_all\<close> fails after some bytes,
  \<open>sync_data\<close> fails, or the open in \<open>rotate\<close> fails.
\<close>

datatype append_io = IoOk | WriteFails nat | SyncFails | RotateFails

definition rotate :: "wal_writer \<Rightarrow> dir \<Rightarrow> wal_writer \<times> dir" where
  "rotate w d =
     (let file_seq = u64_succ (ww_file_seq w); path = wal_path file_seq
      in (w\<lparr>ww_file_seq := file_seq, ww_file := path, ww_file_bytes := 0\<rparr>, fs_create path d))"

definition wal_append :: "externals \<Rightarrow> append_io \<Rightarrow> bytes \<Rightarrow> wal_writer \<times> dir
    \<Rightarrow> (wal_error + nat) \<times> wal_writer \<times> dir" where
  "wal_append X io payload = (\<lambda>(w, d).
     if 2 ^ 32 - 1 < length payload then (Inl (PayloadTooLarge (length payload)), w, d)
     else
       let record_seq = ww_next_record_seq w;
           fr = frame X record_seq payload
       in case io of
            WriteFails n \<Rightarrow> (Inl WalIo, w, fs_append (ww_file w) (take n fr) d)
          | SyncFails \<Rightarrow> (Inl WalIo, w, fs_append (ww_file w) fr d)
          | _ \<Rightarrow>
            (let d' = fs_append (ww_file w) fr d;
                 w' = w\<lparr>ww_file_bytes := ww_file_bytes w + length fr,
                        ww_next_record_seq := u64_succ (ww_next_record_seq w)\<rparr>
             in if ww_rotation_bytes w' \<le> ww_file_bytes w'
                then if io = RotateFails
                     then (Inl WalIo, w'\<lparr>ww_file_seq := u64_succ (ww_file_seq w')\<rparr>, d')
                     else (Inr record_seq, rotate w' d')
                else (Inr record_seq, w', d')))"

fun truncate_files :: "nat \<Rightarrow> nat \<Rightarrow> (nat \<times> string) list \<Rightarrow> dir \<Rightarrow> dir" where
  "truncate_files current through [] d = d"
| "truncate_files current through ((file_seq, path) # rest) d =
     (if file_seq = current then truncate_files current through rest d
      else if scan_max_record_seq (fs_read d path) \<le> through
        then truncate_files current through rest (fs_remove path d)
      else truncate_files current through rest d)"

definition truncate_through :: "nat \<Rightarrow> wal_writer \<times> dir \<Rightarrow> (wal_error + unit) \<times> wal_writer \<times> dir" where
  "truncate_through through = (\<lambda>(w, d).
     case list_wal_files d of
       Inl e \<Rightarrow> (Inl e, w, d)
     | Inr entries \<Rightarrow> (Inr (), w, truncate_files (ww_file_seq w) through entries d))"

section \<open>Replay iterator\<close>

datatype wal_read_error = ReadIo | CrcMismatch nat | Truncated nat nat

datatype frame_result = FEof | FTorn nat nat | FBad nat bytes | FOk wal_record bytes

text \<open>One turn of the loop on an open reader: a short header counts as a clean end of file.\<close>

definition read_frame :: "externals \<Rightarrow> bytes \<Rightarrow> frame_result" where
  "read_frame X r =
     (if length r < header_bytes then FEof
      else let payload_len = le_nat (take 4 r);
               crc = le_nat (take 4 (drop 4 r));
               record_seq = le_nat (take 8 (drop 8 r));
               rest = drop header_bytes r
           in if length rest < payload_len then FTorn record_seq payload_len
              else let payload = take payload_len rest
                   in if unat (frame_crc X record_seq payload) \<noteq> crc
                      then FBad record_seq (drop payload_len rest)
                      else FOk \<lparr>wr_seq = record_seq, wr_payload = payload\<rparr> (drop payload_len rest))"

text \<open>The iterator: the files not opened yet, and the unread rest of the current one.\<close>

record wal_iter =
  wi_files :: "bytes list"
  wi_current :: "bytes option"

definition wal_iter_open :: "dir \<Rightarrow> wal_error + wal_iter" where
  "wal_iter_open d = res_bind (list_wal_files d)
     (\<lambda>entries. Inr \<lparr>wi_files = map (\<lambda>e. fs_read d (snd e)) entries, wi_current = None\<rparr>)"

function wal_next :: "externals \<Rightarrow> bytes list \<Rightarrow> bytes option
    \<Rightarrow> (wal_read_error + wal_record) option \<times> wal_iter" where
  "wal_next X [] None = (None, \<lparr>wi_files = [], wi_current = None\<rparr>)"
| "wal_next X (f # fs) None = wal_next X fs (Some f)"
| "wal_next X fs (Some r) =
     (case read_frame X r of
        FEof \<Rightarrow> wal_next X fs None
      | FTorn s l \<Rightarrow> (Some (Inl (Truncated s l)), \<lparr>wi_files = fs, wi_current = Some []\<rparr>)
      | FBad s rest \<Rightarrow> (Some (Inl (CrcMismatch s)), \<lparr>wi_files = fs, wi_current = Some rest\<rparr>)
      | FOk rec rest \<Rightarrow> (Some (Inr rec), \<lparr>wi_files = fs, wi_current = Some rest\<rparr>))"
  by pat_completeness auto
termination
  by (relation "measure (\<lambda>(X, fs, cur). 2 * length fs + (if cur = None then 0 else 1))") auto

text \<open>Unread bytes; every record the iterator yields consumes at least a header.\<close>

definition iter_size :: "bytes list \<Rightarrow> bytes option \<Rightarrow> nat" where
  "iter_size fs cur = sum_list (map length fs) + (case cur of None \<Rightarrow> 0 | Some r \<Rightarrow> length r)"

lemma read_frame_FOk_length: "read_frame X r = FOk rec rest \<Longrightarrow> length rest < length r"
  by (auto simp: read_frame_def Let_def header_bytes_def split: if_splits)

lemma wal_next_size:
  "wal_next X fs cur = (Some (Inr rec), it) \<Longrightarrow> iter_size (wi_files it) (wi_current it) < iter_size fs cur"
proof (induction X fs cur rule: wal_next.induct)
  case (1 X)
  then show ?case by simp
next
  case (2 X f fs)
  then show ?case by (simp add: iter_size_def)
next
  case (3 X fs r)
  then show ?case
    by (fastforce simp: iter_size_def dest: read_frame_FOk_length split: frame_result.splits)
qed

text \<open>\<open>for rec in iter\<close> with a break at the first error: the records read and what stopped it.\<close>

function read_all :: "externals \<Rightarrow> bytes list \<Rightarrow> bytes option \<Rightarrow> wal_record list \<times> wal_read_error option" where
  "read_all X fs cur =
     (case wal_next X fs cur of
        (None, it) \<Rightarrow> ([], None)
      | (Some (Inl e), it) \<Rightarrow> ([], Some e)
      | (Some (Inr rec), it) \<Rightarrow>
          (let (recs, err) = read_all X (wi_files it) (wi_current it) in (rec # recs, err)))"
  by pat_completeness auto
termination
  by (relation "measure (\<lambda>(X, fs, cur). iter_size fs cur)") (auto dest!: wal_next_size [OF sym])

declare read_all.simps [simp del]

end
