(* ===== verification/Wal_Format.thy ===== *)
theory Wal_Format
  imports Wal
begin

text \<open>
  The codecs of the write-ahead log: a frame reads back as the record it was built from, a run of
  frames reads back as the run of records, a torn last frame ends the replay after the records
  before it, and a log file name parses back to its number.
\<close>

section \<open>Frames\<close>

definition rec_ok :: "wal_record \<Rightarrow> bool" where
  "rec_ok r \<longleftrightarrow> wr_seq r < 2 ^ 64 \<and> length (wr_payload r) < 2 ^ 32"

definition enc :: "externals \<Rightarrow> wal_record list \<Rightarrow> bytes" where
  "enc X rs = concat (map (\<lambda>r. frame X (wr_seq r) (wr_payload r)) rs)"

lemma enc_simps [simp]:
  "enc X [] = []"
  "enc X (r # rs) = frame X (wr_seq r) (wr_payload r) @ enc X rs"
  "enc X (rs @ rs') = enc X rs @ enc X rs'"
  by (simp_all add: enc_def)

lemma length_frame: "length (frame X n p) = header_bytes + length p"
  by (simp add: frame_def header_bytes_def)

lemma frame_fields:
  assumes "n < 2 ^ 64" "length p < 2 ^ 32" "header_bytes \<le> k"
  shows "le_nat (take 4 (take k (frame X n p) @ rest)) = length p"
    and "le_nat (take 4 (drop 4 (take k (frame X n p) @ rest))) = unat (frame_crc X n p)"
    and "le_nat (take 8 (drop 8 (take k (frame X n p) @ rest))) = n"
    and "drop header_bytes (take k (frame X n p) @ rest) = take (k - header_bytes) p @ rest"
proof -
  have "unat (frame_crc X n p) < 2 ^ 32"
    using unsigned_less [of "frame_crc X n p", where 'a = nat] by simp
  then show "le_nat (take 4 (drop 4 (take k (frame X n p) @ rest))) = unat (frame_crc X n p)"
    using assms by (simp add: frame_def header_bytes_def take_append drop_append min_def)
  show "le_nat (take 4 (take k (frame X n p) @ rest)) = length p"
    using assms by (simp add: frame_def header_bytes_def take_append min_def)
  show "le_nat (take 8 (drop 8 (take k (frame X n p) @ rest))) = n"
    using assms by (simp add: frame_def header_bytes_def take_append drop_append min_def)
  show "drop header_bytes (take k (frame X n p) @ rest) = take (k - header_bytes) p @ rest"
    using assms by (simp add: frame_def header_bytes_def take_append drop_append min_def)
qed


text \<open>Both readers as functions of the header fields.\<close>

lemma read_frame_fields:
  assumes "header_bytes \<le> length r" "le_nat (take 4 r) = l" "le_nat (take 4 (drop 4 r)) = c"
    "le_nat (take 8 (drop 8 r)) = n" "drop header_bytes r = rest"
  shows "read_frame X r =
    (if length rest < l then FTorn n l
     else if unat (frame_crc X n (take l rest)) \<noteq> c then FBad n (drop l rest)
     else FOk \<lparr>wr_seq = n, wr_payload = take l rest\<rparr> (drop l rest))"
  unfolding read_frame_def Let_def assms(2-5) using assms(1) by simp

lemma scan_max_fields:
  assumes "header_bytes \<le> length r" "le_nat (take 4 r) = l"
    "le_nat (take 8 (drop 8 r)) = n" "drop header_bytes r = rest"
  shows "scan_max_from m r =
    (if length rest < l then m else scan_max_from (max m n) (drop l rest))"
proof -
  have "(if m < n then n else m) = max m n" by simp
  then show ?thesis
    unfolding scan_max_from.simps [of m r] Let_def assms(2-4) using assms(1) by simp
qed

lemma read_frame_frame:
  assumes "n < 2 ^ 64" "length p < 2 ^ 32"
  shows "read_frame X (frame X n p @ rest) = FOk \<lparr>wr_seq = n, wr_payload = p\<rparr> rest"
proof -
  have t: "take (header_bytes + length p) (frame X n p) = frame X n p"
    by (simp add: length_frame)
  have h: "header_bytes \<le> header_bytes + length p" "header_bytes \<le> length (frame X n p @ rest)"
    by (simp_all add: length_frame)
  show ?thesis
    by (subst read_frame_fields [OF h(2) frame_fields [OF assms h(1), of X rest, unfolded t]]) simp
qed

lemma read_frame_short: "length r < header_bytes \<Longrightarrow> read_frame X r = FEof"
  by (simp add: read_frame_def)

text \<open>A frame cut after \<open>k\<close> bytes and followed by fewer bytes than are missing.\<close>

lemma read_frame_torn:
  assumes "n < 2 ^ 64" "length p < 2 ^ 32" "header_bytes \<le> k" "k + length rest < length (frame X n p)"
  shows "read_frame X (take k (frame X n p) @ rest) = FTorn n (length p)"
proof -
  have h: "header_bytes \<le> length (take k (frame X n p) @ rest)"
    using assms by (simp add: length_frame)
  have lt: "length (take (k - header_bytes) p @ rest) < length p"
    using assms(3,4) by (simp add: length_frame)
  show ?thesis
    by (subst read_frame_fields [OF h frame_fields [OF assms(1-3), of X rest]]) (simp only: lt if_True)
qed

lemma scan_max_frame:
  assumes "n < 2 ^ 64" "length p < 2 ^ 32"
  shows "scan_max_from m (frame X n p @ rest) = scan_max_from (max m n) rest"
proof -
  have t: "take (header_bytes + length p) (frame X n p) = frame X n p"
    by (simp add: length_frame)
  have h: "header_bytes \<le> header_bytes + length p" "header_bytes \<le> length (frame X n p @ rest)"
    by (simp_all add: length_frame)
  note f = frame_fields [OF assms h(1), of X rest, unfolded t]
  show ?thesis
    by (subst scan_max_fields [OF h(2) f(1,3,4)]) simp
qed

lemma scan_max_short: "length r < header_bytes \<Longrightarrow> scan_max_from m r = m"
  by (subst scan_max_from.simps) simp

lemma scan_max_torn:
  assumes "n < 2 ^ 64" "length p < 2 ^ 32" "k + length rest < length (frame X n p)" "header_bytes \<le> k"
  shows "scan_max_from m (take k (frame X n p) @ rest) = m"
proof -
  have h: "header_bytes \<le> length (take k (frame X n p) @ rest)"
    using assms by (simp add: length_frame)
  note f = frame_fields [OF assms(1,2,4), of X rest]
  have lt: "length (take (k - header_bytes) p @ rest) < length p"
    using assms(3,4) by (simp add: length_frame)
  show ?thesis
    by (subst scan_max_fields [OF h f(1,3,4)]) (simp only: lt if_True)
qed

section \<open>Runs of frames\<close>

lemma read_all_None_Nil: "read_all X [] None = ([], None)"
  by (subst read_all.simps) simp

lemma read_all_None_Cons: "read_all X (f # fs) None = read_all X fs (Some f)"
  by (subst (1 2) read_all.simps) simp

lemma read_all_Eof: "read_frame X r = FEof \<Longrightarrow> read_all X fs (Some r) = read_all X fs None"
  by (subst (1 2) read_all.simps) simp

lemma read_all_FOk:
  "read_frame X r = FOk rec rest \<Longrightarrow>
     read_all X fs (Some r) =
       (rec # fst (read_all X fs (Some rest)), snd (read_all X fs (Some rest)))"
  by (subst read_all.simps) (simp add: case_prod_unfold Let_def)

lemma read_all_FTorn:
  "read_frame X r = FTorn s l \<Longrightarrow> read_all X fs (Some r) = ([], Some (Truncated s l))"
  by (subst read_all.simps) simp

lemma read_all_enc:
  assumes "list_all rec_ok rs"
  shows "read_all X fs (Some (enc X rs @ r)) =
     (rs @ fst (read_all X fs (Some r)), snd (read_all X fs (Some r)))"
  using assms
proof (induction rs)
  case Nil
  then show ?case by simp
next
  case (Cons a rs)
  then have "read_frame X (enc X (a # rs) @ r) = FOk a (enc X rs @ r)"
    using read_frame_frame [of "wr_seq a" "wr_payload a" X "enc X rs @ r"] by (simp add: rec_ok_def)
  from read_all_FOk [OF this, of fs] Cons show ?case by simp
qed

lemma read_all_files:
  assumes "\<forall>rs \<in> set rss. list_all rec_ok rs"
  shows "read_all X (map (enc X) rss) None = (concat rss, None)"
  using assms
proof (induction rss)
  case Nil
  then show ?case by (simp add: read_all_None_Nil)
next
  case (Cons rs rss)
  have "read_all X (map (enc X) rss) (Some []) = read_all X (map (enc X) rss) None"
    by (rule read_all_Eof) (simp add: read_frame_short header_bytes_def)
  with Cons read_all_enc [of rs X "map (enc X) rss" "[]"] show ?case
    by (simp add: read_all_None_Cons)
qed

lemma scan_max_enc:
  assumes "list_all rec_ok rs"
  shows "scan_max_from m (enc X rs @ r) = scan_max_from (foldl max m (map wr_seq rs)) r"
  using assms
proof (induction rs arbitrary: m)
  case Nil
  then show ?case by simp
next
  case (Cons a rs)
  then show ?case
    using scan_max_frame [of "wr_seq a" "wr_payload a" m X "enc X rs @ r"] by (simp add: rec_ok_def)
qed

lemma foldl_max_le_iff: "foldl max (m::nat) ns \<le> b \<longleftrightarrow> m \<le> b \<and> (\<forall>n \<in> set ns. n \<le> b)"
  by (induction ns arbitrary: m) auto

lemma scan_max_record_seq_enc:
  assumes "list_all rec_ok rs"
  shows "scan_max_record_seq (enc X rs) \<le> b \<longleftrightarrow> (\<forall>r \<in> set rs. wr_seq r \<le> b)"
  using scan_max_enc [OF assms, of 0 X "[]"]
  by (simp add: scan_max_record_seq_def scan_max_short header_bytes_def foldl_max_le_iff)

section \<open>File names\<close>

lemma digit_char:
  assumes "n < 10"
  shows "is_digit (char_of (48 + n))" "digit_val (char_of (48 + n)) = n"
proof -
  have "(of_char (char_of (48 + n) :: char) :: nat) = 48 + n"
    using assms by (simp only: of_char_of) simp
  then show "is_digit (char_of (48 + n))" "digit_val (char_of (48 + n)) = n"
    using assms unfolding is_digit_def digit_val_def less_eq_char_def by simp_all
qed

lemma dec_value_append: "dec_value (s @ t) = foldl (\<lambda>a c. 10 * a + digit_val c) (dec_value s) t"
  by (simp add: dec_value_def)

lemma dec_of_nat_digits: "list_all is_digit (dec_of_nat n) \<and> dec_of_nat n \<noteq> [] \<and> dec_value (dec_of_nat n) = n"
proof (induction n rule: dec_of_nat.induct)
  case (1 n)
  show ?case
  proof (cases "n < 10")
    case True
    then show ?thesis
      by (subst (1 2 3) dec_of_nat.simps) (simp add: digit_char dec_value_def)
  next
    case False
    have "n mod 10 < 10" by simp
    then show ?thesis
      using 1 False digit_char [of "n mod 10"]
      by (subst (1 2 3) dec_of_nat.simps) (simp add: dec_value_append)
  qed
qed

lemma dec_value_zeros: "dec_value (replicate k (CHR ''0'') @ s) = dec_value s"
proof (induction k)
  case (Suc k)
  have "digit_val (CHR ''0'') = 0" by (simp add: digit_val_def)
  with Suc show ?case by (simp add: dec_value_def)
qed simp

lemma is_digit_neq: "is_digit c \<Longrightarrow> c \<noteq> CHR ''+'' \<and> c \<noteq> CHR ''.''"
  by (auto simp: is_digit_def less_eq_char_def)

lemma parse_digits:
  assumes "list_all is_digit ds" "ds \<noteq> []" "dec_value ds < 2 ^ 64"
  shows "parse_u64 ds = Some (dec_value ds)"
proof -
  have "hd ds \<noteq> CHR ''+''"
    using assms is_digit_neq by (cases ds) auto
  with assms show ?thesis by (simp add: parse_u64_def)
qed

lemma pad10_digits: "list_all is_digit (pad10 (dec_of_nat n))" "pad10 (dec_of_nat n) \<noteq> []"
  "dec_value (pad10 (dec_of_nat n)) = n"
  using dec_of_nat_digits [of n]
  by (auto simp: pad10_def dec_value_zeros list_all_iff is_digit_def less_eq_char_def)

lemma split_extension_dot:
  assumes "s \<noteq> []" "CHR ''.'' \<notin> set e"
  shows "split_extension (s @ CHR ''.'' # e) = Some (s, e)"
proof -
  have "takeWhile (\<lambda>c. c \<noteq> CHR ''.'') (rev e @ CHR ''.'' # rev s) = rev e"
    using assms(2) by (subst takeWhile_append2) auto
  then show ?thesis using assms by (simp add: split_extension_def Let_def)
qed

lemma split_wal_path: "split_extension (wal_path n) = Some (pad10 (dec_of_nat n), ''log'')"
  using split_extension_dot [of "pad10 (dec_of_nat n)" "''log''"] pad10_digits
  by (simp add: wal_path_def)

lemma parse_wal_stem: "n < 2 ^ 64 \<Longrightarrow> parse_u64 (pad10 (dec_of_nat n)) = Some n"
  using parse_digits [of "pad10 (dec_of_nat n)"] pad10_digits by simp

lemma wal_path_inj: "m < 2 ^ 64 \<Longrightarrow> n < 2 ^ 64 \<Longrightarrow> wal_path m = wal_path n \<longleftrightarrow> m = n"
  using split_wal_path [of m] split_wal_path [of n] parse_wal_stem [of m] parse_wal_stem [of n]
  by auto

end
