(* ===== verification/Wal_Log.thy ===== *)
theory Wal_Log
  imports Wal_Format
begin

text \<open>
  The write-ahead log as the rest of the program uses it: a sequence of numbered records. The
  invariant ties the directory's bytes to that sequence; open, append (with and without a disk
  failure), rotation and truncation are shown to act on the sequence as their callers expect.
  The contract \<open>record_log\<close> collects what the service relies on and is interpreted on the
  byte-level writer.
\<close>

section \<open>The shape of a log directory\<close>

text \<open>
  All files but the last hold whole frames; the last one (number \<open>s\<close>) holds the frames of \<open>rs\<close>
  and then the bytes \<open>tail\<close> of an append that did not complete.
\<close>

definition entry :: "externals \<Rightarrow> nat \<times> wal_record list \<Rightarrow> string \<times> bytes" where
  "entry X p = (wal_path (fst p), enc X (snd p))"

definition wal_shape :: "externals \<Rightarrow> dir \<Rightarrow> (nat \<times> wal_record list) list \<Rightarrow> nat \<Rightarrow> wal_record list
    \<Rightarrow> bytes \<Rightarrow> bool" where
  "wal_shape X d fs s rs tail \<longleftrightarrow>
     distinct (map fst d) \<and>
     set d = entry X ` set fs \<union> {(wal_path s, enc X rs @ tail)} \<and>
     sorted_wrt (<) (map fst fs @ [s]) \<and> s < 2 ^ 64 \<and>
     (\<forall>p \<in> set fs. list_all rec_ok (snd p)) \<and> list_all rec_ok rs"

lemma shape_seq_less: "wal_shape X d fs s rs tail \<Longrightarrow> p \<in> set fs \<Longrightarrow> fst p < s \<and> fst p < 2 ^ 64"
  by (fastforce simp: wal_shape_def sorted_wrt_append)

lemma shape_names: "wal_shape X d fs s rs tail \<Longrightarrow> p \<in> set fs \<Longrightarrow> wal_path (fst p) \<noteq> wal_path s"
  using shape_seq_less [of X d fs s rs tail p] wal_path_inj [of "fst p" s] by (auto simp: wal_shape_def)

lemma shape_dir_names:
  assumes "wal_shape X d fs s rs tail"
  shows "fst ` set d = wal_path ` set (map fst fs @ [s])"
proof -
  have "set d = entry X ` set fs \<union> {(wal_path s, enc X rs @ tail)}"
    using assms by (simp add: wal_shape_def)
  then show ?thesis by (simp add: entry_def image_image)
qed

lemma shape_seqs: "wal_shape X d fs s rs tail \<Longrightarrow> n \<in> set (map fst fs @ [s]) \<Longrightarrow> n < 2 ^ 64"
  using shape_seq_less [of X d fs s rs tail] by (auto simp: wal_shape_def)

lemma shape_read:
  assumes "wal_shape X d fs s rs tail"
  shows "fs_read d (wal_path s) = enc X rs @ tail"
    and "p \<in> set fs \<Longrightarrow> fs_read d (wal_path (fst p)) = enc X (snd p)"
proof -
  have m: "map_of d n = Some c" if "(n, c) \<in> set d" for n c
    using that assms by (simp add: wal_shape_def)
  have "(wal_path s, enc X rs @ tail) \<in> set d"
    using assms by (simp add: wal_shape_def)
  from m [OF this] show "fs_read d (wal_path s) = enc X rs @ tail" by (simp add: fs_read_def)
  assume "p \<in> set fs"
  then have "(wal_path (fst p), enc X (snd p)) \<in> set d"
    using assms by (auto simp: wal_shape_def entry_def)
  from m [OF this] show "fs_read d (wal_path (fst p)) = enc X (snd p)" by (simp add: fs_read_def)
qed

section \<open>Listing\<close>

definition file_no :: "string \<Rightarrow> nat" where
  "file_no name = the (parse_u64 (fst (the (split_extension name))))"

lemma file_no_wal_path: "n < 2 ^ 64 \<Longrightarrow> file_no (wal_path n) = n"
  by (simp add: file_no_def split_wal_path parse_wal_stem)

lemma list_entries_logs:
  "\<forall>p \<in> set d. \<exists>n < 2 ^ 64. fst p = wal_path n \<Longrightarrow>
     list_entries d = Inr (map (\<lambda>p. (file_no (fst p), fst p)) d)"
proof (induction d rule: list_entries.induct)
  case 1
  then show ?case by simp
next
  case (2 name c rest)
  then obtain n where n: "n < 2 ^ 64" "name = wal_path n" by auto
  then have "list_entries rest = Inr (map (\<lambda>p. (file_no (fst p), fst p)) rest)"
    using 2 by (auto simp: split_wal_path parse_wal_stem)
  with n show ?case
    by (simp add: split_wal_path parse_wal_stem file_no_wal_path)
qed

lemma sort_key_fst_unique:
  assumes "set xs = set ys" "distinct (map fst xs)" "sorted_wrt (<) (map fst ys)"
  shows "sort_key fst xs = ys"
proof -
  have d: "distinct (map fst ys)" "sorted (map fst ys)"
    using assms(3) by (auto simp: strict_sorted_iff)
  have "distinct (map fst (sort_key fst xs))"
    using assms(2) by (simp add: distinct_map distinct_sort)
  moreover have "inj_on fst (set (sort_key fst xs) \<union> set ys)"
    using assms(1) d by (simp add: distinct_map)
  ultimately show ?thesis
    using assms d by (intro map_sorted_distinct_set_unique [of fst]) auto
qed

definition listing :: "(nat \<times> wal_record list) list \<Rightarrow> nat \<Rightarrow> (nat \<times> string) list" where
  "listing fs s = map (\<lambda>n. (n, wal_path n)) (map fst fs @ [s])"

lemma list_wal_files_shape:
  assumes "wal_shape X d fs s rs tail"
  shows "list_wal_files d = Inr (listing fs s)"
proof -
  note fd = shape_dir_names [OF assms]
  have names: "\<forall>p \<in> set d. \<exists>n < 2 ^ 64. fst p = wal_path n"
  proof
    fix p assume "p \<in> set d"
    then have "fst p \<in> wal_path ` set (map fst fs @ [s])" unfolding fd [symmetric] by simp
    then show "\<exists>n < 2 ^ 64. fst p = wal_path n" using shape_seqs [OF assms] by blast
  qed
  let ?l = "map (\<lambda>p. (file_no (fst p), fst p)) d"
  have fn: "file_no (wal_path n) = n" if "n \<in> set (map fst fs @ [s])" for n
    using shape_seqs [OF assms that] by (rule file_no_wal_path)
  have "set ?l = (\<lambda>n. (file_no n, n)) ` fst ` set d" by (simp add: image_image)
  also have "\<dots> = (\<lambda>n. (file_no (wal_path n), wal_path n)) ` set (map fst fs @ [s])"
    by (simp only: fd image_image)
  also have "\<dots> = set (listing fs s)"
    unfolding listing_def set_map by (rule image_cong) (simp_all only: fn)
  finally have eq: "set ?l = set (listing fs s)" .
  have fl: "map fst (listing fs s) = map fst fs @ [s]" by (simp add: listing_def comp_def)
  have "inj_on file_no (fst ` set d)"
    unfolding fd by (rule inj_onI) (metis fn imageE)
  moreover have "distinct (map fst d)" using assms by (simp only: wal_shape_def)
  ultimately have "distinct (map file_no (map fst d))"
    by (simp only: distinct_map [of file_no "map fst d"] set_map simp_thms)
  then have "distinct (map fst ?l)" by (simp only: map_map comp_def fst_conv)
  moreover have "sorted_wrt (<) (map fst (listing fs s))"
    unfolding fl using assms by (simp only: wal_shape_def)
  ultimately have "sort_key fst ?l = listing fs s"
    by (rule sort_key_fst_unique [OF eq])
  then show ?thesis
    by (simp add: list_wal_files_def list_entries_logs [OF names])
qed

section \<open>Replay\<close>

text \<open>What a replay of the directory reads: the records up to the first error, and the error.\<close>

definition replay :: "externals \<Rightarrow> dir \<Rightarrow> wal_record list \<times> wal_read_error option" where
  "replay X d = (case wal_iter_open d of
     Inl e \<Rightarrow> ([], Some ReadIo) | Inr it \<Rightarrow> read_all X (wi_files it) (wi_current it))"

lemma read_all_files_tail:
  assumes "\<forall>rs \<in> set rss. list_all rec_ok rs" "list_all rec_ok rs"
  shows "read_all X (map (enc X) rss @ [enc X rs @ tail]) None =
    (concat rss @ rs @ fst (read_all X [] (Some tail)), snd (read_all X [] (Some tail)))"
  using assms(1)
proof (induction rss)
  case Nil
  then show ?case using assms(2) by (simp add: read_all_None_Cons read_all_enc)
next
  case (Cons a rss)
  let ?fs = "map (enc X) rss @ [enc X rs @ tail]"
  have "read_all X ?fs (Some []) = read_all X ?fs None"
    by (rule read_all_Eof) (simp add: read_frame_short header_bytes_def)
  with Cons read_all_enc [of a X ?fs "[]"] show ?case
    by (simp add: read_all_None_Cons)
qed

lemma replay_shape:
  assumes "wal_shape X d fs s rs tail"
  shows "replay X d = (concat (map snd fs) @ rs @ fst (read_all X [] (Some tail)), snd (read_all X [] (Some tail)))"
proof -
  have "map (\<lambda>e. fs_read d (snd e)) (listing fs s) = map (enc X) (map snd fs) @ [enc X rs @ tail]"
    using shape_read [OF assms] by (auto simp: listing_def)
  then have "replay X d = read_all X (map (enc X) (map snd fs) @ [enc X rs @ tail]) None"
    by (simp add: replay_def wal_iter_open_def list_wal_files_shape [OF assms])
  moreover have "\<forall>rs \<in> set (map snd fs). list_all rec_ok rs" "list_all rec_ok rs"
    using assms by (auto simp: wal_shape_def)
  ultimately show ?thesis by (simp only: read_all_files_tail)
qed

lemma read_all_empty: "length tail < header_bytes \<Longrightarrow> read_all X [] (Some tail) = ([], None)"
  by (simp add: read_all_Eof read_frame_short read_all_None_Nil)

section \<open>Directory operations on the shape\<close>

lemma set_fs_append:
  assumes "set d = E \<union> {(name, c)}" "\<forall>e \<in> E. fst e \<noteq> name"
  shows "set (fs_append name bs d) = E \<union> {(name, c @ bs)}"
proof -
  let ?g = "\<lambda>(n, c). if n = name then (n, c @ bs) else (n, c)"
  have "?g ` E = (\<lambda>e. e) ` E"
    using assms(2) by (intro image_cong) auto
  then show ?thesis
    by (simp add: fs_append_def assms(1))
qed

lemma map_fst_fs_append: "map fst (fs_append name bs d) = map fst d"
  by (induction d) (auto simp: fs_append_def)

lemma shape_append:
  assumes "wal_shape X d fs s rs tail"
  shows "wal_shape X (fs_append (wal_path s) bs d) fs s rs (tail @ bs)"
proof -
  have "set d = entry X ` set fs \<union> {(wal_path s, enc X rs @ tail)}"
    using assms by (simp only: wal_shape_def)
  moreover have "\<forall>e \<in> entry X ` set fs. fst e \<noteq> wal_path s"
    using shape_names [OF assms] by (simp add: entry_def)
  ultimately have "set (fs_append (wal_path s) bs d) =
      entry X ` set fs \<union> {(wal_path s, (enc X rs @ tail) @ bs)}"
    by (rule set_fs_append)
  then show ?thesis
    using assms unfolding wal_shape_def map_fst_fs_append append_assoc by blast
qed

lemma shape_absorb:
  assumes "wal_shape X d fs s rs (frame X n p)" "n < 2 ^ 64" "length p < 2 ^ 32"
  shows "wal_shape X d fs s (rs @ [\<lparr>wr_seq = n, wr_payload = p\<rparr>]) []"
  using assms by (auto simp: wal_shape_def rec_ok_def)

lemma shape_create:
  assumes "wal_shape X d fs s rs []" "s < n" "n < 2 ^ 64"
  shows "wal_shape X (fs_create (wal_path n) d) (fs @ [(s, rs)]) n [] []"
proof -
  have lt: "\<forall>m \<in> set (map fst fs @ [s]). m < n"
    using assms(2) shape_seq_less [OF assms(1)] less_trans by fastforce
  have "wal_path n \<notin> fst ` set d"
    unfolding shape_dir_names [OF assms(1)]
    using lt shape_seqs [OF assms(1)] wal_path_inj [OF assms(3)] by blast
  then have d: "fs_create (wal_path n) d = d @ [(wal_path n, [])]" "wal_path n \<notin> fst ` set d"
    by (simp_all add: fs_create_def)
  have "sorted_wrt (<) (map fst (fs @ [(s, rs)]) @ [n])"
    using assms(1) lt by (simp add: wal_shape_def sorted_wrt_append)
  moreover have "set (d @ [(wal_path n, [])]) = entry X ` set (fs @ [(s, rs)]) \<union> {(wal_path n, enc X [] @ [])}"
    using assms(1) by (simp add: wal_shape_def entry_def)
  moreover have "distinct (map fst (d @ [(wal_path n, [])]))"
    using assms(1) d(2) by (simp add: wal_shape_def)
  moreover have "\<forall>p \<in> set (fs @ [(s, rs)]). list_all rec_ok (snd p)"
    using assms(1) by (simp add: wal_shape_def)
  ultimately show ?thesis
    unfolding d(1) wal_shape_def using assms(3) by simp
qed

lemma shape_create_same:
  assumes "wal_shape X d fs s rs tail"
  shows "fs_create (wal_path s) d = d"
  using shape_dir_names [OF assms] by (simp add: fs_create_def)

lemma remove_image:
  assumes "b \<noteq> k" "fst z = b" "\<And>q. fst (f q) = g q"
  shows "{e \<in> f ` A \<union> {z}. fst e \<noteq> k} = f ` {q \<in> A. g q \<noteq> k} \<union> {z}"
proof -
  have "fst z \<noteq> k" using assms(1,2) by simp
  then show ?thesis using assms(3) by fastforce
qed

lemma shape_remove:
  assumes "wal_shape X d fs s rs tail" "p \<in> set fs"
  shows "wal_shape X (fs_remove (wal_path (fst p)) d) (filter (\<lambda>q. fst q \<noteq> fst p) fs) s rs tail"
proof -
  let ?fs = "filter (\<lambda>q. fst q \<noteq> fst p) fs"
  have inj: "wal_path (fst q) \<noteq> wal_path (fst p) \<longleftrightarrow> fst q \<noteq> fst p" if "q \<in> set fs" for q
    using shape_seq_less [OF assms(1) that] shape_seq_less [OF assms] wal_path_inj by blast
  have "set (fs_remove (wal_path (fst p)) d) = {e \<in> set d. fst e \<noteq> wal_path (fst p)}"
    by (simp add: fs_remove_def)
  also have "set d = entry X ` set fs \<union> {(wal_path s, enc X rs @ tail)}"
    using assms(1) by (simp only: wal_shape_def)
  also have "{e \<in> entry X ` set fs \<union> {(wal_path s, enc X rs @ tail)}. fst e \<noteq> wal_path (fst p)} =
      entry X ` {q \<in> set fs. wal_path (fst q) \<noteq> wal_path (fst p)} \<union> {(wal_path s, enc X rs @ tail)}"
    using shape_names [OF assms] by (intro remove_image [of "wal_path s"]) (auto simp only: entry_def fst_conv)
  also have "{q \<in> set fs. wal_path (fst q) \<noteq> wal_path (fst p)} = set ?fs"
    using inj by auto
  finally have st: "set (fs_remove (wal_path (fst p)) d) =
      entry X ` set ?fs \<union> {(wal_path s, enc X rs @ tail)}" .
  have "distinct (map fst d)" "bt_wf fs" and lt: "\<forall>n \<in> fst ` set fs. n < s"
    using assms(1) by (simp_all add: wal_shape_def sorted_wrt_append bt_wf_def)
  then have "distinct (map fst (fs_remove (wal_path (fst p)) d))" "bt_wf ?fs"
    by (simp_all add: fs_remove_def distinct_map_filter bt_wf_filter)
  moreover have "\<forall>n \<in> fst ` set ?fs. n < s" using lt by auto
  moreover have "\<forall>q \<in> set ?fs. list_all rec_ok (snd q)" "list_all rec_ok rs" "s < 2 ^ 64"
    using assms(1) by (simp_all add: wal_shape_def)
  ultimately show ?thesis using st by (simp add: wal_shape_def sorted_wrt_append bt_wf_def)
qed

text \<open>Truncation drops exactly the old files whose records are all at or below the bound.\<close>

definition flushed_file :: "nat \<Rightarrow> nat \<times> wal_record list \<Rightarrow> bool" where
  "flushed_file k p \<longleftrightarrow> (\<forall>r \<in> set (snd p). wr_seq r \<le> k)"

lemma shape_same:
  assumes "wal_shape X d fs s rs tail" "p \<in> set fs" "q \<in> set fs" "fst q = fst p"
  shows "q = p"
proof -
  have "distinct (map fst fs)" using assms(1) by (auto simp: wal_shape_def sorted_wrt_append strict_sorted_iff)
  with assms(2-4) show ?thesis by (metis distinct_map inj_on_eq_iff)
qed

lemma truncate_files_shape:
  assumes "wal_shape X d fs s rs tail" "set xs \<subseteq> set fs" "distinct (map fst xs)"
  shows "wal_shape X (truncate_files s k (map (\<lambda>p. (fst p, wal_path (fst p))) xs) d)
    (filter (\<lambda>p. \<not> (fst p \<in> fst ` set xs \<and> flushed_file k p)) fs) s rs tail"
  using assms
proof (induction xs arbitrary: d fs)
  case Nil
  then show ?case by simp
next
  case (Cons p xs)
  have p: "p \<in> set fs" "fst p \<noteq> s" using Cons.prems shape_seq_less [of X d fs s rs tail p] by auto
  note same = shape_same [OF Cons.prems(1) p(1)]
  have sc: "scan_max_record_seq (fs_read d (wal_path (fst p))) \<le> k \<longleftrightarrow> flushed_file k p"
    using shape_read(2) [OF Cons.prems(1) p(1)] Cons.prems(1) p(1)
    by (simp add: scan_max_record_seq_enc flushed_file_def wal_shape_def)
  show ?case
  proof (cases "flushed_file k p")
    case True
    let ?fs = "filter (\<lambda>q. fst q \<noteq> fst p) fs"
    have sub: "set xs \<subseteq> set ?fs" using Cons.prems(2,3) by (auto simp: image_iff)
    have "filter (\<lambda>q. \<not> (fst q \<in> fst ` set xs \<and> flushed_file k q)) ?fs =
        filter (\<lambda>q. \<not> (fst q \<in> fst ` set (p # xs) \<and> flushed_file k q)) fs"
      using True same unfolding filter_filter by (intro filter_cong) auto
    moreover have "truncate_files s k (map (\<lambda>p. (fst p, wal_path (fst p))) (p # xs)) d =
        truncate_files s k (map (\<lambda>p. (fst p, wal_path (fst p))) xs) (fs_remove (wal_path (fst p)) d)"
      using True sc p(2) by simp
    moreover have "distinct (map fst xs)" using Cons.prems(3) by simp
    ultimately show ?thesis
      using Cons.IH [OF shape_remove [OF Cons.prems(1) p(1)] sub] by (simp only:)
  next
    case False
    have "filter (\<lambda>q. \<not> (fst q \<in> fst ` set xs \<and> flushed_file k q)) fs =
        filter (\<lambda>q. \<not> (fst q \<in> fst ` set (p # xs) \<and> flushed_file k q)) fs"
      using False same by (intro filter_cong) auto
    with Cons.IH [OF Cons.prems(1)] Cons.prems False sc p(2) show ?thesis by simp
  qed
qed

end
