(* ===== verification/Wal_Contract.thy ===== *)
theory Wal_Contract
  imports Wal_Log
begin

text \<open>
  What the rest of the program relies on in the write-ahead log. A writer in order represents a
  sequence of numbered records; append adds one record at the end, truncation only drops records at
  or below its bound, a reopened directory continues the sequence. The contract is the locale
  \<open>record_log\<close>, interpreted on the byte-level writer of \<open>Wal\<close>. The last section states what an
  append that failed half way does to the appends after it.
\<close>

section \<open>Representation of a sequence of records\<close>

definition log_of :: "(nat \<times> wal_record list) list \<Rightarrow> wal_record list \<Rightarrow> wal_record list" where
  "log_of fs rs = concat (map snd fs) @ rs"

definition wal_rep :: "externals \<Rightarrow> wal_writer \<times> dir \<Rightarrow> (nat \<times> wal_record list) list
    \<Rightarrow> wal_record list \<Rightarrow> bytes \<Rightarrow> bool" where
  "wal_rep X s fs rs tail \<longleftrightarrow>
     wal_shape X (snd s) fs (ww_file_seq (fst s)) rs tail \<and>
     ww_file (fst s) = wal_path (ww_file_seq (fst s)) \<and>
     sorted_wrt (<) (map wr_seq (log_of fs rs)) \<and>
     (\<forall>r \<in> set (log_of fs rs). wr_seq r < ww_next_record_seq (fst s))"

definition wal_good :: "externals \<Rightarrow> wal_writer \<times> dir \<Rightarrow> bool" where
  "wal_good X s \<longleftrightarrow> (\<exists>fs rs. wal_rep X s fs rs [])"

definition wal_recs :: "externals \<Rightarrow> wal_writer \<times> dir \<Rightarrow> wal_record list" where
  "wal_recs X s = fst (replay X (snd s))"

text \<open>Neither counter is at its last value, and the payload length fits its header field.\<close>

definition wal_room :: "wal_writer \<times> dir \<Rightarrow> bytes \<Rightarrow> bool" where
  "wal_room s p \<longleftrightarrow> ww_next_record_seq (fst s) + 1 < 2 ^ 64 \<and> ww_file_seq (fst s) + 1 < 2 ^ 64 \<and>
     length p < 2 ^ 32"

lemma rep_replay:
  assumes "wal_rep X s fs rs []"
  shows "replay X (snd s) = (log_of fs rs, None)"
  using assms replay_shape [of X "snd s" fs "ww_file_seq (fst s)" rs "[]"]
  by (simp add: wal_rep_def log_of_def read_all_empty header_bytes_def)

lemma rep_recs: "wal_rep X s fs rs [] \<Longrightarrow> wal_recs X s = log_of fs rs"
  by (simp add: wal_recs_def rep_replay)

lemma good_replay: "wal_good X s \<Longrightarrow> replay X (snd s) = (wal_recs X s, None)"
  by (auto simp: wal_good_def rep_replay rep_recs)

section \<open>Append\<close>

text \<open>The files after an append: a full file moves to the closed ones.\<close>

definition append_files :: "wal_writer \<Rightarrow> (nat \<times> wal_record list) list \<Rightarrow> wal_record list \<Rightarrow> bytes
    \<Rightarrow> (nat \<times> wal_record list) list \<times> wal_record list" where
  "append_files w fs rs p =
     (let rs' = rs @ [\<lparr>wr_seq = ww_next_record_seq w, wr_payload = p\<rparr>]
      in if ww_rotation_bytes w \<le> ww_file_bytes w + (header_bytes + length p)
         then (fs @ [(ww_file_seq w, rs')], []) else (fs, rs'))"

text \<open>The log with the record appended, before the file is rotated.\<close>

abbreviation "appended X w p d \<equiv> fs_append (ww_file w) (frame X (ww_next_record_seq w) p) d"
abbreviation "new_record w p \<equiv> \<lparr>wr_seq = ww_next_record_seq w, wr_payload = p\<rparr>"

lemma appended_log:
  assumes "wal_rep X (w, d) fs rs []" "wal_room (w, d) p"
  shows "wal_shape X (appended X w p d) fs (ww_file_seq w) (rs @ [new_record w p]) []"
    and "sorted_wrt (<) (map wr_seq (log_of fs rs @ [new_record w p]))"
    and "\<forall>r \<in> set (log_of fs rs @ [new_record w p]). wr_seq r < ww_next_record_seq w + 1"
proof -
  have rep: "ww_file w = wal_path (ww_file_seq w)" "wal_shape X d fs (ww_file_seq w) rs []"
    "sorted_wrt (<) (map wr_seq (log_of fs rs))" "\<forall>r \<in> set (log_of fs rs). wr_seq r < ww_next_record_seq w"
    using assms(1) by (simp_all add: wal_rep_def)
  have "ww_next_record_seq w + 1 < 2 ^ 64" "length p < 2 ^ 32" using assms(2) by (simp_all add: wal_room_def)
  then show "wal_shape X (appended X w p d) fs (ww_file_seq w) (rs @ [new_record w p]) []"
    using shape_absorb [of X _ fs "ww_file_seq w" rs "ww_next_record_seq w" p]
      shape_append [OF rep(2), of "frame X (ww_next_record_seq w) p"] by (simp add: rep(1))
  show "sorted_wrt (<) (map wr_seq (log_of fs rs @ [new_record w p]))" using rep(3,4) by (simp add: sorted_wrt_append)
  show "\<forall>r \<in> set (log_of fs rs @ [new_record w p]). wr_seq r < ww_next_record_seq w + 1"
    using rep(4) less_Suc_eq by auto
qed

lemma append_rep:
  assumes "wal_rep X (w, d) fs rs []" "wal_room (w, d) p"
  shows "fst (wal_append X IoOk p (w, d)) = Inr (ww_next_record_seq w)"
    and "ww_next_record_seq (fst (snd (wal_append X IoOk p (w, d)))) = ww_next_record_seq w + 1"
    and "wal_rep X (snd (wal_append X IoOk p (w, d))) (fst (append_files w fs rs p)) (snd (append_files w fs rs p)) []"
proof -
  let ?n = "ww_next_record_seq w" and ?s = "ww_file_seq w"
  let ?r = "new_record w p" and ?d = "appended X w p d"
  let ?w = "w\<lparr>ww_file_bytes := ww_file_bytes w + length (frame X ?n p), ww_next_record_seq := u64_succ ?n\<rparr>"
  have room: "?n + 1 < 2 ^ 64" "?s + 1 < 2 ^ 64" "length p < 2 ^ 32"
    using assms(2) by (simp_all add: wal_room_def)
  have fit: "\<not> 2 ^ 32 - 1 < length p" using room(3) by simp
  have succ: "u64_succ ?n = ?n + 1" "u64_succ ?s = ?s + 1"
    using room by (simp_all add: u64_succ_small)
  have fname: "ww_file w = wal_path ?s" using assms(1) by (simp add: wal_rep_def)
  note log = appended_log [OF assms]
  have lg: "log_of fs (rs @ [?r]) = log_of fs rs @ [?r]" by (simp add: log_of_def)
  have res: "wal_append X IoOk p (w, d) =
      (if ww_rotation_bytes w \<le> ww_file_bytes w + length (frame X ?n p)
       then (Inr ?n, rotate ?w ?d) else (Inr ?n, ?w, ?d))"
    using fit by (simp add: wal_append_def Let_def)
  show "fst (wal_append X IoOk p (w, d)) = Inr ?n"
    by (simp add: res)
  show "ww_next_record_seq (fst (snd (wal_append X IoOk p (w, d)))) = ?n + 1"
    by (simp add: res rotate_def Let_def succ)
  show "wal_rep X (snd (wal_append X IoOk p (w, d))) (fst (append_files w fs rs p)) (snd (append_files w fs rs p)) []"
  proof (cases "ww_rotation_bytes w \<le> ww_file_bytes w + length (frame X ?n p)")
    case True
    have "wal_shape X (fs_create (wal_path (?s + 1)) ?d) (fs @ [(?s, rs @ [?r])]) (?s + 1) [] []"
      using room by (intro shape_create [OF log(1)]) simp_all
    moreover have "log_of (fs @ [(?s, rs @ [?r])]) [] = log_of fs rs @ [?r]"
      by (simp add: log_of_def)
    ultimately show ?thesis
      using True log(2,3) by (simp add: wal_rep_def res rotate_def Let_def succ append_files_def length_frame)
  next
    case False
    then show ?thesis
      using log fname by (simp add: wal_rep_def res lg succ append_files_def length_frame)
  qed
qed

lemma log_of_append_files:
  "log_of (fst (append_files w fs rs p)) (snd (append_files w fs rs p)) =
     log_of fs rs @ [\<lparr>wr_seq = ww_next_record_seq w, wr_payload = p\<rparr>]"
  by (simp add: append_files_def log_of_def Let_def)

section \<open>Truncation\<close>

lemma sorted_log_filter:
  "sorted_wrt (<) (map wr_seq (log_of fs rs)) \<Longrightarrow> sorted_wrt (<) (map wr_seq (log_of (filter P fs) rs))"
proof (induction fs)
  case Nil
  then show ?case by (simp add: log_of_def)
next
  case (Cons p fs)
  have "set (log_of (filter P fs) rs) \<subseteq> set (log_of fs rs)" by (auto simp: log_of_def)
  moreover have "log_of (p # gs) rs = snd p @ log_of gs rs" for gs by (simp add: log_of_def)
  ultimately show ?case using Cons by (auto simp: sorted_wrt_append)
qed

lemma truncate_rep:
  assumes "wal_rep X (w, d) fs rs []"
  shows "fst (truncate_through k (w, d)) = Inr ()"
    and "fst (snd (truncate_through k (w, d))) = w"
    and "wal_rep X (snd (truncate_through k (w, d))) (filter (\<lambda>p. \<not> flushed_file k p) fs) rs []"
proof -
  let ?s = "ww_file_seq w" and ?fs = "filter (\<lambda>p. \<not> flushed_file k p) fs"
  have shape: "wal_shape X d fs ?s rs []" using assms by (simp add: wal_rep_def)
  have "truncate_files ?s k (map (\<lambda>p. (fst p, wal_path (fst p))) xs @ [(?s, wal_path ?s)]) d =
      truncate_files ?s k (map (\<lambda>p. (fst p, wal_path (fst p))) xs) d" for xs :: "(nat \<times> wal_record list) list" and d
    by (induction xs arbitrary: d) auto
  then have tr: "truncate_through k (w, d) =
      (Inr (), w, truncate_files ?s k (map (\<lambda>p. (fst p, wal_path (fst p))) fs) d)"
    by (simp add: truncate_through_def list_wal_files_shape [OF shape] listing_def comp_def)
  show "fst (truncate_through k (w, d)) = Inr ()" "fst (snd (truncate_through k (w, d))) = w"
    by (simp_all add: tr)
  have "distinct (map fst fs)"
    using shape by (auto simp: wal_shape_def sorted_wrt_append strict_sorted_iff)
  from truncate_files_shape [OF shape subset_refl this, of k]
  have sh: "wal_shape X (truncate_files ?s k (map (\<lambda>p. (fst p, wal_path (fst p))) fs) d)
      (filter (\<lambda>p. \<not> (fst p \<in> fst ` set fs \<and> flushed_file k p)) fs) ?s rs []" .
  have eq: "filter (\<lambda>p. \<not> (fst p \<in> fst ` set fs \<and> flushed_file k p)) fs = ?fs"
    by (intro filter_cong) auto
  have sub: "set (log_of ?fs rs) \<subseteq> set (log_of fs rs)" by (auto simp: log_of_def)
  have "sorted_wrt (<) (map wr_seq (log_of ?fs rs))"
    using assms by (intro sorted_log_filter) (simp add: wal_rep_def)
  with sh sub assms show "wal_rep X (snd (truncate_through k (w, d))) ?fs rs []"
    unfolding tr wal_rep_def eq by (auto simp only: snd_conv fst_conv)
qed

lemma truncate_above:
  "filter (\<lambda>r. k < wr_seq r) (log_of (filter (\<lambda>p. \<not> flushed_file k p) fs) rs) =
     filter (\<lambda>r. k < wr_seq r) (log_of fs rs)"
proof (induction fs)
  case Nil
  then show ?case by (simp add: log_of_def)
next
  case (Cons p fs)
  have "filter (\<lambda>r. k < wr_seq r) (snd p) = []" if "flushed_file k p"
    using that by (auto simp: flushed_file_def filter_empty_conv not_less)
  with Cons show ?case by (simp add: log_of_def)
qed

section \<open>The contract\<close>

locale record_log =
  fixes recs :: "'s \<Rightarrow> wal_record list"
    and nxt :: "'s \<Rightarrow> nat"
    and app :: "bytes \<Rightarrow> 's \<Rightarrow> (wal_error + nat) \<times> 's"
    and trunc :: "nat \<Rightarrow> 's \<Rightarrow> (wal_error + unit) \<times> 's"
    and inv :: "'s \<Rightarrow> bool"
    and room :: "'s \<Rightarrow> bytes \<Rightarrow> bool"
  assumes app_inv: "inv s \<Longrightarrow> room s p \<Longrightarrow> inv (snd (app p s))"
    and app_result: "inv s \<Longrightarrow> room s p \<Longrightarrow> fst (app p s) = Inr (nxt s)"
    and app_recs: "inv s \<Longrightarrow> room s p \<Longrightarrow>
      recs (snd (app p s)) = recs s @ [\<lparr>wr_seq = nxt s, wr_payload = p\<rparr>]"
    and app_nxt: "inv s \<Longrightarrow> room s p \<Longrightarrow> nxt (snd (app p s)) = nxt s + 1"
    and recs_below: "inv s \<Longrightarrow> r \<in> set (recs s) \<Longrightarrow> wr_seq r < nxt s"
    and recs_sorted: "inv s \<Longrightarrow> sorted_wrt (<) (map wr_seq (recs s))"
    and trunc_result: "inv s \<Longrightarrow> fst (trunc k s) = Inr ()"
    and trunc_inv: "inv s \<Longrightarrow> inv (snd (trunc k s))"
    and trunc_nxt: "inv s \<Longrightarrow> nxt (snd (trunc k s)) = nxt s"
    and trunc_above: "inv s \<Longrightarrow>
      filter (\<lambda>r. k < wr_seq r) (recs (snd (trunc k s))) = filter (\<lambda>r. k < wr_seq r) (recs s)"
    and trunc_sub: "inv s \<Longrightarrow> set (recs (snd (trunc k s))) \<subseteq> set (recs s)"
begin

lemma trunc_keeps: "inv s \<Longrightarrow> r \<in> set (recs s) \<Longrightarrow> k < wr_seq r \<Longrightarrow> r \<in> set (recs (snd (trunc k s)))"
  using trunc_above [of s k] by (metis (mono_tags, lifting) filter_set mem_Collect_eq set_filter)

lemma app_fresh: "inv s \<Longrightarrow> nxt s \<notin> wr_seq ` set (recs s)"
  using recs_below by (metis imageE less_irrefl)

text \<open>Records are identified by their number.\<close>

lemma recs_unique:
  assumes "inv s" "r \<in> set (recs s)" "r' \<in> set (recs s)" "wr_seq r = wr_seq r'"
  shows "r = r'"
proof -
  have "distinct (map wr_seq (recs s))"
    using recs_sorted [OF assms(1)] by (simp add: strict_sorted_iff)
  with assms show ?thesis by (metis distinct_map inj_on_eq_iff)
qed

text \<open>An append followed by a truncation below it keeps the appended record.\<close>

lemma app_survives:
  assumes "inv s" "room s p" "k < nxt s"
  shows "\<lparr>wr_seq = nxt s, wr_payload = p\<rparr> \<in> set (recs (snd (trunc k (snd (app p s)))))"
  using assms app_recs [OF assms(1,2)] by (intro trunc_keeps app_inv) auto

end

interpretation wl: record_log "wal_recs X" "\<lambda>s. ww_next_record_seq (fst s)" "wal_append X IoOk"
  truncate_through "wal_good X" wal_room for X
proof unfold_locales
  fix s :: "wal_writer \<times> dir" and p and k
  obtain w d where s: "s = (w, d)" by (cases s)
  {
    assume "wal_good X s" "wal_room s p"
    then obtain fs rs where a: "wal_rep X (w, d) fs rs []" "wal_room (w, d) p"
      by (auto simp: wal_good_def s)
    note A = append_rep [OF a]
    show "wal_good X (snd (wal_append X IoOk p s))" using A(3) by (auto simp: wal_good_def s)
    show "fst (wal_append X IoOk p s) = Inr (ww_next_record_seq (fst s))" using A(1) by (simp add: s)
    show "wal_recs X (snd (wal_append X IoOk p s)) =
        wal_recs X s @ [\<lparr>wr_seq = ww_next_record_seq (fst s), wr_payload = p\<rparr>]"
      using rep_recs [OF A(3)] rep_recs [OF a(1)] by (simp add: s log_of_append_files)
    show "ww_next_record_seq (fst (snd (wal_append X IoOk p s))) = ww_next_record_seq (fst s) + 1"
      using A(2) by (simp add: s)
  }
  assume "wal_good X s"
  then obtain fs rs where a: "wal_rep X (w, d) fs rs []"
    by (auto simp: wal_good_def s)
  note T = truncate_rep [OF a, of k]
  show "fst (truncate_through k s) = Inr ()" using T(1) by (simp add: s)
  show "wal_good X (snd (truncate_through k s))" using T(3) by (auto simp: wal_good_def s)
  show "ww_next_record_seq (fst (snd (truncate_through k s))) = ww_next_record_seq (fst s)"
    using T(2) by (simp add: s)
  show "filter (\<lambda>r. k < wr_seq r) (wal_recs X (snd (truncate_through k s))) =
      filter (\<lambda>r. k < wr_seq r) (wal_recs X s)"
    using rep_recs [OF T(3)] rep_recs [OF a] by (simp add: s truncate_above)
  show "set (wal_recs X (snd (truncate_through k s))) \<subseteq> set (wal_recs X s)"
    using rep_recs [OF T(3)] rep_recs [OF a] by (auto simp: s log_of_def)
  show "sorted_wrt (<) (map wr_seq (wal_recs X s))"
    using a rep_recs [OF a] by (simp add: wal_rep_def s)
  fix r assume "r \<in> set (wal_recs X s)"
  then show "wr_seq r < ww_next_record_seq (fst s)"
    using a rep_recs [OF a] by (simp add: wal_rep_def s)
qed

section \<open>Reopening a directory\<close>

text \<open>What an append that failed half way leaves behind: a proper prefix of a frame.\<close>

definition torn_tail :: "externals \<Rightarrow> bytes \<Rightarrow> bool" where
  "torn_tail X t \<longleftrightarrow> (\<exists>n p k. n < 2 ^ 64 \<and> length p < 2 ^ 32 \<and> t = take k (frame X n p) \<and>
     k < length (frame X n p))"

lemma torn_tail_Nil: "torn_tail X []"
proof -
  have "[] = take 0 (frame X 0 []) \<and> 0 < length (frame X 0 [])"
    by (simp add: length_frame header_bytes_def)
  then show ?thesis unfolding torn_tail_def by (metis list.size(3) zero_less_numeral zero_less_power)
qed

lemma torn_tail_scan:
  assumes "torn_tail X t" shows "scan_max_from m t = m"
proof -
  obtain n p k where t: "n < 2 ^ 64" "length p < 2 ^ 32" "t = take k (frame X n p)" "k < length (frame X n p)"
    using assms by (auto simp: torn_tail_def)
  show ?thesis
  proof (cases "k < header_bytes")
    case True
    then show ?thesis using t by (intro scan_max_short) simp
  next
    case False
    then show ?thesis using scan_max_torn [OF t(1,2), of k "[]" X m] t(3,4) by simp
  qed
qed

lemma torn_tail_read:
  assumes "torn_tail X t" shows "fst (read_all X [] (Some t)) = []"
proof -
  obtain n p k where t: "n < 2 ^ 64" "length p < 2 ^ 32" "t = take k (frame X n p)" "k < length (frame X n p)"
    using assms by (auto simp: torn_tail_def)
  show ?thesis
  proof (cases "k < header_bytes")
    case True
    then show ?thesis using t by (subst read_all_empty) auto
  next
    case False
    then have "read_frame X t = FTorn n (length p)"
      using read_frame_torn [OF t(1,2), of k "[]" X] t(3,4) by simp
    then show ?thesis by (simp add: read_all_FTorn)
  qed
qed

definition file_maxes :: "dir \<Rightarrow> (nat \<times> string) list \<Rightarrow> nat list" where
  "file_maxes d es = map (\<lambda>e. u64_succ (scan_max_record_seq (fs_read d (snd e)))) es"

lemma next_after_max: "next_after d es = foldl max 1 (file_maxes d es)"
proof -
  have "foldl (\<lambda>next_seq (s, path). let m = scan_max_record_seq (fs_read d path)
      in if next_seq < u64_succ m then u64_succ m else next_seq) n es = foldl max n (file_maxes d es)" for n
    unfolding file_maxes_def
    by (induction es arbitrary: n) (auto simp: Let_def max_def case_prod_unfold)
  then show ?thesis by (simp only: next_after_def)
qed

lemma scan_shape:
  assumes "wal_shape X d fs s rs tail" "torn_tail X tail" "e \<in> set (listing fs s)"
  obtains gs where "list_all rec_ok gs" "set gs \<subseteq> set (log_of fs rs)"
    "\<And>b. scan_max_record_seq (fs_read d (snd e)) \<le> b \<longleftrightarrow> (\<forall>r \<in> set gs. wr_seq r \<le> b)"
    "snd e = wal_path s \<Longrightarrow> gs = rs" "\<And>p. p \<in> set fs \<Longrightarrow> snd e = wal_path (fst p) \<Longrightarrow> gs = snd p"
proof -
  have ok: "list_all rec_ok rs" "\<forall>p \<in> set fs. list_all rec_ok (snd p)"
    using assms(1) by (simp_all add: wal_shape_def)
  consider "snd e = wal_path s" | p where "p \<in> set fs" "snd e = wal_path (fst p)"
    using assms(3) by (auto simp: listing_def)
  then show thesis
  proof cases
    case 1
    then have "scan_max_record_seq (fs_read d (snd e)) \<le> b \<longleftrightarrow> (\<forall>r \<in> set rs. wr_seq r \<le> b)" for b
      using shape_read(1) [OF assms(1)] scan_max_enc [OF ok(1), of 0 X tail]
      by (simp add: scan_max_record_seq_def torn_tail_scan [OF assms(2)] foldl_max_le_iff)
    with 1 ok(1) shape_names [OF assms(1)] show ?thesis
      by (intro that [of rs]) (auto simp: log_of_def)
  next
    case 2
    have same: "q = p" if "q \<in> set fs" "wal_path (fst q) = wal_path (fst p)" for q
    proof -
      have "fst q = fst p"
        using that(2) wal_path_inj shape_seq_less [OF assms(1)] that(1) 2(1) by blast
      moreover have "distinct (map fst fs)"
        using assms(1) by (auto simp: wal_shape_def sorted_wrt_append strict_sorted_iff)
      ultimately show ?thesis using that(1) 2(1) by (metis distinct_map inj_on_eq_iff)
    qed
    have "scan_max_record_seq (fs_read d (snd e)) \<le> b \<longleftrightarrow> (\<forall>r \<in> set (snd p). wr_seq r \<le> b)" for b
      using shape_read(2) [OF assms(1) 2(1)] 2 ok(2) by (simp add: scan_max_record_seq_enc)
    with 2 ok(2) same shape_names [OF assms(1) 2(1)] show ?thesis
      by (intro that [of "snd p"]) (auto simp: log_of_def)
  qed
qed

lemma next_after_above:
  assumes "wal_shape X d fs s rs tail" "torn_tail X tail"
    "\<forall>r \<in> set (log_of fs rs). wr_seq r + 1 < 2 ^ 64" "r \<in> set (log_of fs rs)"
  shows "wr_seq r < next_after d (listing fs s)"
proof -
  obtain e where e: "e \<in> set (listing fs s)"
    and at: "(snd e = wal_path s \<and> r \<in> set rs) \<or> (\<exists>p \<in> set fs. snd e = wal_path (fst p) \<and> r \<in> set (snd p))"
  proof (cases "r \<in> set rs")
    case True
    then show thesis using that [of "(s, wal_path s)"] by (simp add: listing_def)
  next
    case False
    then obtain p where "p \<in> set fs" "r \<in> set (snd p)" using assms(4) by (auto simp: log_of_def)
    then show thesis using that [of "(fst p, wal_path (fst p))"] by (auto simp: listing_def)
  qed
  let ?m = "scan_max_record_seq (fs_read d (snd e))"
  obtain gs where g: "set gs \<subseteq> set (log_of fs rs)"
    "\<And>b. ?m \<le> b \<longleftrightarrow> (\<forall>r \<in> set gs. wr_seq r \<le> b)" "r \<in> set gs"
    using scan_shape [OF assms(1,2) e] at by metis
  have "\<forall>r \<in> set gs. wr_seq r \<le> 2 ^ 64 - 2" using g(1) assms(3) by fastforce
  then have "?m + 1 < 2 ^ 64" using g(2) [of "2 ^ 64 - 2"] by simp
  then have "u64_succ ?m = ?m + 1" by (rule u64_succ_small)
  moreover have "wr_seq r \<le> ?m" using g(2) [of ?m] g(3) by simp
  moreover have "u64_succ ?m \<in> set (file_maxes d (listing fs s))"
    using e by (simp add: file_maxes_def)
  then have "u64_succ ?m \<le> next_after d (listing fs s)"
    unfolding next_after_max using foldl_max_le_iff [of 1 "file_maxes d (listing fs s)"] by blast
  ultimately show ?thesis by simp
qed

lemma open_shape:
  assumes "wal_shape X d fs s rs tail" "torn_tail X tail" "sorted_wrt (<) (map wr_seq (log_of fs rs))"
    "\<forall>r \<in> set (log_of fs rs). wr_seq r + 1 < 2 ^ 64"
  obtains w where "open_with_rotation rot d = Inr (w, d)" "wal_rep X (w, d) fs rs tail"
proof -
  have "last (listing fs s) = (s, wal_path s)" "listing fs s \<noteq> []" by (simp_all add: listing_def)
  then show thesis
    using that next_after_above [OF assms(1,2,4)] assms(1,3)
    by (simp add: open_with_rotation_def list_wal_files_shape [OF assms(1)] Let_def
        shape_create_same [OF assms(1)] wal_rep_def)
qed

lemma open_empty:
  obtains w where "open_with_rotation rot [] = Inr (w, [(wal_path 0, [])])"
    "wal_rep X (w, [(wal_path 0, [])]) [] [] []" "ww_next_record_seq w = 1" "ww_file_seq w = 0"
  using that by (simp add: open_with_rotation_def list_wal_files_def Let_def fs_create_def
      wal_rep_def wal_shape_def log_of_def next_after_def)

end
