(* ===== verification/Service.thy ===== *)
theory Service
  imports Flush Wal_Contract
begin

text \<open>
  \<open>src/src/ingest/service.rs\<close>: the write path that the handlers and the flush task share. Each
  operation is the sequence of its critical sections; the sections are separate definitions, so that
  other threads can be interleaved between them. How the disk and Iceberg answer is an argument.
\<close>

section \<open>State\<close>

definition flush_size_bytes :: nat where
  "flush_size_bytes = 64 * 1024 * 1024"

definition backpressure_bytes :: nat where
  "backpressure_bytes = 256 * 1024 * 1024"

text \<open>\<open>sv_notified\<close> is the permit stored in the \<open>Notify\<close>.\<close>

record service =
  sv_tables :: warehouse
  sv_wal :: "wal_writer \<times> dir"
  sv_buffer :: buffer
  sv_notified :: bool

datatype service_error = Serializing | WalAppend wal_error | FlushFailed flush_error

definition ingest_open :: "dir \<Rightarrow> warehouse \<Rightarrow> int list \<Rightarrow> wal_error + service" where
  "ingest_open wal_dir tables known_series =
     res_bind (wal_open wal_dir) (\<lambda>wal.
       Inr \<lparr>sv_tables = tables, sv_wal = wal, sv_buffer = with_known_series known_series, sv_notified = False\<rparr>)"

section \<open>Appending a batch\<close>

text \<open>The WAL section of \<open>append_validated\<close>, then its buffer section.\<close>

definition append_wal :: "externals \<Rightarrow> append_io \<Rightarrow> validated_sample list \<Rightarrow> service
    \<Rightarrow> (service_error + nat) \<times> service" where
  "append_wal X io samples st =
     (case json_of_samples X samples of
        None \<Rightarrow> (Inl Serializing, st)
      | Some payload \<Rightarrow>
          (let (r, wal) = wal_append X io payload (sv_wal st)
           in (case r of Inl e \<Rightarrow> Inl (WalAppend e) | Inr record_seq \<Rightarrow> Inr record_seq,
               st\<lparr>sv_wal := wal\<rparr>)))"

definition append_buffer :: "externals \<Rightarrow> nat \<Rightarrow> validated_sample list \<Rightarrow> service \<Rightarrow> service" where
  "append_buffer X record_seq samples st =
     (let b = insert_batch X record_seq samples (sv_buffer st)
      in st\<lparr>sv_buffer := b,
            sv_notified := (if flush_size_bytes \<le> bf_bytes b then True else sv_notified st)\<rparr>)"

definition append_validated :: "externals \<Rightarrow> append_io \<Rightarrow> validated_sample list \<Rightarrow> service
    \<Rightarrow> (service_error + nat) \<times> service" where
  "append_validated X io samples st =
     (case append_wal X io samples st of
        (Inl e, st) \<Rightarrow> (Inl e, st)
      | (Inr record_seq, st) \<Rightarrow> (Inr record_seq, append_buffer X record_seq samples st))"

definition check_backpressure :: "service \<Rightarrow> string + unit" where
  "check_backpressure st =
     (let n = bf_bytes (sv_buffer st)
      in if backpressure_bytes \<le> n
         then Inl (''buffer at '' @ dec_of_nat n @ '' bytes (cap '' @ dec_of_nat backpressure_bytes @
                   ''); flusher behind, retry shortly'')
         else Inr ())"

section \<open>Flushing\<close>

text \<open>The three sections of \<open>flush_once\<close>: take the snapshot, commit it, truncate the log.\<close>

definition flush_take :: "service \<Rightarrow> snapshot option \<times> service" where
  "flush_take st =
     (if is_empty (sv_buffer st) then (None, st)
      else let (snap, b) = take_snapshot (sv_buffer st) in (Some snap, st\<lparr>sv_buffer := b\<rparr>))"

definition flush_commit :: "flush_io \<Rightarrow> snapshot \<Rightarrow> service \<Rightarrow> (flush_error + flush_result) \<times> service" where
  "flush_commit io snap st =
     (let (r, wh) = flush io snap (sv_tables st) in (r, st\<lparr>sv_tables := wh\<rparr>))"

text \<open>A failing truncation is only logged.\<close>

definition flush_truncate :: "nat \<Rightarrow> service \<Rightarrow> service" where
  "flush_truncate max_seq st =
     (if 0 < max_seq then st\<lparr>sv_wal := snd (truncate_through max_seq (sv_wal st))\<rparr> else st)"

definition flush_once :: "flush_io \<Rightarrow> service \<Rightarrow> (service_error + bool) \<times> service" where
  "flush_once io st =
     (case flush_take st of
        (None, st) \<Rightarrow> (Inr False, st)
      | (Some snap, st) \<Rightarrow>
          (case flush_commit io snap st of
             (Inl e, st) \<Rightarrow> (Inl (FlushFailed e), st)
           | (Inr _, st) \<Rightarrow> (Inr True, flush_truncate (sn_max_seq snap) st)))"

text \<open>One turn of the flush task: it wakes on the timer or on the permit, which it consumes.\<close>

datatype wake = FlushTick | FlushNotified

definition flusher_turn :: "wake \<Rightarrow> flush_io \<Rightarrow> service \<Rightarrow> service" where
  "flusher_turn w io st =
     (case w of
        FlushTick \<Rightarrow> snd (flush_once io st)
      | FlushNotified \<Rightarrow>
          (if sv_notified st then snd (flush_once io (st\<lparr>sv_notified := False\<rparr>)) else st))"

section \<open>Effects of the operations\<close>

definition service_rows :: "service \<Rightarrow> row multiset" where
  "service_rows st = warehouse_rows (sv_tables st) + buffer_rows (sv_buffer st)"

lemma append_wal_ok:
  assumes "wal_good X (sv_wal st)" "json_of_samples X ss = Some p" "wal_room (sv_wal st) p"
  shows "append_wal X IoOk ss st =
    (Inr (ww_next_record_seq (fst (sv_wal st))), st\<lparr>sv_wal := snd (wal_append X IoOk p (sv_wal st))\<rparr>)"
  using wl.app_result [OF assms(1,3)] assms(2)
  by (simp add: append_wal_def case_prod_unfold Let_def)

lemma append_wal_frame:
  "sv_tables (snd (append_wal X io ss st)) = sv_tables st"
  "sv_buffer (snd (append_wal X io ss st)) = sv_buffer st"
  by (simp_all add: append_wal_def case_prod_unfold Let_def split: option.split)

lemma append_buffer_simps [simp]:
  "sv_wal (append_buffer X n ss st) = sv_wal st"
  "sv_tables (append_buffer X n ss st) = sv_tables st"
  "sv_buffer (append_buffer X n ss st) = insert_batch X n ss (sv_buffer st)"
  by (simp_all add: append_buffer_def Let_def)

text \<open>An error leaves the tables and the buffer alone: nothing is half inserted.\<close>

lemma append_validated_error:
  "append_validated X io ss st = (Inl e, st') \<Longrightarrow>
     sv_tables st' = sv_tables st \<and> sv_buffer st' = sv_buffer st"
  using append_wal_frame [of X io ss st]
  by (auto simp: append_validated_def split: prod.splits sum.splits)

lemma append_validated_rows:
  "append_validated X io ss st = (Inr n, st') \<Longrightarrow> service_rows st' = service_rows st + mset (map row_of ss)"
  using append_wal_frame [of X io ss st]
  by (auto simp: append_validated_def service_rows_def split: prod.splits sum.splits)

lemma flush_truncate_simps [simp]:
  "sv_tables (flush_truncate n st) = sv_tables st"
  "sv_buffer (flush_truncate n st) = sv_buffer st"
  by (simp_all add: flush_truncate_def)

lemma flush_once_cases:
  obtains (empty) "is_empty (sv_buffer st)" "flush_once io st = (Inr False, st)"
  | (acked) "\<not> is_empty (sv_buffer st)" "samples_acked io (fst (take_snapshot (sv_buffer st)))"
      "series_acked io (fst (take_snapshot (sv_buffer st)))"
      "flush_once io st = (Inr True, flush_truncate (bf_max_seq (sv_buffer st))
         (st\<lparr>sv_buffer := snd (take_snapshot (sv_buffer st)),
             sv_tables := snd (flush io (fst (take_snapshot (sv_buffer st))) (sv_tables st))\<rparr>))"
  | (failed) e where "\<not> is_empty (sv_buffer st)"
      "\<not> (samples_acked io (fst (take_snapshot (sv_buffer st))) \<and>
          series_acked io (fst (take_snapshot (sv_buffer st))))"
      "flush_once io st = (Inl (FlushFailed e),
         st\<lparr>sv_buffer := snd (take_snapshot (sv_buffer st)),
            sv_tables := snd (flush io (fst (take_snapshot (sv_buffer st))) (sv_tables st))\<rparr>)"
proof (cases "is_empty (sv_buffer st)")
  case True
  then show thesis by (intro empty) (simp_all add: flush_once_def flush_take_def)
next
  case False
  obtain snap b where t: "take_snapshot (sv_buffer st) = (snap, b)" by (cases "take_snapshot (sv_buffer st)")
  have sm: "sn_max_seq snap = bf_max_seq (sv_buffer st)"
    using take_snapshot_simps(6) [of "sv_buffer st"] by (simp add: t)
  obtain r wh where f: "flush io snap (sv_tables st) = (r, wh)" by (cases "flush io snap (sv_tables st)")
  have eq: "flush_once io st = (case r of
      Inl e \<Rightarrow> (Inl (FlushFailed e), st\<lparr>sv_buffer := b, sv_tables := wh\<rparr>)
    | Inr _ \<Rightarrow> (Inr True, flush_truncate (bf_max_seq (sv_buffer st)) (st\<lparr>sv_buffer := b, sv_tables := wh\<rparr>)))"
    using False by (simp add: flush_once_def flush_take_def flush_commit_def t f sm split: sum.split)
  have r: "(\<exists>x. r = Inr x) \<longleftrightarrow> samples_acked io snap \<and> series_acked io snap"
    using flush_result [of io snap "sv_tables st"] by (simp add: f)
  show thesis
  proof (cases r)
    case (Inl e)
    with r False show thesis by (intro failed) (simp_all add: eq t f)
  next
    case (Inr x)
    with r False show thesis by (intro acked) (simp_all add: eq t f)
  qed
qed

end
