(* ===== verification/Recovery.thy ===== *)
theory Recovery
  imports Service
begin

text \<open>
  \<open>src/src/state.rs\<close>: building the application state at start-up, in particular the replay of the
  write-ahead log, and the durability of the write path over whole histories: a step relation whose
  steps are acknowledged ingests, flushes, restarts and crashes in the middle of an append.
\<close>

section \<open>Start-up\<close>

text \<open>An unreadable series catalog counts as empty (\<open>unwrap_or_else\<close> with a warning).\<close>

definition read_known_series :: "bool \<Rightarrow> warehouse \<Rightarrow> int list" where
  "read_known_series query_ok wh = (if query_ok then map fst (warehouse_series wh) else [])"

text \<open>One record of the replay: a payload that does not parse is skipped with a warning.\<close>

definition replay_record :: "externals \<Rightarrow> wal_record \<Rightarrow> buffer \<times> nat \<Rightarrow> buffer \<times> nat" where
  "replay_record X r = (\<lambda>(b, n).
     case samples_of_json X (wr_payload r) of
       None \<Rightarrow> (b, n)
     | Some samples \<Rightarrow> (insert_batch X (wr_seq r) samples b, n + 1))"

definition replay_wal :: "externals \<Rightarrow> dir \<Rightarrow> buffer \<Rightarrow> wal_read_error + buffer \<times> nat" where
  "replay_wal X d b =
     (case wal_iter_open d of
        Inl e \<Rightarrow> Inl ReadIo
      | Inr it \<Rightarrow> Inr (fold (replay_record X) (fst (read_all X (wi_files it) (wi_current it))) (b, 0)))"

datatype open_error = OpenCatalog catalog_call | OpenSession | OpenWal wal_error | OpenReplay wal_read_error

text \<open>
  \<open>AppState::open\<close>. \<open>session_ok\<close>: the DataFusion session and its helper views could be built;
  \<open>query_ok\<close>: the query for the known series succeeded.
\<close>

definition app_open :: "externals \<Rightarrow> (catalog_call \<Rightarrow> bool) \<Rightarrow> bool \<Rightarrow> bool \<Rightarrow> catalog \<Rightarrow> warehouse \<Rightarrow> dir
    \<Rightarrow> open_error + service" where
  "app_open X cat_fails session_ok query_ok c wh wal_dir =
     (case fst (ensure_skaldberg_tables cat_fails c) of
        Inl e \<Rightarrow> Inl (OpenCatalog e)
      | Inr _ \<Rightarrow>
     if \<not> session_ok then Inl OpenSession
     else case ingest_open wal_dir wh (read_known_series query_ok wh) of
        Inl e \<Rightarrow> Inl (OpenWal e)
      | Inr ingest \<Rightarrow>
     (case replay_wal X (snd (sv_wal ingest)) (sv_buffer ingest) of
        Inl e \<Rightarrow> Inl (OpenReplay e)
      | Inr (b, n) \<Rightarrow> Inr (ingest\<lparr>sv_buffer := b\<rparr>)))"

section \<open>What the replay inserts\<close>

definition replayed :: "externals \<Rightarrow> wal_record list \<Rightarrow> validated_sample list" where
  "replayed X recs = concat (map (\<lambda>r. case samples_of_json X (wr_payload r) of None \<Rightarrow> [] | Some ss \<Rightarrow> ss) recs)"

lemma replay_fold:
  "buffer_inv X b \<Longrightarrow> buffer_inv X (fst (fold (replay_record X) recs (b, n)))"
  "buffer_rows (fst (fold (replay_record X) recs (b, n))) = mset (map row_of (replayed X recs)) + buffer_rows b"
  "bf_known (fst (fold (replay_record X) recs (b, n))) = bf_known b"
  by (induction recs arbitrary: b n) (auto simp: replay_record_def replayed_def split: option.split)

lemma with_known_series_simps [simp]:
  "buffer_rows (with_known_series ks) = {#}" "bf_known (with_known_series ks) = set ks"
  by (simp_all add: with_known_series_def buffer_rows_def)

text \<open>Start-up on a log directory in shape, possibly with a torn tail.\<close>

lemma app_open_shape:
  assumes "wal_shape X d fs s rs tail" "torn_tail X tail" "sorted_wrt (<) (map wr_seq (log_of fs rs))"
    "\<forall>r \<in> set (log_of fs rs). wr_seq r + 1 < 2 ^ 64"
    "app_open X cf ok q c wh d = Inr st"
  shows "wal_rep X (sv_wal st) fs rs tail \<and> snd (sv_wal st) = d \<and> sv_tables st = wh \<and>
    buffer_inv X (sv_buffer st) \<and>
    buffer_rows (sv_buffer st) = mset (map row_of (replayed X (log_of fs rs))) \<and>
    bf_known (sv_buffer st) \<subseteq> fst ` set (warehouse_series wh)"
proof -
  obtain w where w: "wal_open d = Inr (w, d)" "wal_rep X (w, d) fs rs tail"
    using open_shape [OF assms(1-4), of default_rotation_bytes] unfolding wal_open_def .
  let ?b = "with_known_series (read_known_series q wh)"
  have "fst (replay X d) = log_of fs rs"
    by (simp add: replay_shape [OF assms(1)] torn_tail_read [OF assms(2)] log_of_def)
  then have rp: "replay_wal X d b = Inr (fold (replay_record X) (log_of fs rs) (b, 0))" for b
    using list_wal_files_shape [OF assms(1)] by (simp add: replay_wal_def replay_def wal_iter_open_def)
  have st: "sv_wal st = (w, d)" "sv_tables st = wh" "sv_buffer st = fst (fold (replay_record X) (log_of fs rs) (?b, 0))"
    using assms(5) by (auto simp: app_open_def ingest_open_def w(1) rp split: sum.splits if_splits prod.splits)
  have "bf_known ?b \<subseteq> fst ` set (warehouse_series wh)"
    by (auto simp: read_known_series_def)
  then show ?thesis
    using w(2) st replay_fold [where X = X and b = ?b and recs = "log_of fs rs" and n = 0] buffer_inv_start
    by (simp only: st snd_conv with_known_series_simps add_0_right simp_thms)
qed

lemma app_open_fresh:
  assumes "app_open X cf ok q c \<lparr>wh_samples = [], wh_series = []\<rparr> [] = Inr st"
  shows "wal_good X (sv_wal st) \<and> buffer_inv X (sv_buffer st) \<and> service_rows st = {#} \<and>
    warehouse_series (sv_tables st) = [] \<and> bf_known (sv_buffer st) = {} \<and> bf_max_seq (sv_buffer st) = 0 \<and>
    ww_next_record_seq (fst (sv_wal st)) = 1 \<and> wal_recs X (sv_wal st) = []"
proof -
  let ?wh = "\<lparr>wh_samples = [], wh_series = []\<rparr>"
  obtain w where w: "wal_open [] = Inr (w, [(wal_path 0, [])])" "wal_rep X (w, [(wal_path 0, [])]) [] [] []"
    "ww_next_record_seq w = 1"
    using open_empty [of default_rotation_bytes X] unfolding wal_open_def .
  have "replay X [(wal_path 0, [])] = ([], None)"
    using rep_replay [OF w(2)] by (simp add: log_of_def)
  moreover have "list_wal_files [(wal_path 0, [])] = Inr (listing [] (ww_file_seq w))"
    using w(2) list_wal_files_shape by (fastforce simp: wal_rep_def)
  ultimately have rp: "replay_wal X [(wal_path 0, [])] b = Inr (b, 0)" for b
    by (simp add: replay_wal_def replay_def wal_iter_open_def)
  have empty: "read_known_series q ?wh = []"
    by (simp add: read_known_series_def warehouse_series_def)
  have st: "st = \<lparr>sv_tables = ?wh, sv_wal = (w, [(wal_path 0, [])]), sv_buffer = with_known_series [], sv_notified = False\<rparr>"
    using assms by (auto simp: app_open_def ingest_open_def w(1) rp empty split: sum.splits if_splits)
  have "wal_good X (sv_wal st)" using w(2) by (auto simp: wal_good_def st)
  moreover have "wal_recs X (sv_wal st) = []" using rep_recs [OF w(2)] by (simp add: st log_of_def)
  moreover have "bf_max_seq (with_known_series []) = 0" by (simp add: with_known_series_def)
  ultimately show ?thesis
    using w(3) buffer_inv_start [of X "[]"]
    by (simp add: st service_rows_def warehouse_rows_def warehouse_series_def)
qed

section \<open>Histories\<close>

text \<open>Whether a batch reads back from its JSON as it was written.\<close>

definition json_exact :: "externals \<Rightarrow> validated_sample list \<Rightarrow> bool" where
  "json_exact X ss \<longleftrightarrow> (\<forall>p. json_of_samples X ss = Some p \<longrightarrow> samples_of_json X p = Some ss)"

type_synonym batch = "nat \<times> validated_sample list"

text \<open>
  A state with the batches acknowledged so far. The steps: an acknowledged ingest, both its halves at
  once; a flush that reported no error; a restart; a crash after all bytes of an append's frame reached
  the file but before it was acknowledged, with the start-up that follows. A crash that tears the frame,
  an append or a flush that fails while the process goes on, and a flush between the two halves of an
  append are not steps: each can lose an acknowledged batch (\<open>Hazards\<close>).
\<close>

inductive durable_step :: "externals \<Rightarrow> service \<times> batch list \<Rightarrow> service \<times> batch list \<Rightarrow> bool" for X where
  ingest: "json_of_samples X ss = Some p \<Longrightarrow> wal_room (sv_wal st) p \<Longrightarrow> json_exact X ss \<Longrightarrow>
     append_validated X IoOk ss st = (Inr n, st') \<Longrightarrow>
     durable_step X (st, ack) (st', ack @ [(n, ss)])"
| flushed: "flush_once io st = (Inr b, st') \<Longrightarrow> durable_step X (st, ack) (st', ack)"
| restart: "\<forall>r \<in> set (wal_recs X (sv_wal st)). wr_seq r + 1 < 2 ^ 64 \<Longrightarrow>
     app_open X cf ok q c (sv_tables st) (snd (sv_wal st)) = Inr st' \<Longrightarrow>
     durable_step X (st, ack) (st', ack)"
| crash: "\<forall>r \<in> set (wal_recs X (sv_wal st)). wr_seq r + 1 < 2 ^ 64 \<Longrightarrow> wal_room (sv_wal st) p \<Longrightarrow>
     app_open X cf ok q c (sv_tables st) (snd (snd (wal_append X SyncFails p (sv_wal st)))) = Inr st' \<Longrightarrow>
     durable_step X (st, ack) (st', ack)"

inductive durable_reach :: "externals \<Rightarrow> service \<times> batch list \<Rightarrow> bool" for X where
  fresh: "app_open X cf ok q c \<lparr>wh_samples = [], wh_series = []\<rparr> [] = Inr st \<Longrightarrow> durable_reach X (st, [])"
| further: "durable_reach X w \<Longrightarrow> durable_step X w w' \<Longrightarrow> durable_reach X w'"

inductive_cases durable_stepE: "durable_step X (st, ack) w'"

definition batch_rows_set :: "validated_sample list \<Rightarrow> row set" where
  "batch_rows_set ss = set (map row_of ss)"

definition in_log :: "externals \<Rightarrow> service \<Rightarrow> validated_sample list \<Rightarrow> bool" where
  "in_log X st ss \<longleftrightarrow> (\<exists>r \<in> set (wal_recs X (sv_wal st)). samples_of_json X (wr_payload r) = Some ss)"

text \<open>A batch is safe when it is in the tables, or both in the buffer and in the log.\<close>

definition batch_safe :: "externals \<Rightarrow> service \<Rightarrow> validated_sample list \<Rightarrow> bool" where
  "batch_safe X st ss \<longleftrightarrow>
     batch_rows_set ss \<subseteq> set_mset (warehouse_rows (sv_tables st)) \<or>
     (batch_rows_set ss \<subseteq> set_mset (buffer_rows (sv_buffer st)) \<and> in_log X st ss)"

definition registry_complete :: "service \<Rightarrow> bool" where
  "registry_complete st \<longleftrightarrow>
     bf_known (sv_buffer st) \<subseteq> fst ` set (warehouse_series (sv_tables st)) \<and>
     fst ` set_mset (warehouse_rows (sv_tables st)) \<subseteq> fst ` set (warehouse_series (sv_tables st))"

definition durable_inv :: "externals \<Rightarrow> service \<times> batch list \<Rightarrow> bool" where
  "durable_inv X w \<longleftrightarrow> wal_good X (sv_wal (fst w)) \<and> buffer_inv X (sv_buffer (fst w)) \<and>
     registry_complete (fst w) \<and> (\<forall>(n, ss) \<in> set (snd w). batch_safe X (fst w) ss)"

lemma fst_registered: "fst ` set (registered new) = fst ` set new"
  by (force simp: registered_def)

lemma replayed_mem:
  "in_log X st ss \<Longrightarrow> batch_rows_set ss \<subseteq> set (map row_of (replayed X (wal_recs X (sv_wal st))))"
  by (fastforce simp: in_log_def replayed_def batch_rows_set_def)

text \<open>Restarting from a directory whose records include those of the state before.\<close>

lemma durable_restart:
  assumes inv: "durable_inv X (st, ack)"
    and d: "wal_rep X (w, d) fs rs []" "set (wal_recs X (sv_wal st)) \<subseteq> set (log_of fs rs)"
      "\<forall>r \<in> set (log_of fs rs). wr_seq r + 1 < 2 ^ 64"
    and op: "app_open X cf ok q c (sv_tables st) d = Inr st'"
  shows "durable_inv X (st', ack)"
proof -
  have shape: "wal_shape X d fs (ww_file_seq w) rs []" "sorted_wrt (<) (map wr_seq (log_of fs rs))"
    using d(1) by (simp_all add: wal_rep_def)
  note O = app_open_shape [OF shape(1) torn_tail_Nil shape(2) d(3) op]
  have recs: "wal_recs X (sv_wal st') = log_of fs rs" using O rep_recs by blast
  have safe: "batch_safe X st' ss" if "batch_safe X st ss" for ss
  proof -
    have "in_log X st' ss" if "in_log X st ss"
      using that d(2) recs by (auto simp: in_log_def)
    moreover have "batch_rows_set ss \<subseteq> set_mset (buffer_rows (sv_buffer st'))" if "in_log X st' ss"
      using replayed_mem [OF that] O by (simp add: recs)
    ultimately show ?thesis using that O by (auto simp: batch_safe_def)
  qed
  have "registry_complete st'"
    using inv O by (simp add: durable_inv_def registry_complete_def)
  then show ?thesis
    using inv O safe by (auto simp: durable_inv_def wal_good_def)
qed

lemma synced_append_rep:
  assumes "wal_good X s" "wal_room s p"
  obtains fs rs w where "wal_rep X (w, snd (snd (wal_append X SyncFails p s))) fs rs []"
    "log_of fs rs = wal_recs X s @ [\<lparr>wr_seq = ww_next_record_seq (fst s), wr_payload = p\<rparr>]"
proof -
  obtain w d where s: "s = (w, d)" by (cases s)
  obtain fs rs where r: "wal_rep X (w, d) fs rs []" using assms(1) by (auto simp: wal_good_def s)
  let ?n = "ww_next_record_seq w"
  let ?r = "\<lparr>wr_seq = ?n, wr_payload = p\<rparr>"
  have room: "?n + 1 < 2 ^ 64" "length p < 2 ^ 32" using assms(2) by (simp_all add: wal_room_def s)
  have sh: "wal_shape X d fs (ww_file_seq w) rs []" and f: "ww_file w = wal_path (ww_file_seq w)"
    using r by (simp_all add: wal_rep_def)
  have d': "snd (snd (wal_append X SyncFails p s)) = fs_append (wal_path (ww_file_seq w)) (frame X ?n p) d"
    using room by (simp add: wal_append_def s Let_def f)
  have sh': "wal_shape X (fs_append (wal_path (ww_file_seq w)) (frame X ?n p) d) fs (ww_file_seq w) (rs @ [?r]) []"
    using shape_absorb [of X _ fs "ww_file_seq w" rs ?n p] shape_append [OF sh, of "frame X ?n p"] room by simp
  have lg: "log_of fs (rs @ [?r]) = log_of fs rs @ [?r]" by (simp add: log_of_def)
  have "wal_rep X (w\<lparr>ww_next_record_seq := ?n + 1\<rparr>, snd (snd (wal_append X SyncFails p s))) fs (rs @ [?r]) []"
    using sh' r f less_Suc_eq by (auto simp: wal_rep_def d' lg sorted_wrt_append)
  with that lg rep_recs [OF r] show thesis by (simp add: s)
qed

lemma durable_ingest:
  assumes inv: "durable_inv X (st, ack)"
    and p: "json_of_samples X ss = Some p" "wal_room (sv_wal st) p" "json_exact X ss"
    and ap: "append_validated X IoOk ss st = (Inr n, st')"
  shows "durable_inv X (st', ack @ [(n, ss)])"
proof -
  have good: "wal_good X (sv_wal st)" and b: "buffer_inv X (sv_buffer st)"
    using inv by (simp_all add: durable_inv_def)
  let ?w = "snd (wal_append X IoOk p (sv_wal st))"
  have st': "st' = append_buffer X n ss (st\<lparr>sv_wal := ?w\<rparr>)"
    using ap append_wal_ok [OF good p(1,2)] by (auto simp: append_validated_def)
  have recs: "wal_recs X (sv_wal st') = wal_recs X (sv_wal st) @
      [\<lparr>wr_seq = ww_next_record_seq (fst (sv_wal st)), wr_payload = p\<rparr>]"
    using wl.app_recs [OF good p(2)] by (simp add: st')
  have new: "in_log X st' ss" using p(1,3) by (simp add: in_log_def recs json_exact_def)
  have log: "in_log X st' t" if "in_log X st t" for t
    using that by (auto simp: in_log_def recs)
  have rows: "buffer_rows (sv_buffer st') = mset (map row_of ss) + buffer_rows (sv_buffer st)"
    and tables: "sv_tables st' = sv_tables st" "bf_known (sv_buffer st') = bf_known (sv_buffer st)"
    by (simp_all add: st')
  have "batch_safe X st' t" if "batch_safe X st t" for t
    using that log tables by (auto simp: batch_safe_def rows)
  moreover have "batch_safe X st' ss" using new by (auto simp: batch_safe_def rows batch_rows_set_def)
  moreover have "wal_good X (sv_wal st')" using wl.app_inv [OF good p(2)] by (simp add: st')
  moreover have "buffer_inv X (sv_buffer st')" using b by (simp add: st')
  ultimately show ?thesis
    using inv tables by (auto simp: durable_inv_def registry_complete_def)
qed

lemma registry_sets:
  "K \<subseteq> S \<and> A \<subseteq> S \<Longrightarrow> N = B - K \<Longrightarrow> K \<union> N \<subseteq> S \<union> N \<and> A \<union> B \<subseteq> S \<union> N"
  by blast

text \<open>The snapshot's series reach the table, so every sampled series stays registered.\<close>

lemma registry_flush:
  assumes "buffer_inv X (sv_buffer st)" "registry_complete st"
    "warehouse_rows (sv_tables st') = warehouse_rows (sv_tables st) + buffer_rows (sv_buffer st)"
    "warehouse_series (sv_tables st') = warehouse_series (sv_tables st) @ registered (bf_new_series (sv_buffer st))"
    "sv_buffer st' = snd (take_snapshot (sv_buffer st))"
  shows "registry_complete st'"
proof -
  have new: "fst ` set (bf_new_series (sv_buffer st)) =
      fst ` set_mset (buffer_rows (sv_buffer st)) - bf_known (sv_buffer st)"
    using assms(1) by (simp only: buffer_inv_def)
  have ids: "fst ` set (warehouse_series (sv_tables st')) = fst ` set (warehouse_series (sv_tables st)) \<union>
      fst ` set (bf_new_series (sv_buffer st))"
    unfolding assms(4) by (simp only: set_append image_Un fst_registered)
  have "fst ` set_mset (warehouse_rows (sv_tables st')) =
      fst ` set_mset (warehouse_rows (sv_tables st)) \<union> fst ` set_mset (buffer_rows (sv_buffer st))"
    by (simp only: assms(3) set_mset_union image_Un)
  moreover have "bf_known (sv_buffer st') = bf_known (sv_buffer st) \<union> fst ` set (bf_new_series (sv_buffer st))"
    by (simp add: assms(5))
  ultimately show ?thesis using assms(2) new unfolding registry_complete_def ids by (metis registry_sets)
qed

lemma durable_flush:
  assumes inv: "durable_inv X (st, ack)" and fl: "flush_once io st = (Inr b, st')"
  shows "durable_inv X (st', ack)"
proof (cases rule: flush_once_cases [where st = st and io = io])
  case empty
  then show ?thesis using inv fl by simp
next
  case (failed e)
  then show ?thesis using fl by simp
next
  case acked
  let ?sn = "fst (take_snapshot (sv_buffer st))"
  have good: "wal_good X (sv_wal st)" and bi: "buffer_inv X (sv_buffer st)" and reg: "registry_complete st"
    using inv by (simp_all add: durable_inv_def)
  have tables: "sv_tables st' = snd (flush io ?sn (sv_tables st))"
    and buf: "sv_buffer st' = snd (take_snapshot (sv_buffer st))"
    using acked(4) fl by auto
  have rows: "warehouse_rows (sv_tables st') = warehouse_rows (sv_tables st) + buffer_rows (sv_buffer st)"
    using acked(2) unfolding tables flush_rows by (auto simp: samples_acked_def buffer_rows_def)
  have ser: "warehouse_series (sv_tables st') = warehouse_series (sv_tables st) @ registered (bf_new_series (sv_buffer st))"
    using acked(2,3) unfolding tables flush_series_rows by (auto simp: series_acked_def registered_def)
  have "sv_wal st' = sv_wal st \<or> sv_wal st' = snd (truncate_through (bf_max_seq (sv_buffer st)) (sv_wal st))"
    using acked(4) fl by (auto simp: flush_truncate_def)
  then have "wal_good X (sv_wal st')" using good wl.trunc_inv [OF good] by auto
  moreover have "batch_safe X st' t" if "batch_safe X st t" for t
    using that by (auto simp: batch_safe_def rows)
  moreover have "registry_complete st'" by (rule registry_flush [OF bi reg rows ser buf])
  ultimately show ?thesis
    using inv buffer_inv_take [of X "sv_buffer st"] by (auto simp: durable_inv_def buf)
qed

lemma durable_step_inv:
  assumes "durable_inv X (st, ack)" "durable_step X (st, ack) w'"
  shows "durable_inv X w'"
  using assms(2)
proof (rule durable_stepE, goal_cases)
  case (1 ss p n st')
  then show ?thesis using durable_ingest [OF assms(1)] by blast
next
  case (2 io b st')
  then show ?thesis using durable_flush [OF assms(1)] by blast
next
  case (3 cf ok q c st')
  obtain fs rs where r: "wal_rep X (sv_wal st) fs rs []"
    using assms(1) by (auto simp: durable_inv_def wal_good_def)
  then have "wal_rep X (fst (sv_wal st), snd (sv_wal st)) fs rs []" by simp
  from durable_restart [OF assms(1) this _ _ 3(3)] show ?thesis
    using 3(1,2) rep_recs [OF r] by simp
next
  case (4 p cf ok q c st')
  have good: "wal_good X (sv_wal st)" using assms(1) by (simp add: durable_inv_def)
  obtain fs rs w where r: "wal_rep X (w, snd (snd (wal_append X SyncFails p (sv_wal st)))) fs rs []"
    "log_of fs rs = wal_recs X (sv_wal st) @ [\<lparr>wr_seq = ww_next_record_seq (fst (sv_wal st)), wr_payload = p\<rparr>]"
    using synced_append_rep [OF good 4(3)] .
  have "\<forall>r \<in> set (log_of fs rs). wr_seq r + 1 < 2 ^ 64"
    using 4(2,3) by (auto simp: r(2) wal_room_def)
  from durable_restart [OF assms(1) r(1) _ this 4(4)] show ?thesis
    using 4(1) r(2) by auto
qed

lemma durable_reach_inv: "durable_reach X w \<Longrightarrow> durable_inv X w"
proof (induction rule: durable_reach.induct)
  case (fresh cf ok q c st)
  note F = app_open_fresh [OF fresh]
  have "warehouse_rows (sv_tables st) = {#}" using F by (simp add: service_rows_def)
  then show ?case using F by (simp add: durable_inv_def registry_complete_def)
next
  case (further w w')
  then show ?case using durable_step_inv by (cases w) blast
qed

end
