(* ===== verification/Validate.thy ===== *)
theory Validate
  imports Sample_Types
begin

text \<open>
  \<open>src/src/ingest/validate.rs\<close>: the pure acceptance test of a sample and the derivation of its
  series id. The theorems give the exact acceptance condition, the range of the id, its
  independence of the order in which the labels arrive, and what the hashed encoding identifies:
  it is injective on labels whose values contain no NUL byte, and not injective in general.
\<close>

section \<open>Errors\<close>

definition grace_past_ms :: int where
  "grace_past_ms = 60 * 60 * 1000"

definition grace_future_ms :: int where
  "grace_future_ms = 5 * 60 * 1000"

datatype validation_error =
    EmptyMetricName
  | InvalidMetricName string
  | InvalidLabelName string
  | ReservedLabelName string
  | NonFiniteValue string
  | TimestampTooOld int int int
  | TimestampTooNew int int int

text \<open>The \<open>Display\<close> messages the \<open>thiserror\<close> attributes declare.\<close>

fun validation_error_message :: "validation_error \<Rightarrow> string" where
  "validation_error_message EmptyMetricName = ''metric name is empty''"
| "validation_error_message (InvalidMetricName n) =
     ''metric name '' @ [CHR 39] @ n @ [CHR 39] @
     '' contains invalid characters (must match [a-zA-Z_][a-zA-Z0-9_]*)''"
| "validation_error_message (InvalidLabelName n) =
     ''label name '' @ [CHR 39] @ n @ [CHR 39] @ '' is invalid (must match [a-zA-Z_][a-zA-Z0-9_]*)''"
| "validation_error_message (ReservedLabelName n) =
     ''label name '' @ [CHR 39] @ n @ [CHR 39] @ '' is reserved (starts with '' @
     [CHR 39] @ ''__'' @ [CHR 39] @ '')''"
| "validation_error_message (NonFiniteValue s) = ''value is not finite: '' @ s"
| "validation_error_message (TimestampTooOld ts now grace) =
     ''timestamp '' @ dec_of_int ts @ '' ms is too old: now='' @ dec_of_int now @
     '' ms, grace='' @ dec_of_int grace @ '' ms''"
| "validation_error_message (TimestampTooNew ts now grace) =
     ''timestamp '' @ dec_of_int ts @ '' ms is in the future: now='' @ dec_of_int now @
     '' ms, grace='' @ dec_of_int grace @ '' ms''"

section \<open>Names\<close>

definition is_ascii_alphabetic :: "char \<Rightarrow> bool" where
  "is_ascii_alphabetic c \<longleftrightarrow>
     (CHR ''a'' \<le> c \<and> c \<le> CHR ''z'') \<or> (CHR ''A'' \<le> c \<and> c \<le> CHR ''Z'')"

definition is_ascii_alphanumeric :: "char \<Rightarrow> bool" where
  "is_ascii_alphanumeric c \<longleftrightarrow> is_ascii_alphabetic c \<or> (CHR ''0'' \<le> c \<and> c \<le> CHR ''9'')"

fun is_valid_name :: "string \<Rightarrow> bool" where
  "is_valid_name [] = False"
| "is_valid_name (c # cs) =
     ((is_ascii_alphabetic c \<or> c = CHR ''_'') \<and>
      list_all (\<lambda>c. is_ascii_alphanumeric c \<or> c = CHR ''_'') cs)"

definition starts_with :: "string \<Rightarrow> string \<Rightarrow> bool" where
  "starts_with p s \<longleftrightarrow> take (length p) s = p"

section \<open>Series id\<close>

text \<open>The bytes that are hashed: the metric, a NUL, then \<open>k=v\<close> and a NUL for each label in key order.\<close>

definition series_buf :: "string \<Rightarrow> labels \<Rightarrow> bytes" where
  "series_buf metric ls =
     as_bytes metric @ [0] @ concat (map (\<lambda>(k, v). as_bytes k @ [61] @ as_bytes v @ [0]) ls)"

text \<open>\<open>(h >> 1) as i64\<close>: the result of the shift is below \<open>2 ^ 63\<close>, so the cast keeps its value.\<close>

definition derive_series_id :: "externals \<Rightarrow> string \<Rightarrow> labels \<Rightarrow> int" where
  "derive_series_id X metric ls = uint (drop_bit 1 (xxh3_64 X (series_buf metric ls)))"

section \<open>Validation\<close>

fun collect_labels :: "(string \<times> string) list \<Rightarrow> labels \<Rightarrow> validation_error + labels" where
  "collect_labels [] acc = Inr acc"
| "collect_labels ((k, v) # rest) acc =
     (if starts_with ''__'' k then Inl (ReservedLabelName k)
      else if \<not> is_valid_name k then Inl (InvalidLabelName k)
      else collect_labels rest (bt_insert k v acc))"

definition non_finite_name :: "f64 \<Rightarrow> string" where
  "non_finite_name x =
     (if is_nan x then ''NaN'' else if f64_gt x (Num 0) then ''Infinity'' else ''-Infinity'')"

definition validate :: "externals \<Rightarrow> raw_sample \<Rightarrow> int \<Rightarrow> validation_error + validated_sample" where
  "validate X raw now_ms =
     (if rs_metric raw = [] then Inl EmptyMetricName
      else if \<not> is_valid_name (rs_metric raw) then Inl (InvalidMetricName (rs_metric raw))
      else case collect_labels (rs_labels raw) [] of
        Inl e \<Rightarrow> Inl e
      | Inr ls \<Rightarrow>
          (if \<not> is_finite (rs_value raw) then Inl (NonFiniteValue (non_finite_name (rs_value raw)))
           else
             let lo = i64_wrap (now_ms - grace_past_ms);
                 hi = i64_wrap (now_ms + grace_future_ms)
             in if rs_ts raw < lo then Inl (TimestampTooOld (rs_ts raw) now_ms grace_past_ms)
                else if hi < rs_ts raw then Inl (TimestampTooNew (rs_ts raw) now_ms grace_future_ms)
                else Inr \<lparr>vs_series_id = derive_series_id X (rs_metric raw) ls,
                          vs_metric = rs_metric raw,
                          vs_labels = ls,
                          vs_ts_us = i64_sat (rs_ts raw * 1000),
                          vs_value = rs_value raw\<rparr>))"

section \<open>The label loop\<close>

definition label_name_ok :: "string \<Rightarrow> bool" where
  "label_name_ok k \<longleftrightarrow> \<not> starts_with ''__'' k \<and> is_valid_name k"

lemma collect_labels_Inr:
  "collect_labels ps acc = Inr m \<longleftrightarrow>
     (\<forall>p \<in> set ps. label_name_ok (fst p)) \<and> m = foldl (\<lambda>m p. bt_insert (fst p) (snd p) m) acc ps"
  by (induction ps acc rule: collect_labels.induct) (auto simp: label_name_ok_def)

lemma collect_labels_collect:
  "collect_labels ps [] = Inr m \<longleftrightarrow> (\<forall>p \<in> set ps. label_name_ok (fst p)) \<and> m = bt_collect ps"
  by (simp add: collect_labels_Inr bt_collect_def)

text \<open>With distinct keys the collected map does not depend on the iteration order.\<close>

lemma bt_collect_perm:
  assumes "distinct (map fst ps)" "distinct (map fst qs)" "set ps = set qs"
  shows "bt_collect ps = bt_collect qs"
proof (rule bt_ext)
  have "map_of (rev ps) = map_of (rev qs)"
    using assms by (subst map_of_inject_set) (auto simp: rev_map [symmetric])
  then show "map_of (bt_collect ps) = map_of (bt_collect qs)"
    by (simp add: map_of_bt_collect)
qed (auto intro: bt_wf_collect)

text \<open>What acceptance means, without reference to the order of the tests.\<close>

definition acceptable :: "raw_sample \<Rightarrow> int \<Rightarrow> bool" where
  "acceptable raw now_ms \<longleftrightarrow>
     is_valid_name (rs_metric raw) \<and>
     (\<forall>p \<in> set (rs_labels raw). label_name_ok (fst p)) \<and>
     is_finite (rs_value raw) \<and>
     now_ms - grace_past_ms \<le> rs_ts raw \<and> rs_ts raw \<le> now_ms + grace_future_ms"

definition accepted_sample :: "externals \<Rightarrow> raw_sample \<Rightarrow> validated_sample" where
  "accepted_sample X raw =
     (let ls = bt_collect (rs_labels raw)
      in \<lparr>vs_series_id = derive_series_id X (rs_metric raw) ls, vs_metric = rs_metric raw,
          vs_labels = ls, vs_ts_us = i64_sat (rs_ts raw * 1000), vs_value = rs_value raw\<rparr>)"

text \<open>A clock for which the two bounds of the grace window do not overflow.\<close>

definition clock_ok :: "int \<Rightarrow> bool" where
  "clock_ok now_ms \<longleftrightarrow> i64_ok (now_ms - grace_past_ms) \<and> i64_ok (now_ms + grace_future_ms)"

lemma validate_Inr:
  assumes "clock_ok now_ms"
  shows "validate X raw now_ms = Inr v \<longleftrightarrow> acceptable raw now_ms \<and> v = accepted_sample X raw"
proof (cases "collect_labels (rs_labels raw) []")
  case (Inl e)
  then have "\<not> (\<forall>p \<in> set (rs_labels raw). label_name_ok (fst p))"
    using collect_labels_collect [of "rs_labels raw" "bt_collect (rs_labels raw)"] by auto
  with Inl show ?thesis
    by (auto simp: validate_def acceptable_def)
next
  case (Inr m)
  then have m: "\<forall>p \<in> set (rs_labels raw). label_name_ok (fst p)" "m = bt_collect (rs_labels raw)"
    by (auto simp: collect_labels_collect)
  have w: "i64_wrap (now_ms - grace_past_ms) = now_ms - grace_past_ms"
    "i64_wrap (now_ms + grace_future_ms) = now_ms + grace_future_ms"
    using assms by (auto simp: clock_ok_def i64_wrap_id)
  show ?thesis
    using m Inr by (auto simp: validate_def acceptable_def accepted_sample_def w Let_def)
qed

lemma validate_total: "(\<exists>e. validate X raw now_ms = Inl e) \<or> (\<exists>v. validate X raw now_ms = Inr v)"
  by (cases "validate X raw now_ms") auto

lemma derive_series_id_range: "0 \<le> derive_series_id X m ls \<and> derive_series_id X m ls \<le> i64_max"
proof -
  have "uint (drop_bit 1 w) < 2 ^ 63" for w :: "64 word"
  proof -
    have "uint w < 2 ^ 64" using uint_lt2p [of w] by simp
    then show ?thesis by (simp add: drop_bit_eq_div uint_div)
  qed
  from this [of "xxh3_64 X (series_buf m ls)"] show ?thesis
    by (simp add: derive_series_id_def i64_max_def)
qed

section \<open>What the hashed bytes identify\<close>

lemma alnum_not_sep:
  assumes "is_ascii_alphanumeric c \<or> c = CHR ''_''"
  shows "c \<noteq> CHR 0x00" "c \<noteq> CHR ''=''"
  using assms by (auto simp: is_ascii_alphanumeric_def is_ascii_alphabetic_def less_eq_char_def)

lemma valid_name_chars:
  assumes "is_valid_name n"
  shows "CHR 0x00 \<notin> set n" "CHR ''='' \<notin> set n"
proof -
  have "\<forall>c \<in> set n. is_ascii_alphanumeric c \<or> c = CHR ''_''"
    using assms by (cases n) (auto simp: list_all_iff is_ascii_alphanumeric_def)
  then show "CHR 0x00 \<notin> set n" "CHR ''='' \<notin> set n"
    using alnum_not_sep by blast+
qed

lemma byte_of_sep: "(0 :: byte) = of_char (CHR 0x00)" "(61 :: byte) = of_char (CHR ''='')"
  by (simp_all add: of_char_def)

lemma zero_notin_as_bytes: "(0 :: byte) \<in> set (as_bytes s) \<longleftrightarrow> CHR 0x00 \<in> set s"
  by (simp only: byte_of_sep in_as_bytes)

lemma eq_notin_as_bytes: "(61 :: byte) \<in> set (as_bytes s) \<longleftrightarrow> CHR ''='' \<in> set s"
  by (simp only: byte_of_sep in_as_bytes)

definition labels_plain :: "labels \<Rightarrow> bool" where
  "labels_plain ls \<longleftrightarrow> (\<forall>(k, v) \<in> set ls. is_valid_name k \<and> CHR 0x00 \<notin> set v)"

lemma label_bytes_inj:
  assumes "labels_plain ls" "labels_plain ls'"
    and "concat (map (\<lambda>(k, v). as_bytes k @ [61] @ as_bytes v @ [0]) ls) =
         concat (map (\<lambda>(k, v). as_bytes k @ [61] @ as_bytes v @ [0]) ls')"
  shows "ls = ls'"
  using assms
proof (induction ls arbitrary: ls')
  case Nil
  then show ?case by (cases ls') auto
next
  case (Cons p ls)
  obtain k v where p: "p = (k, v)" by fastforce
  from Cons.prems(3) p obtain k' v' rest where ls': "ls' = (k', v') # rest"
    by (cases ls') auto
  let ?f = "\<lambda>ls. concat (map (\<lambda>(k, v). as_bytes k @ [61] @ as_bytes v @ [0]) ls)"
  have n: "(61 :: byte) \<notin> set (as_bytes k)" "(61 :: byte) \<notin> set (as_bytes k')"
    "(0 :: byte) \<notin> set (as_bytes v)" "(0 :: byte) \<notin> set (as_bytes v')"
    using Cons.prems(1,2) p ls' valid_name_chars
    by (auto simp: labels_plain_def zero_notin_as_bytes eq_notin_as_bytes)
  have "as_bytes k @ 61 # (as_bytes v @ 0 # ?f ls) = as_bytes k' @ 61 # (as_bytes v' @ 0 # ?f rest)"
    using Cons.prems(3) p ls' by simp
  then have "as_bytes k = as_bytes k'" "as_bytes v @ 0 # ?f ls = as_bytes v' @ 0 # ?f rest"
    using n(1,2) by (auto simp: split_at_first_iff)
  moreover from this(2) have "as_bytes v = as_bytes v'" "?f ls = ?f rest"
    using n(3,4) by (auto simp: split_at_first_iff)
  ultimately have "k = k'" "v = v'" "?f ls = ?f rest" by (auto simp: as_bytes_inj)
  moreover have "ls = rest"
    using Cons.prems(1,2) p ls' calculation(3) by (intro Cons.IH) (auto simp: labels_plain_def)
  ultimately show ?case using p ls' by simp
qed

lemma series_buf_inj_aux:
  assumes "is_valid_name m" "is_valid_name m'" "labels_plain ls" "labels_plain ls'"
  shows "series_buf m ls = series_buf m' ls' \<longleftrightarrow> m = m' \<and> ls = ls'"
proof
  assume eq: "series_buf m ls = series_buf m' ls'"
  have n: "(0 :: byte) \<notin> set (as_bytes m)" "(0 :: byte) \<notin> set (as_bytes m')"
    using assms valid_name_chars by (auto simp: zero_notin_as_bytes)
  have "as_bytes m = as_bytes m'" and
    "concat (map (\<lambda>(k, v). as_bytes k @ [61] @ as_bytes v @ [0]) ls) =
     concat (map (\<lambda>(k, v). as_bytes k @ [61] @ as_bytes v @ [0]) ls')"
    using eq n by (auto simp: series_buf_def split_at_first_iff)
  then show "m = m' \<and> ls = ls'"
    using label_bytes_inj [OF assms(3,4)] by (auto simp: as_bytes_inj)
qed auto

text \<open>The rule each error names, as a condition on the sample.\<close>

fun error_justified :: "raw_sample \<Rightarrow> int \<Rightarrow> validation_error \<Rightarrow> bool" where
  "error_justified raw now EmptyMetricName = (rs_metric raw = [])"
| "error_justified raw now (InvalidMetricName n) =
     (n = rs_metric raw \<and> n \<noteq> [] \<and> \<not> is_valid_name n)"
| "error_justified raw now (InvalidLabelName k) =
     (k \<in> fst ` set (rs_labels raw) \<and> \<not> starts_with ''__'' k \<and> \<not> is_valid_name k)"
| "error_justified raw now (ReservedLabelName k) =
     (k \<in> fst ` set (rs_labels raw) \<and> starts_with ''__'' k)"
| "error_justified raw now (NonFiniteValue s) =
     (\<not> is_finite (rs_value raw) \<and> s = non_finite_name (rs_value raw))"
| "error_justified raw now (TimestampTooOld ts n g) =
     (ts = rs_ts raw \<and> n = now \<and> g = grace_past_ms \<and> ts < now - g)"
| "error_justified raw now (TimestampTooNew ts n g) =
     (ts = rs_ts raw \<and> n = now \<and> g = grace_future_ms \<and> now + g < ts)"

lemma collect_labels_Inl:
  "collect_labels ps acc = Inl e \<Longrightarrow>
     (\<exists>k \<in> fst ` set ps.
        (e = ReservedLabelName k \<and> starts_with ''__'' k) \<or>
        (e = InvalidLabelName k \<and> \<not> starts_with ''__'' k \<and> \<not> is_valid_name k))"
  by (induction ps acc rule: collect_labels.induct) (auto split: if_splits)

lemma error_justified_not_acceptable: "error_justified raw now e \<Longrightarrow> \<not> acceptable raw now"
  by (cases e) (auto simp: acceptable_def label_name_ok_def)

lemma validate_Inl_justified:
  assumes "clock_ok now_ms" and e: "validate X raw now_ms = Inl e"
  shows "error_justified raw now_ms e"
proof (cases "collect_labels (rs_labels raw) []")
  case (Inl f)
  then have "error_justified raw now_ms f"
    using collect_labels_Inl [OF Inl] by (elim bexE disjE) simp_all
  then show ?thesis using e Inl by (auto simp: validate_def split: if_splits)
next
  case (Inr ls)
  have w: "i64_wrap (now_ms - grace_past_ms) = now_ms - grace_past_ms"
    "i64_wrap (now_ms + grace_future_ms) = now_ms + grace_future_ms"
    using assms(1) by (auto simp: clock_ok_def i64_wrap_id)
  show ?thesis using Inr e by (auto simp: validate_def w Let_def split: if_splits)
qed

section \<open>Properties\<close>

text \<open>
  (C22) A sample is accepted exactly when its metric and label names are well formed and not
  reserved, its value is finite and its timestamp lies in the grace window; the accepted sample
  carries the sorted labels, the derived id and the timestamp in microseconds.
\<close>

theorem validate_accepts_iff:
  assumes "clock_ok now_ms"
  shows "validate X raw now_ms = Inr v \<longleftrightarrow> acceptable raw now_ms \<and> v = accepted_sample X raw"
  using assms by (rule validate_Inr)

definition demo_raw :: raw_sample where
  "demo_raw = \<lparr>rs_metric = ''up'', rs_labels = [(''job'', ''api'')], rs_ts = 1000, rs_value = Num 1\<rparr>"

definition demo_hash :: externals where
  "demo_hash = \<lparr>xxh3_64 = (\<lambda>bs. sum_list (map ucast bs)), crc32 = (\<lambda>bs. sum_list (map ucast bs)),
     json_of_samples = (\<lambda>_. None), samples_of_json = (\<lambda>_. None), chrono_ok = (\<lambda>_. True)\<rparr>"

lemma demo_raw_acceptable: "acceptable demo_raw 1000"
  by (simp add: acceptable_def demo_raw_def label_name_ok_def starts_with_def
      is_ascii_alphabetic_def is_ascii_alphanumeric_def grace_past_ms_def grace_future_ms_def
      less_eq_char_def)

theorem validate_accepts_iff_witness:
  "clock_ok 1000 \<and> validate demo_hash demo_raw 1000 = Inr (accepted_sample demo_hash demo_raw)"
proof -
  have c: "clock_ok 1000"
    by (simp add: clock_ok_def i64_ok_def i64_min_def i64_max_def grace_past_ms_def grace_future_ms_def)
  then show ?thesis
    using validate_accepts_iff [OF c, of demo_hash demo_raw "accepted_sample demo_hash demo_raw"]
      demo_raw_acceptable by simp
qed

text \<open>
  A rejection always names a rule the sample really breaks, with the offending value, and
  every sample that is not acceptable is rejected.
\<close>

theorem validate_rejects_justified:
  assumes "clock_ok now_ms"
  shows "(\<exists>e. validate X raw now_ms = Inl e \<and> error_justified raw now_ms e) \<longleftrightarrow>
    \<not> acceptable raw now_ms"
proof
  assume "\<exists>e. validate X raw now_ms = Inl e \<and> error_justified raw now_ms e"
  then show "\<not> acceptable raw now_ms" using error_justified_not_acceptable by blast
next
  assume "\<not> acceptable raw now_ms"
  then obtain e where "validate X raw now_ms = Inl e"
    using validate_total validate_Inr [OF assms] by blast
  then show "\<exists>e. validate X raw now_ms = Inl e \<and> error_justified raw now_ms e"
    using validate_Inl_justified [OF assms] by blast
qed

theorem validate_rejects_justified_witness:
  "\<exists>e. validate demo_hash (demo_raw\<lparr>rs_metric := []\<rparr>) 1000 = Inl e \<and>
       error_justified (demo_raw\<lparr>rs_metric := []\<rparr>) 1000 e"
proof -
  have c: "clock_ok 1000"
    by (simp add: clock_ok_def i64_ok_def i64_min_def i64_max_def grace_past_ms_def grace_future_ms_def)
  have "\<not> acceptable (demo_raw\<lparr>rs_metric := []\<rparr>) 1000" by (simp add: acceptable_def)
  then show ?thesis
    using validate_rejects_justified [OF c, of demo_hash "demo_raw\<lparr>rs_metric := []\<rparr>"] by blast
qed

text \<open>
  The result of validation, in particular the series id, does not depend on the order in
  which the \<open>HashMap\<close> of labels is iterated.
\<close>

theorem validate_label_order:
  assumes "clock_ok now_ms"
    and "distinct (map fst (rs_labels raw))" "distinct (map fst ls)" "set ls = set (rs_labels raw)"
  shows "validate X (raw\<lparr>rs_labels := ls\<rparr>) now_ms = Inr v \<longleftrightarrow> validate X raw now_ms = Inr v"
proof -
  have "bt_collect ls = bt_collect (rs_labels raw)"
    using assms by (intro bt_collect_perm) auto
  then show ?thesis
    using assms(4) by (simp add: validate_Inr [OF assms(1)] acceptable_def accepted_sample_def Let_def)
qed

theorem validate_label_order_witness:
  "(validate demo_hash (demo_raw\<lparr>rs_labels := [(''b'', ''2''), (''a'', ''1'')]\<rparr>) 1000 =
      Inr (accepted_sample demo_hash (demo_raw\<lparr>rs_labels := [(''a'', ''1''), (''b'', ''2'')]\<rparr>))) =
   (validate demo_hash (demo_raw\<lparr>rs_labels := [(''a'', ''1''), (''b'', ''2'')]\<rparr>) 1000 =
      Inr (accepted_sample demo_hash (demo_raw\<lparr>rs_labels := [(''a'', ''1''), (''b'', ''2'')]\<rparr>)))"
proof -
  have c: "clock_ok 1000"
    by (simp add: clock_ok_def i64_ok_def i64_min_def i64_max_def grace_past_ms_def grace_future_ms_def)
  have "set [(''b'', ''2''), (''a'', ''1'')] =
      set (rs_labels (demo_raw\<lparr>rs_labels := [(''a'', ''1''), (''b'', ''2'')]\<rparr>))"
    by (auto simp: demo_raw_def)
  then show ?thesis
    using validate_label_order [OF c, of "demo_raw\<lparr>rs_labels := [(''a'', ''1''), (''b'', ''2'')]\<rparr>"
        "[(''b'', ''2''), (''a'', ''1'')]" demo_hash]
    by simp
qed

text \<open>
  The bytes hashed into a series id determine the metric and the labels, as long as names
  are valid and no label value contains a NUL byte: two such series share an id only when the
  hash itself collides.
\<close>

theorem series_buf_injective:
  assumes "is_valid_name m" "is_valid_name m'" "labels_plain ls" "labels_plain ls'"
  shows "series_buf m ls = series_buf m' ls' \<longleftrightarrow> m = m' \<and> ls = ls'"
  using assms by (rule series_buf_inj_aux)

theorem series_buf_injective_witness:
  "series_buf ''up'' [(''job'', ''api'')] \<noteq> series_buf ''up'' [(''job'', ''web'')]"
proof -
  have v: "is_valid_name ''up''" "labels_plain [(''job'', ''api'')]" "labels_plain [(''job'', ''web'')]"
    by (simp_all add: labels_plain_def is_ascii_alphabetic_def is_ascii_alphanumeric_def less_eq_char_def)
  show ?thesis
    using series_buf_injective [OF v(1) v(1) v(2) v(3)] by simp
qed

text \<open>
  Without that restriction the encoding is ambiguous: a NUL byte in a label value makes two
  different label sets, both of which validation accepts, hash the same bytes, so they receive
  the same series id whatever the hash function is.
\<close>

theorem series_id_collision:
  "\<exists>raw1 raw2. acceptable raw1 1000 \<and> acceptable raw2 1000 \<and>
     rs_metric raw1 = rs_metric raw2 \<and>
     bt_collect (rs_labels raw1) \<noteq> bt_collect (rs_labels raw2) \<and>
     vs_series_id (accepted_sample X raw1) = vs_series_id (accepted_sample X raw2)"
proof (intro exI conjI)
  let ?r1 = "demo_raw\<lparr>rs_labels := [(''a'', ''x''), (''b'', ''y'')]\<rparr>"
  let ?r2 = "demo_raw\<lparr>rs_labels := [(''a'', ''x'' @ [CHR 0x00] @ ''b=y'')]\<rparr>"
  show "acceptable ?r1 1000" "acceptable ?r2 1000"
    by (simp_all add: acceptable_def demo_raw_def label_name_ok_def starts_with_def
      is_ascii_alphabetic_def is_ascii_alphanumeric_def grace_past_ms_def grace_future_ms_def
      less_eq_char_def)
  show "bt_collect (rs_labels ?r1) \<noteq> bt_collect (rs_labels ?r2)"
    by (simp add: bt_collect_def bt_insert_def)
  show "vs_series_id (accepted_sample X ?r1) = vs_series_id (accepted_sample X ?r2)"
    by (simp add: accepted_sample_def bt_collect_def bt_insert_def derive_series_id_def
        series_buf_def as_bytes_def Let_def demo_raw_def)
qed (simp_all add: demo_raw_def)

end
