(* ===== verification/Wal_Props.thy ===== *)
theory Wal_Props
  imports Wal_Contract Validate
begin

text \<open>
  The properties of the write-ahead log: what an acknowledged append guarantees to a replay, what a
  truncation may remove, how a reopened log continues, and what a failed append leaves behind, both
  for the records before it (kept) and for the appends after it (not protected).
\<close>

text \<open>A fresh log with a 256-byte rotation limit, for the concrete instances.\<close>

definition demo_wal :: "wal_writer \<times> dir" where
  "demo_wal = (\<lparr>ww_file = wal_path 0, ww_file_seq = 0, ww_file_bytes = 0,
     ww_next_record_seq = 1, ww_rotation_bytes = 256\<rparr>, [(wal_path 0, [])])"

lemma demo_wal_opened: "open_with_rotation 256 [] = Inr demo_wal"
  by (simp add: open_with_rotation_def list_wal_files_def Let_def fs_create_def next_after_def
      demo_wal_def fs_read_def)

lemma demo_wal_good: "wal_good X demo_wal"
proof -
  have "wal_rep X demo_wal [] [] []"
    by (simp add: demo_wal_def wal_rep_def wal_shape_def log_of_def)
  then show ?thesis by (auto simp: wal_good_def)
qed

lemma demo_wal_replay: "replay X (snd demo_wal) = ([], None)"
  by (subst rep_replay [of X demo_wal "[]" "[]"])
    (simp_all add: demo_wal_def wal_rep_def wal_shape_def log_of_def)

lemma demo_wal_next: "ww_next_record_seq (fst demo_wal) = 1" "ww_file_bytes (fst demo_wal) = 0"
    "ww_rotation_bytes (fst demo_wal) = 256"
  by (simp_all add: demo_wal_def)

lemma demo_wal_room: "length p < 2 ^ 32 \<Longrightarrow> wal_room demo_wal p"
  by (simp add: wal_room_def demo_wal_def)

text \<open>
  (C9) An acknowledged append is durable: it returns the next record number, the replay of the
  directory then reads the old records followed by the new one with no error, and the log is again
  in order.
\<close>

theorem wal_append_replayed:
  assumes "wal_good X s" "wal_room s p"
  shows "fst (wal_append X IoOk p s) = Inr (ww_next_record_seq (fst s)) \<and>
    wal_good X (snd (wal_append X IoOk p s)) \<and>
    replay X (snd (snd (wal_append X IoOk p s))) =
      (fst (replay X (snd s)) @ [\<lparr>wr_seq = ww_next_record_seq (fst s), wr_payload = p\<rparr>], None)"
  using wl.app_result [OF assms] wl.app_inv [OF assms] good_replay [OF wl.app_inv [OF assms]]
    wl.app_recs [OF assms]
  by (simp only: wal_recs_def simp_thms)

theorem wal_append_replayed_witness:
  "replay demo_hash (snd (snd (wal_append demo_hash IoOk [7, 8] demo_wal))) =
     ([\<lparr>wr_seq = 1, wr_payload = [7, 8]\<rparr>], None)"
proof -
  note demo_wal_replay [of demo_hash]
  then show ?thesis
    using wal_append_replayed [OF demo_wal_good [of demo_hash] demo_wal_room [of "[7, 8]"]]
    by (simp add: demo_wal_next)
qed

text \<open>
  (C10) Truncation through \<open>k\<close> succeeds, keeps every record numbered above \<open>k\<close> and their order,
  adds nothing, and leaves the log in order.
\<close>

theorem wal_truncate_safe:
  assumes "wal_good X s"
  shows "fst (truncate_through k s) = Inr () \<and> wal_good X (snd (truncate_through k s)) \<and>
    filter (\<lambda>r. k < wr_seq r) (fst (replay X (snd (snd (truncate_through k s))))) =
      filter (\<lambda>r. k < wr_seq r) (fst (replay X (snd s))) \<and>
    set (fst (replay X (snd (snd (truncate_through k s))))) \<subseteq> set (fst (replay X (snd s)))"
  using wl.trunc_result [OF assms, of k] wl.trunc_inv [OF assms, of k] wl.trunc_above [OF assms, of k]
    wl.trunc_sub [OF assms, of k]
  by (simp add: wal_recs_def)

theorem wal_truncate_safe_witness:
  "wal_good demo_hash (snd (truncate_through 0 (snd (wal_append demo_hash IoOk [7] demo_wal))))"
  using wal_truncate_safe [OF wl.app_inv [OF demo_wal_good [of demo_hash] demo_wal_room [of "[7]"]], where k = 0] by simp

text \<open>
  A log reopened after a crash continues the sequence: opening succeeds without changing the
  directory, the records replay as before, and the next record number is above all of them. The
  bytes of an append cut short by the crash do not disturb this.
\<close>

theorem wal_reopen_continues:
  assumes "wal_rep X s fs rs tail" "torn_tail X tail"
    "\<forall>r \<in> set (fst (replay X (snd s))). wr_seq r + 1 < 2 ^ 64"
  shows "\<exists>w. wal_open (snd s) = Inr (w, snd s) \<and> wal_rep X (w, snd s) fs rs tail \<and>
    fst (replay X (snd s)) = log_of fs rs \<and>
    (\<forall>r \<in> set (fst (replay X (snd s))). wr_seq r < ww_next_record_seq w)"
proof -
  have shape: "wal_shape X (snd s) fs (ww_file_seq (fst s)) rs tail"
    and srt: "sorted_wrt (<) (map wr_seq (log_of fs rs))"
    using assms(1) by (simp_all add: wal_rep_def)
  have rp: "fst (replay X (snd s)) = log_of fs rs"
    by (simp add: replay_shape [OF shape] torn_tail_read [OF assms(2)] log_of_def)
  then have lim: "\<forall>r \<in> set (log_of fs rs). wr_seq r + 1 < 2 ^ 64" using assms(3) by (simp only:)
  obtain w where w: "wal_open (snd s) = Inr (w, snd s)" "wal_rep X (w, snd s) fs rs tail"
    using open_shape [OF shape assms(2) srt lim, of default_rotation_bytes] unfolding wal_open_def .
  then show ?thesis using rp by (auto simp: wal_rep_def)
qed

theorem wal_reopen_continues_witness:
  "\<exists>w. wal_open (snd demo_wal) = Inr (w, snd demo_wal) \<and> fst (replay demo_hash (snd demo_wal)) = []"
proof -
  have rep: "wal_rep demo_hash demo_wal [] [] []"
    by (simp add: demo_wal_def wal_rep_def wal_shape_def log_of_def)
  then show ?thesis
    using wal_reopen_continues [OF rep torn_tail_Nil] rep_replay [OF rep] by (auto simp: log_of_def)
qed

text \<open>The state after an append whose write failed after \<open>k\<close> bytes.\<close>

lemma failed_append_rep:
  assumes "wal_rep X s fs rs []" "wal_room s p"
  shows "wal_append X (WriteFails k) p s =
      (Inl WalIo, fst s, fs_append (ww_file (fst s)) (take k (frame X (ww_next_record_seq (fst s)) p)) (snd s))"
    and "wal_rep X (snd (wal_append X (WriteFails k) p s)) fs rs
      (take k (frame X (ww_next_record_seq (fst s)) p))"
proof -
  obtain w d where s: "s = (w, d)" by (cases s)
  show eq: "wal_append X (WriteFails k) p s =
      (Inl WalIo, fst s, fs_append (ww_file (fst s)) (take k (frame X (ww_next_record_seq (fst s)) p)) (snd s))"
    using assms(2) by (simp add: wal_append_def s wal_room_def Let_def)
  have "wal_shape X d fs (ww_file_seq w) rs []" "ww_file w = wal_path (ww_file_seq w)"
    using assms(1) by (simp_all add: wal_rep_def s)
  then show "wal_rep X (snd (wal_append X (WriteFails k) p s)) fs rs
      (take k (frame X (ww_next_record_seq (fst s)) p))"
    using shape_append [of X d fs "ww_file_seq w" rs "[]"] assms(1)
    unfolding eq by (simp add: wal_rep_def s)
qed

text \<open>
  A write that fails part way is reported to the caller and costs no earlier record: a replay
  still reads exactly the records acknowledged before it.
\<close>

theorem wal_failed_append_keeps:
  assumes "wal_good X s" "wal_room s p" "k < header_bytes + length p"
  shows "fst (wal_append X (WriteFails k) p s) = Inl WalIo \<and>
    fst (replay X (snd (snd (wal_append X (WriteFails k) p s)))) = fst (replay X (snd s))"
proof -
  obtain fs rs where r: "wal_rep X s fs rs []" using assms(1) by (auto simp: wal_good_def)
  let ?t = "take k (frame X (ww_next_record_seq (fst s)) p)"
  note F = failed_append_rep [OF r assms(2), of k]
  have "torn_tail X ?t"
    using assms(2,3) unfolding torn_tail_def wal_room_def length_frame [symmetric, of p X "ww_next_record_seq (fst s)"]
    by (metis add_lessD1)
  note dead = torn_tail_read [OF this]
  have "wal_shape X (snd (snd (wal_append X (WriteFails k) p s))) fs (ww_file_seq (fst s)) rs ?t"
    using F(2) unfolding wal_rep_def F(1) fst_conv snd_conv by blast
  from replay_shape [OF this]
  have "fst (replay X (snd (snd (wal_append X (WriteFails k) p s)))) = log_of fs rs"
    by (simp add: dead log_of_def)
  then show ?thesis using F(1) rep_replay [OF r] by simp
qed

theorem wal_failed_append_keeps_witness:
  "fst (replay demo_hash (snd (snd (wal_append demo_hash (WriteFails 9) [7] demo_wal)))) = fst (replay demo_hash (snd demo_wal))"
  using wal_failed_append_keeps [OF demo_wal_good [of demo_hash] demo_wal_room [of "[7]"], of 9]
  by (simp add: header_bytes_def)

text \<open>
  The writer does not repair the file after a failed write: when the failed append left a
  header that promises more bytes than the next append supplies, that next append is acknowledged,
  and a replay stops at the torn frame without reading it.
\<close>

theorem wal_torn_append_loses_ack:
  assumes "wal_good X s" "wal_room s p" "wal_room s q"
    "header_bytes \<le> k" "k + header_bytes + length q < header_bytes + length p"
    "ww_file_bytes (fst s) + header_bytes + length q < ww_rotation_bytes (fst s)"
  shows "let s1 = snd (wal_append X (WriteFails k) p s); (res, s2) = wal_append X IoOk q s1
    in res = Inr (ww_next_record_seq (fst s)) \<and>
       replay X (snd s2) = (fst (replay X (snd s)), Some (Truncated (ww_next_record_seq (fst s)) (length p)))"
proof -
  obtain fs rs where r: "wal_rep X s fs rs []" using assms(1) by (auto simp: wal_good_def)
  let ?n = "ww_next_record_seq (fst s)" and ?sq = "ww_file_seq (fst s)"
  let ?t = "take k (frame X ?n p)"
  define d where "d = fs_append (wal_path ?sq) ?t (snd s)"
  note F = failed_append_rep [OF r assms(2), of k]
  have f: "ww_file (fst s) = wal_path ?sq" using r by (simp add: wal_rep_def)
  have s1: "snd (wal_append X (WriteFails k) p s) = (fst s, d)"
    by (simp add: F(1) f d_def)
  have sh: "wal_shape X d fs ?sq rs ?t"
    using F(2) unfolding s1 by (simp add: wal_rep_def)
  have ap: "wal_append X IoOk q (fst s, d) = (Inr ?n,
      (fst s)\<lparr>ww_file_bytes := ww_file_bytes (fst s) + length (frame X ?n q), ww_next_record_seq := u64_succ ?n\<rparr>,
      fs_append (wal_path ?sq) (frame X ?n q) d)"
    using assms(3,6) by (simp add: wal_append_def Let_def wal_room_def length_frame f)
  have "read_frame X (?t @ frame X ?n q) = FTorn ?n (length p)"
    using assms(2,4,5) by (intro read_frame_torn) (simp_all add: wal_room_def length_frame)
  then have "read_all X [] (Some (?t @ frame X ?n q)) = ([], Some (Truncated ?n (length p)))"
    by (rule read_all_FTorn)
  then have "replay X (fs_append (wal_path ?sq) (frame X ?n q) d) =
      (log_of fs rs, Some (Truncated ?n (length p)))"
    using replay_shape [OF shape_append [OF sh, of "frame X ?n q"]] by (simp add: log_of_def)
  then show ?thesis
    unfolding s1 Let_def ap using rep_replay [OF r] by simp
qed

theorem wal_torn_append_loses_ack_witness:
  "replay demo_hash (snd (snd (wal_append demo_hash IoOk [1] (snd (wal_append demo_hash (WriteFails 17) (replicate 100 0) demo_wal))))) =
     ([], Some (Truncated 1 100))"
proof -
  note demo_wal_replay [of demo_hash]
  then show ?thesis
    using wal_torn_append_loses_ack [OF demo_wal_good [of demo_hash] demo_wal_room [of "replicate 100 0"] demo_wal_room [of "[1]"], of 17]
    by (simp add: header_bytes_def case_prod_unfold Let_def demo_wal_next)
qed

end
