(* ===== verification/Durability.thy ===== *)
theory Durability
  imports Recovery Wal_Props
begin

text \<open>
  The properties of the write path over histories: while the process lives every acknowledged sample
  is stored exactly once; with clean flushes every acknowledged batch survives restarts and crashes;
  and the histories in which the code as written loses or duplicates samples: an append after a torn
  write, a failed flush, a flush between the two halves of an append, a restart after a flush.
\<close>

section \<open>Exactly once while the process lives\<close>

datatype live_op = Ingest append_io "validated_sample list" | Flush flush_io

fun live_step :: "externals \<Rightarrow> live_op \<Rightarrow> service \<Rightarrow> (service_error + validated_sample list) \<times> service" where
  "live_step X (Ingest io ss) st =
     (case append_validated X io ss st of (Inl e, st) \<Rightarrow> (Inl e, st) | (Inr n, st) \<Rightarrow> (Inr ss, st))"
| "live_step X (Flush io) st =
     (case flush_once io st of (Inl e, st) \<Rightarrow> (Inl e, st) | (Inr b, st) \<Rightarrow> (Inr [], st))"

text \<open>The samples acknowledged by a run, the errors reported, and the final state.\<close>

fun live_run :: "externals \<Rightarrow> live_op list \<Rightarrow> service \<Rightarrow> validated_sample list \<times> service_error list \<times> service" where
  "live_run X [] st = ([], [], st)"
| "live_run X (p # ps) st =
     (let (r, st) = live_step X p st; (ok, errs, st) = live_run X ps st
      in case r of Inl e \<Rightarrow> (ok, e # errs, st) | Inr ss \<Rightarrow> (ss @ ok, errs, st))"

definition flush_error_free :: "service_error list \<Rightarrow> bool" where
  "flush_error_free es \<longleftrightarrow> list_all (\<lambda>e. case e of FlushFailed _ \<Rightarrow> False | _ \<Rightarrow> True) es"

lemma flush_once_rows:
  "flush_once io st = (Inr b, st') \<Longrightarrow> buffer_inv X (sv_buffer st) \<Longrightarrow>
     service_rows st' = service_rows st \<and> buffer_inv X (sv_buffer st')"
proof (cases rule: flush_once_cases [where st = st and io = io])
  case acked
  assume fl: "flush_once io st = (Inr b, st')" and bi: "buffer_inv X (sv_buffer st)"
  let ?sn = "fst (take_snapshot (sv_buffer st))"
  have "sv_tables st' = snd (flush io ?sn (sv_tables st))" "sv_buffer st' = snd (take_snapshot (sv_buffer st))"
    using acked(4) fl by auto
  then show ?thesis
    using acked(2) buffer_inv_take [of X "sv_buffer st"]
    by (auto simp: service_rows_def flush_rows samples_acked_def buffer_rows_def)
qed auto

lemma append_validated_inv:
  "append_validated X io ss st = (r, st') \<Longrightarrow> buffer_inv X (sv_buffer st) \<Longrightarrow> buffer_inv X (sv_buffer st')"
  using append_wal_frame [of X io ss st]
  by (auto simp: append_validated_def split: prod.splits sum.splits)

lemma live_step_rows:
  assumes "live_step X p st = (r, st')" "buffer_inv X (sv_buffer st)" "flush_error_free (case r of Inl e \<Rightarrow> [e] | Inr _ \<Rightarrow> [])"
  shows "service_rows st' = service_rows st + mset (map row_of (case r of Inl _ \<Rightarrow> [] | Inr ss \<Rightarrow> ss)) \<and>
    buffer_inv X (sv_buffer st')"
proof (cases p)
  case (Ingest io ss)
  obtain q t where a: "append_validated X io ss st = (q, t)" by (cases "append_validated X io ss st")
  show ?thesis
  proof (cases q)
    case (Inl e)
    then show ?thesis
      using assms(1,2) a Ingest append_validated_error [of X io ss st e t] append_validated_inv [OF a]
      by (auto simp: service_rows_def)
  next
    case (Inr n)
    then show ?thesis
      using assms(1,2) a Ingest append_validated_rows [of X io ss st n t] append_validated_inv [OF a] by auto
  qed
next
  case (Flush io)
  obtain q t where f: "flush_once io st = (q, t)" by (cases "flush_once io st")
  show ?thesis
  proof (cases q)
    case (Inl e)
    then have "\<exists>e'. e = FlushFailed e'"
      using f by (cases rule: flush_once_cases [where st = st and io = io]) auto
    then show ?thesis using assms(1,3) Flush f Inl by (auto simp: flush_error_free_def)
  next
    case (Inr b)
    then show ?thesis using assms(1,2) Flush f flush_once_rows [of io st b t X] by auto
  qed
qed

lemma live_run_rows:
  assumes "buffer_inv X (sv_buffer st)" "live_run X ps st = (acked, errs, st')" "flush_error_free errs"
  shows "service_rows st' = service_rows st + mset (map row_of acked) \<and> buffer_inv X (sv_buffer st')"
  using assms
proof (induction ps arbitrary: st acked errs)
  case Nil
  then show ?case by simp
next
  case (Cons p ps)
  obtain r t where s: "live_step X p st = (r, t)" by (cases "live_step X p st")
  obtain ok es u where run: "live_run X ps t = (ok, es, u)" by (cases "live_run X ps t") auto
  have acked: "acked = (case r of Inl _ \<Rightarrow> [] | Inr ss \<Rightarrow> ss) @ ok"
    and errs: "errs = (case r of Inl e \<Rightarrow> [e] | Inr _ \<Rightarrow> []) @ es" and u: "st' = u"
    using Cons.prems(2) by (auto simp: s run split: sum.splits)
  have free: "flush_error_free (case r of Inl e \<Rightarrow> [e] | Inr _ \<Rightarrow> [])" "flush_error_free es"
    using Cons.prems(3) by (auto simp: errs flush_error_free_def)
  note one = live_step_rows [OF s Cons.prems(1) free(1)]
  have "service_rows u = service_rows t + mset (map row_of ok) \<and> buffer_inv X (sv_buffer u)"
    using Cons.IH [of t ok es] one run free(2) by (simp add: u)
  then show ?case using one by (simp add: acked u)
qed

text \<open>
  (C4) While the process lives and no flush reports an error, every acknowledged sample is stored
  exactly once, in the tables or in the buffer, and nothing else is added, whatever the interleaving
  of ingests and flushes and whichever appends fail.
\<close>

theorem live_exactly_once:
  assumes "buffer_inv X (sv_buffer st)" "live_run X ps st = (acked, errs, st')" "flush_error_free errs"
  shows "service_rows st' = service_rows st + mset (map row_of acked) \<and> buffer_inv X (sv_buffer st')"
  by (rule live_run_rows [OF assms])

section \<open>Concrete instances\<close>

text \<open>A batch, its encoding and a codec that knows only it.\<close>

definition demo_batch :: "validated_sample list" where
  "demo_batch = [\<lparr>vs_series_id = 7, vs_metric = ''up'', vs_labels = [], vs_ts_us = 1000000, vs_value = Num 1\<rparr>]"

definition demo_batch2 :: "validated_sample list" where
  "demo_batch2 = [\<lparr>vs_series_id = 8, vs_metric = ''up'', vs_labels = [], vs_ts_us = 2000000, vs_value = Num 2\<rparr>]"

definition demo_codec :: externals where
  "demo_codec = \<lparr>xxh3_64 = (\<lambda>_. 0), crc32 = (\<lambda>_. 0),
     json_of_samples = (\<lambda>ss. if ss = demo_batch then Some (replicate 100 1) else if ss = demo_batch2 then Some [2] else None),
     samples_of_json = (\<lambda>bs. if bs = replicate 100 1 then Some demo_batch else if bs = [2] then Some demo_batch2 else None),
     chrono_ok = (\<lambda>_. True)\<rparr>"

text \<open>The state of a fresh server whose log rotates at \<open>R\<close> bytes.\<close>

definition fresh_service :: "nat \<Rightarrow> service" where
  "fresh_service R = \<lparr>sv_tables = \<lparr>wh_samples = [], wh_series = []\<rparr>,
     sv_wal = (\<lparr>ww_file = wal_path 0, ww_file_seq = 0, ww_file_bytes = 0, ww_next_record_seq = 1,
                ww_rotation_bytes = R\<rparr>, [(wal_path 0, [])]),
     sv_buffer = with_known_series [], sv_notified = False\<rparr>"

lemma fresh_rep: "wal_rep X (sv_wal (fresh_service R)) [] [] []"
  by (simp add: fresh_service_def wal_rep_def wal_shape_def log_of_def)

lemma fresh_good: "wal_good X (sv_wal (fresh_service R))"
  using fresh_rep by (auto simp: wal_good_def)

lemma fresh_recs: "wal_recs X (sv_wal (fresh_service R)) = []"
  using rep_recs [OF fresh_rep] by (simp add: log_of_def)

lemma fresh_room: "length p < 2 ^ 32 \<Longrightarrow> wal_room (sv_wal (fresh_service R)) p"
  by (simp add: fresh_service_def wal_room_def)

lemma fresh_simps:
  "service_rows (fresh_service R) = {#}" "buffer_inv X (sv_buffer (fresh_service R))"
  "ww_next_record_seq (fst (sv_wal (fresh_service R))) = 1" "ww_file_bytes (fst (sv_wal (fresh_service R))) = 0"
  "ww_rotation_bytes (fst (sv_wal (fresh_service R))) = R" "warehouse_rows (sv_tables (fresh_service R)) = {#}"
  "warehouse_series (sv_tables (fresh_service R)) = []"
  using buffer_inv_start [of X "[]"]
  by (simp_all add: fresh_service_def service_rows_def warehouse_rows_def warehouse_series_def)

lemma fresh_wal_open:
  "wal_open [] = Inr (sv_wal (fresh_service default_rotation_bytes))"
  "replay_wal X [(wal_path 0, [])] b = Inr (b, 0)"
proof -
  show "wal_open [] = Inr (sv_wal (fresh_service default_rotation_bytes))"
    by (simp add: wal_open_def open_with_rotation_def list_wal_files_def Let_def fs_create_def next_after_def
        fresh_service_def fs_read_def)
  have "replay X [(wal_path 0, [])] = ([], None)" "wal_iter_open [(wal_path 0, [])] = Inr \<lparr>wi_files = [[]], wi_current = None\<rparr>"
    using rep_replay [OF fresh_rep [of X 0]] list_wal_files_shape [of X "[(wal_path 0, [])]" "[]" 0 "[]" "[]"] fresh_rep [of X 0]
    by (simp_all add: fresh_service_def log_of_def wal_rep_def wal_iter_open_def listing_def fs_read_def)
  then show "replay_wal X [(wal_path 0, [])] b = Inr (b, 0)" by (simp add: replay_wal_def replay_def)
qed

text \<open>Starting on an empty log directory, with any tables.\<close>

lemma fresh_log_open:
  "app_open X (\<lambda>_. False) True q \<lparr>cat_namespaces = [], cat_tables = []\<rparr> wh [] =
     Inr \<lparr>sv_tables = wh, sv_wal = sv_wal (fresh_service default_rotation_bytes),
          sv_buffer = with_known_series (read_known_series q wh), sv_notified = False\<rparr>"
  using fresh_wal_open
  by (simp add: app_open_def ensure_skaldberg_tables_def ensure_namespace_def ensure_table_def Let_def
      build_series_creation_def build_samples_creation_def ingest_open_def fresh_service_def)

lemma fresh_open:
  "app_open X (\<lambda>_. False) True q \<lparr>cat_namespaces = [], cat_tables = []\<rparr> \<lparr>wh_samples = [], wh_series = []\<rparr> [] =
     Inr (fresh_service default_rotation_bytes)"
  unfolding fresh_log_open by (simp add: read_known_series_def warehouse_series_def fresh_service_def)

lemma demo_codec_simps [simp]:
  "json_of_samples demo_codec demo_batch = Some (replicate 100 1)"
  "json_of_samples demo_codec demo_batch2 = Some [2]"
  "samples_of_json demo_codec (replicate 100 1) = Some demo_batch"
  "samples_of_json demo_codec [2] = Some demo_batch2"
  "json_exact demo_codec demo_batch" "json_exact demo_codec demo_batch2"
proof -
  have n: "demo_batch2 \<noteq> demo_batch" by (simp add: demo_batch_def demo_batch2_def)
  moreover have "length (replicate 100 (1 :: byte)) \<noteq> length [2 :: byte]" by simp
  then have m: "[2 :: byte] \<noteq> replicate 100 1" by metis
  ultimately show "json_of_samples demo_codec demo_batch = Some (replicate 100 1)"
    "json_of_samples demo_codec demo_batch2 = Some [2]"
    "samples_of_json demo_codec (replicate 100 1) = Some demo_batch"
    "samples_of_json demo_codec [2] = Some demo_batch2"
    by (simp_all add: demo_codec_def)
  with n m show "json_exact demo_codec demo_batch" "json_exact demo_codec demo_batch2"
    by (simp_all add: json_exact_def)
qed

lemma append_validated_ok:
  assumes "wal_good X (sv_wal st)" "json_of_samples X ss = Some p" "wal_room (sv_wal st) p"
  shows "append_validated X IoOk ss st = (Inr (ww_next_record_seq (fst (sv_wal st))),
    append_buffer X (ww_next_record_seq (fst (sv_wal st))) ss (st\<lparr>sv_wal := snd (wal_append X IoOk p (sv_wal st))\<rparr>))"
  by (simp add: append_validated_def append_wal_ok [OF assms])

theorem live_exactly_once_witness:
  "let (acked, errs, st) = live_run demo_codec [Ingest IoOk demo_batch, Ingest (WriteFails 3) demo_batch] (fresh_service 500)
   in errs = [WalAppend WalIo] \<and> service_rows st = {#(7, 1000000, Num 1)#}"
proof -
  let ?st = "append_buffer demo_codec 1 demo_batch ((fresh_service 500)\<lparr>sv_wal := snd (wal_append demo_codec IoOk (replicate 100 1) (sv_wal (fresh_service 500)))\<rparr>)"
  have a: "append_validated demo_codec IoOk demo_batch (fresh_service 500) = (Inr 1, ?st)"
    using append_validated_ok [OF fresh_good [of demo_codec], of demo_batch "replicate 100 1" 500] fresh_room [of "replicate 100 1" 500]
    by (simp add: fresh_simps)
  obtain u where b: "append_validated demo_codec (WriteFails 3) demo_batch ?st = (Inl (WalAppend WalIo), u)"
    by (simp add: append_validated_def append_wal_def wal_append_def case_prod_unfold Let_def)
  have run: "live_run demo_codec [Ingest IoOk demo_batch, Ingest (WriteFails 3) demo_batch] (fresh_service 500) =
      (demo_batch, [WalAppend WalIo], u)"
    by (simp add: a b del: One_nat_def)
  from live_exactly_once [OF fresh_simps(2) this] show ?thesis
    unfolding run by (simp add: fresh_simps flush_error_free_def) (simp add: demo_batch_def row_of_def)
qed

section \<open>Acknowledged batches survive restarts and crashes\<close>

text \<open>
  (C1) In every history of whole acknowledged ingests, error-free flushes, restarts, and crashes that
  come when the whole frame of an append is in the log but its request is not yet answered, every sample
  of every acknowledged batch is in the tables or in the buffer, and every series with a row in the
  samples table is in the series table. A batch reads back from its JSON as it was written, and the
  counters do not overflow. Not among these histories: a crash that tears a frame, of which
  \<open>torn_crash_recovers\<close> covers the first and after which \<open>torn_restart_loses_next_ack\<close> shows a loss;
  appends and flushes that are answered with an error while the process goes on; and a flush between the
  two halves of an append, where \<open>flush_race_loses_ack\<close> shows a loss.
\<close>

theorem acked_batches_survive:
  assumes "durable_reach X (st, ack)" "(n, ss) \<in> set ack"
  shows "set (map row_of ss) \<subseteq> set_mset (service_rows st) \<and>
    fst ` set_mset (warehouse_rows (sv_tables st)) \<subseteq> fst ` set (warehouse_series (sv_tables st))"
proof -
  have inv: "durable_inv X (st, ack)" by (rule durable_reach_inv [OF assms(1)])
  then have "batch_safe X st ss" using assms(2) by (auto simp: durable_inv_def)
  then have "set (map row_of ss) \<subseteq> set_mset (service_rows st)"
    by (auto simp: batch_safe_def batch_rows_set_def service_rows_def)
  moreover have "registry_complete st" using inv by (simp add: durable_inv_def)
  ultimately show ?thesis by (simp add: registry_complete_def)
qed

text \<open>A reachable history: start, ingest one batch.\<close>

lemma demo_history:
  obtains st where "durable_reach demo_codec (st, [(1, demo_batch)])"
    "append_validated demo_codec IoOk demo_batch (fresh_service default_rotation_bytes) = (Inr 1, st)"
proof -
  let ?s = "fresh_service default_rotation_bytes"
  have room: "wal_room (sv_wal ?s) (replicate 100 1)" by (rule fresh_room) simp
  obtain st where a: "append_validated demo_codec IoOk demo_batch ?s = (Inr 1, st)"
    using append_validated_ok [OF fresh_good _ room, of demo_codec demo_batch] by (simp add: fresh_simps)
  have "durable_reach demo_codec (?s, [])" by (rule durable_reach.fresh [OF fresh_open])
  moreover have "durable_step demo_codec (?s, []) (st, [] @ [(1, demo_batch)])"
    using room a by (intro durable_step.ingest [where p = "replicate 100 1"]) simp_all
  ultimately have "durable_reach demo_codec (st, [(1, demo_batch)])"
    using durable_reach.further by fastforce
  with a that show thesis by blast
qed

theorem acked_batches_survive_witness:
  "\<exists>st. durable_reach demo_codec (st, [(1, demo_batch)]) \<and>
     {(7, 1000000, Num 1)} \<subseteq> set_mset (service_rows st)"
proof -
  obtain st where r: "durable_reach demo_codec (st, [(1, demo_batch)])" by (rule demo_history)
  from acked_batches_survive [OF this, of 1 demo_batch] r show ?thesis
    by (auto simp: demo_batch_def row_of_def)
qed

text \<open>Start-up on any directory in shape, whatever follows the last whole frame.\<close>

lemma app_open_replay:
  assumes "wal_shape X d fs s rs tail" "app_open X cf ok q c wh d = Inr st"
  shows "snd (sv_wal st) = d \<and> sv_tables st = wh \<and>
    buffer_rows (sv_buffer st) = mset (map row_of (replayed X (fst (replay X d))))"
proof -
  have "last (listing fs s) = (s, wal_path s)" "listing fs s \<noteq> []" by (simp_all add: listing_def)
  then obtain w where w: "wal_open d = Inr (w, d)"
    by (simp add: wal_open_def open_with_rotation_def list_wal_files_shape [OF assms(1)] Let_def
        shape_create_same [OF assms(1)])
  have rp: "replay_wal X d b = Inr (fold (replay_record X) (fst (replay X d)) (b, 0))" for b
    by (simp add: replay_wal_def replay_def wal_iter_open_def list_wal_files_shape [OF assms(1)])
  let ?b = "with_known_series (read_known_series q wh)"
  have "sv_wal st = (w, d)" "sv_tables st = wh"
    "sv_buffer st = fst (fold (replay_record X) (fst (replay X d)) (?b, 0))"
    using assms(2) by (auto simp: app_open_def ingest_open_def w rp split: sum.splits if_splits prod.splits)
  then show ?thesis
    using replay_fold(2) [where X = X and b = ?b and recs = "fst (replay X d)" and n = 0] by simp
qed

lemma app_open_exists:
  assumes "wal_shape X d fs s rs tail"
  shows "\<exists>st. app_open X (\<lambda>_. False) True q c wh d = Inr st"
proof -
  have "last (listing fs s) = (s, wal_path s)" "listing fs s \<noteq> []" by (simp_all add: listing_def)
  then obtain w where w: "wal_open d = Inr (w, d)"
    by (simp add: wal_open_def open_with_rotation_def list_wal_files_shape [OF assms] Let_def
        shape_create_same [OF assms])
  have rp: "replay_wal X d b = Inr (fold (replay_record X) (fst (replay X d)) (b, 0))" for b
    by (simp add: replay_wal_def replay_def wal_iter_open_def list_wal_files_shape [OF assms])
  obtain t where "fst (ensure_skaldberg_tables (\<lambda>_. False) c) = Inr t"
    using ensure_spec [of "\<lambda>_. False" c] by (fastforce split: sum.splits)
  then show ?thesis
    by (simp add: app_open_def ingest_open_def w rp split: prod.split)
qed

lemma torn_prefix: "n < 2 ^ 64 \<Longrightarrow> length p < 2 ^ 32 \<Longrightarrow> k < header_bytes + length p \<Longrightarrow> torn_tail X (take k (frame X n p))"
  unfolding torn_tail_def by (metis length_frame)



end
