(* ===== verification/Remote_Write.thy ===== *)
theory Remote_Write
  imports Validate
begin

text \<open>
  \<open>src/src/ingest/remote_write.rs\<close>: the Prometheus remote-write receiver. Snappy and protobuf are
  third-party and enter as the functions of the record \<open>rw_codec\<close>; the size guards around them and
  the flattening of a \<open>WriteRequest\<close> into raw samples are modelled. The lemmas characterise what is
  emitted and counted, and show that flattened samples can never be rejected for an empty metric
  or a reserved label.
\<close>

section \<open>Messages\<close>

record label =
  lb_name :: string
  lb_value :: string

record sample =
  sm_value :: f64
  sm_timestamp :: int

record time_series =
  ts_labels :: "label list"
  ts_samples :: "sample list"

record write_request =
  wr_timeseries :: "time_series list"

record conversion_stats =
  series_total :: nat
  series_dropped_no_name :: nat
  samples_emitted :: nat

section \<open>Decoding\<close>

definition max_decompressed_bytes :: nat where
  "max_decompressed_bytes = 32 * 1024 * 1024"

datatype decode_error = Snappy | TooLarge nat nat | Protobuf

text \<open>
  \<^item> \<open>decompress_len\<close>: \<open>snap::raw::decompress_len\<close>, the length the header declares;
  \<^item> \<open>decompress_vec\<close>: \<open>snap::raw::Decoder::decompress_vec\<close>;
  \<^item> \<open>prost_decode\<close>: \<open>WriteRequest::decode\<close>.
\<close>

record rw_codec =
  decompress_len :: "bytes \<Rightarrow> nat option"
  decompress_vec :: "bytes \<Rightarrow> bytes option"
  prost_decode :: "bytes \<Rightarrow> write_request option"

definition decode_write_request :: "rw_codec \<Rightarrow> bytes \<Rightarrow> decode_error + write_request" where
  "decode_write_request C compressed =
     (let go =
        (case decompress_vec C compressed of
           None \<Rightarrow> Inl Snappy
         | Some body \<Rightarrow>
             (if max_decompressed_bytes < length body
              then Inl (TooLarge (length body) max_decompressed_bytes)
              else case prost_decode C body of None \<Rightarrow> Inl Protobuf | Some req \<Rightarrow> Inr req))
      in case decompress_len C compressed of
           Some declared \<Rightarrow>
             (if max_decompressed_bytes < declared
              then Inl (TooLarge declared max_decompressed_bytes) else go)
         | None \<Rightarrow> go)"

section \<open>Flattening\<close>

text \<open>\<open>HashMap::insert\<close>: an existing key keeps its entry and gets the new value.\<close>

fun hm_insert :: "'k \<Rightarrow> 'v \<Rightarrow> ('k \<times> 'v) list \<Rightarrow> ('k \<times> 'v) list" where
  "hm_insert k v [] = [(k, v)]"
| "hm_insert k v ((a, b) # m) = (if a = k then (a, v) # m else (a, b) # hm_insert k v m)"

text \<open>The loop over the labels of one series: the metric found so far and the labels kept.\<close>

fun split_labels :: "label list \<Rightarrow> string option \<times> (string \<times> string) list
    \<Rightarrow> string option \<times> (string \<times> string) list" where
  "split_labels [] acc = acc"
| "split_labels (l # ls) (metric, labels) =
     (if lb_name l = ''__name__'' then split_labels ls (Some (lb_value l), labels)
      else if starts_with ''__'' (lb_name l) then split_labels ls (metric, labels)
      else split_labels ls (metric, hm_insert (lb_name l) (lb_value l) labels))"

definition flatten_one :: "time_series \<Rightarrow> raw_sample list option" where
  "flatten_one ts =
     (case split_labels (ts_labels ts) (None, []) of
        (Some m, labels) \<Rightarrow>
          (if m \<noteq> [] then
             Some (map (\<lambda>s. \<lparr>rs_metric = m, rs_labels = labels, rs_ts = sm_timestamp s,
                             rs_value = sm_value s\<rparr>) (ts_samples ts))
           else None)
      | (None, labels) \<Rightarrow> None)"

fun flatten_loop :: "time_series list \<Rightarrow> raw_sample list \<times> conversion_stats
    \<Rightarrow> raw_sample list \<times> conversion_stats" where
  "flatten_loop [] acc = acc"
| "flatten_loop (ts # rest) (out, st) =
     (case flatten_one ts of
        None \<Rightarrow> flatten_loop rest (out, st\<lparr>series_dropped_no_name := series_dropped_no_name st + 1\<rparr>)
      | Some rs \<Rightarrow> flatten_loop rest (out @ rs, st\<lparr>samples_emitted := samples_emitted st + length rs\<rparr>))"

definition flatten_write_request :: "write_request \<Rightarrow> raw_sample list \<times> conversion_stats" where
  "flatten_write_request req =
     flatten_loop (wr_timeseries req)
       ([], \<lparr>series_total = length (wr_timeseries req), series_dropped_no_name = 0, samples_emitted = 0\<rparr>)"

section \<open>Lemmas\<close>

lemma hm_insert_keys: "fst ` set (hm_insert k v m) = insert k (fst ` set m)"
  by (induction k v m rule: hm_insert.induct) auto

lemma hm_insert_distinct: "distinct (map fst m) \<Longrightarrow> distinct (map fst (hm_insert k v m))"
proof (induction k v m rule: hm_insert.induct)
  case (2 k v a b m)
  then show ?case using hm_insert_keys [of k v m] by (auto simp flip: set_map)
qed simp

lemma hm_insert_get: "map_of (hm_insert k v m) = (map_of m)(k \<mapsto> v)"
  by (induction k v m rule: hm_insert.induct) auto

text \<open>The metric is the value of the last \<open>__name__\<close> label.\<close>

definition name_labels :: "label list \<Rightarrow> label list" where
  "name_labels ls = filter (\<lambda>l. lb_name l = ''__name__'') ls"

lemma split_labels_metric:
  "fst (split_labels ls (m, acc)) =
     (if name_labels ls = [] then m else Some (lb_value (last (name_labels ls))))"
  by (induction ls "(m, acc)" arbitrary: m acc rule: split_labels.induct)
    (auto simp: name_labels_def)

definition kept_label :: "label \<Rightarrow> bool" where
  "kept_label l \<longleftrightarrow> \<not> starts_with ''__'' (lb_name l)"

lemma name_label_reserved [simp]: "starts_with ''__'' ''__name__''"
  by (simp add: starts_with_def)

lemma split_labels_get:
  "map_of (snd (split_labels ls (m, acc))) =
     map_of acc ++ map_of (rev (map (\<lambda>l. (lb_name l, lb_value l)) (filter kept_label ls)))"
proof (induction ls "(m, acc)" arbitrary: m acc rule: split_labels.induct)
  case 1
  then show ?case by simp
next
  case (2 l ls m acc)
  then show ?case
    by (auto simp: kept_label_def hm_insert_get map_add_def fun_eq_iff split: option.splits)
qed

lemma split_labels_keys:
  "fst ` set (snd (split_labels ls (m, acc))) = fst ` set acc \<union> lb_name ` set (filter kept_label ls)"
  by (induction ls "(m, acc)" arbitrary: m acc rule: split_labels.induct)
    (auto simp: kept_label_def hm_insert_keys)

lemma split_labels_distinct:
  "distinct (map fst acc) \<Longrightarrow> distinct (map fst (snd (split_labels ls (m, acc))))"
  by (induction ls "(m, acc)" arbitrary: m acc rule: split_labels.induct)
    (auto simp: hm_insert_distinct)

definition has_name :: "time_series \<Rightarrow> bool" where
  "has_name ts \<longleftrightarrow> name_labels (ts_labels ts) \<noteq> [] \<and> lb_value (last (name_labels (ts_labels ts))) \<noteq> []"

lemma flatten_one_None: "flatten_one ts = None \<longleftrightarrow> \<not> has_name ts"
  using split_labels_metric [of "ts_labels ts" None "[]"]
  by (auto simp: flatten_one_def has_name_def split: prod.splits option.splits if_splits)

lemma flatten_one_Some:
  "flatten_one ts = Some rs \<longleftrightarrow> has_name ts \<and>
     rs = map (\<lambda>s. \<lparr>rs_metric = lb_value (last (name_labels (ts_labels ts))),
                    rs_labels = snd (split_labels (ts_labels ts) (None, [])),
                    rs_ts = sm_timestamp s, rs_value = sm_value s\<rparr>) (ts_samples ts)"
  using split_labels_metric [of "ts_labels ts" None "[]"]
  by (auto simp: flatten_one_def has_name_def split: prod.splits option.splits if_splits)

definition emitted :: "time_series \<Rightarrow> raw_sample list" where
  "emitted ts = (case flatten_one ts of None \<Rightarrow> [] | Some rs \<Rightarrow> rs)"

lemma flatten_loop_out:
  "flatten_loop tss (out, st) =
     (out @ concat (map emitted tss),
      st\<lparr>series_dropped_no_name := series_dropped_no_name st + length (filter (\<lambda>t. \<not> has_name t) tss),
         samples_emitted := samples_emitted st + length (concat (map emitted tss))\<rparr>)"
proof (induction tss "(out, st)" arbitrary: out st rule: flatten_loop.induct)
  case 1
  then show ?case by simp
next
  case (2 ts rest out st)
  show ?case
  proof (cases "flatten_one ts")
    case None
    then have "\<not> has_name ts" by (simp add: flatten_one_None)
    with None 2(1) show ?thesis by (simp add: emitted_def)
  next
    case (Some rs)
    then have "has_name ts" by (simp add: flatten_one_Some)
    with Some 2(2) show ?thesis by (simp add: emitted_def)
  qed
qed

section \<open>Properties\<close>

text \<open>
  Flattening emits, in request order, one raw sample per sample of every series that has a
  non-empty \<open>__name__\<close>, drops and counts the other series, and its counters agree with the output.
\<close>

theorem flatten_write_request_spec:
  "flatten_write_request req =
     (concat (map emitted (wr_timeseries req)),
      \<lparr>series_total = length (wr_timeseries req),
       series_dropped_no_name = length (filter (\<lambda>t. \<not> has_name t) (wr_timeseries req)),
       samples_emitted = length (concat (map emitted (wr_timeseries req)))\<rparr>)"
  by (simp add: flatten_write_request_def flatten_loop_out)

text \<open>
  A flattened sample never fails validation because of its origin: its metric is not empty,
  its label names are distinct and none is reserved, so the errors \<open>EmptyMetricName\<close> and
  \<open>ReservedLabelName\<close> cannot occur on the remote-write path.
\<close>

theorem flattened_never_reserved:
  assumes "r \<in> set (fst (flatten_write_request req))" and "clock_ok now_ms"
  shows "distinct (map fst (rs_labels r)) \<and>
    validate X r now_ms \<noteq> Inl EmptyMetricName \<and>
    validate X r now_ms \<noteq> Inl (ReservedLabelName k)"
proof -
  obtain ts where "ts \<in> set (wr_timeseries req)" "r \<in> set (emitted ts)"
    using assms(1) by (auto simp: flatten_write_request_def flatten_loop_out)
  then obtain rs where rs: "flatten_one ts = Some rs" "r \<in> set rs"
    by (cases "flatten_one ts") (auto simp: emitted_def)
  then have m: "rs_metric r \<noteq> []"
    and l: "rs_labels r = snd (split_labels (ts_labels ts) (None, []))"
    by (auto simp: flatten_one_Some has_name_def)
  have d: "distinct (map fst (rs_labels r))"
    by (simp add: l split_labels_distinct)
  have k: "\<forall>k \<in> fst ` set (rs_labels r). \<not> starts_with ''__'' k"
    by (auto simp: l split_labels_keys kept_label_def)
  show ?thesis
    using d m k validate_Inl_justified [OF assms(2), of X r] by fastforce
qed

definition demo_series :: time_series where
  "demo_series = \<lparr>ts_labels = [\<lparr>lb_name = ''__name__'', lb_value = ''up''\<rparr>,
                               \<lparr>lb_name = ''__replica__'', lb_value = ''r1''\<rparr>,
                               \<lparr>lb_name = ''job'', lb_value = ''api''\<rparr>],
                  ts_samples = [\<lparr>sm_value = Num 1, sm_timestamp = 1000\<rparr>]\<rparr>"

lemma demo_series_emitted:
  "fst (flatten_write_request \<lparr>wr_timeseries = [demo_series]\<rparr>) = [demo_raw]"
  by (simp add: flatten_write_request_def demo_series_def flatten_one_def starts_with_def demo_raw_def)

theorem flattened_never_reserved_witness:
  "validate demo_hash demo_raw 1000 \<noteq> Inl EmptyMetricName \<and>
   validate demo_hash demo_raw 1000 \<noteq> Inl (ReservedLabelName ''__replica__'')"
proof -
  have c: "clock_ok 1000"
    by (simp add: clock_ok_def i64_ok_def i64_min_def i64_max_def grace_past_ms_def grace_future_ms_def)
  have "demo_raw \<in> set (fst (flatten_write_request \<lparr>wr_timeseries = [demo_series]\<rparr>))"
    by (simp add: demo_series_emitted)
  from flattened_never_reserved [OF this c] show ?thesis by blast
qed

text \<open>
  A request is decoded only when both the length the snappy header declares, if it declares
  one, and the actual decompressed length are within the 32 MiB cap; the protobuf decoder never
  sees a larger body.
\<close>

theorem decode_within_cap:
  "decode_write_request C compressed = Inr req \<longleftrightarrow>
     (\<exists>body. decompress_vec C compressed = Some body \<and> length body \<le> max_decompressed_bytes \<and>
             prost_decode C body = Some req) \<and>
     decompress_len C compressed \<notin> Some ` {n. max_decompressed_bytes < n}"
  by (auto simp: decode_write_request_def Let_def not_less split: option.splits if_splits)

end
