(* ===== verification/Handlers.thy ===== *)
theory Handlers
  imports Service Validate Remote_Write
begin

text \<open>
  \<open>src/src/handlers.rs\<close>: the HTTP handlers of the write path and the row cap of the SQL endpoint.
  A response is a status with a body or an \<open>ApiError\<close>; the clock, the disk and the task runtime
  (\<open>spawn_blocking\<close> answers a \<open>JoinError\<close> for a task that never ran or that panicked) are arguments.
  Metrics and log lines are left out, and the error texts of third-party errors are abbreviated.
\<close>

section \<open>Errors\<close>

datatype status = Ok200 | NoContent204 | BadRequest400 | Unauthorized401 | InternalError500 | Unavailable503

record api_error =
  ae_status :: status
  ae_message :: string

definition api_internal :: "string \<Rightarrow> api_error" where
  "api_internal msg = \<lparr>ae_status = InternalError500, ae_message = msg\<rparr>"

definition api_bad_request :: "string \<Rightarrow> api_error" where
  "api_bad_request msg = \<lparr>ae_status = BadRequest400, ae_message = msg\<rparr>"

text \<open>The text of the wrapped error comes from \<open>anyhow\<close> and the operating system: an argument.\<close>

type_synonym error_text = "service_error \<Rightarrow> string"

section \<open>JSON ingest\<close>

text \<open>The validation loop: accepted samples in order, rejections with their index in the request.\<close>

fun validate_all :: "externals \<Rightarrow> int \<Rightarrow> nat \<Rightarrow> raw_sample list \<Rightarrow> validated_sample list \<times> rejected_sample list" where
  "validate_all X now_ms i [] = ([], [])"
| "validate_all X now_ms i (raw # raws) =
     (let (accepted, rejected) = validate_all X now_ms (i + 1) raws
      in case validate X raw now_ms of
           Inr v \<Rightarrow> (v # accepted, rejected)
         | Inl e \<Rightarrow> (accepted, \<lparr>rej_index = i, rej_reason = validation_error_message e\<rparr> # rejected))"

text \<open>
  \<open>append_validated\<close> on a blocking thread. The task may never run, or panic where it takes the buffer's
  lock, after the log has the batch; \<open>None\<close> is the \<open>JoinError\<close> of either. A panic at the log's lock leaves
  everything as it was, as a task that never ran does.
\<close>

datatype task_end = Completes | NeverRuns | PanicsAtBuffer

definition spawn_append :: "externals \<Rightarrow> append_io \<Rightarrow> task_end \<Rightarrow> validated_sample list \<Rightarrow> service
    \<Rightarrow> (service_error + nat) option \<times> service" where
  "spawn_append X io task samples st =
     (case task of
        Completes \<Rightarrow> (let (r, st) = append_validated X io samples st in (Some r, st))
      | NeverRuns \<Rightarrow> (None, st)
      | PanicsAtBuffer \<Rightarrow>
          (case append_wal X io samples st of
             (Inl e, st) \<Rightarrow> (Some (Inl e), st)
           | (Inr _, st) \<Rightarrow> (None, st)))"

definition run_ingest :: "externals \<Rightarrow> error_text \<Rightarrow> int \<Rightarrow> task_end \<Rightarrow> append_io \<Rightarrow> raw_sample list \<Rightarrow> service
    \<Rightarrow> (api_error + ingest_response) \<times> service" where
  "run_ingest X txt now_ms task io samples st =
     (case check_backpressure st of
        Inl reason \<Rightarrow> (Inl \<lparr>ae_status = Unavailable503, ae_message = reason\<rparr>, st)
      | Inr _ \<Rightarrow>
          (let (accepted, rejected) = validate_all X now_ms 0 samples;
               response = \<lparr>ir_accepted = length accepted, ir_rejected = rejected\<rparr>
           in if accepted \<noteq> [] then
                (case spawn_append X io task accepted st of
                   (None, st) \<Rightarrow> (Inl (api_internal ''ingest task join''), st)
                 | (Some (Inl e), st) \<Rightarrow> (Inl (api_internal (''ingest: '' @ txt e)), st)
                 | (Some (Inr _), st) \<Rightarrow> (Inr response, st))
              else (Inr response, st)))"

section \<open>Remote write\<close>

text \<open>Returns the status of the empty response. The decoding task has no effect, so its panic is a task that never ran.\<close>

definition run_remote_write :: "rw_codec \<Rightarrow> externals \<Rightarrow> error_text \<Rightarrow> int \<Rightarrow> bool \<times> task_end \<Rightarrow> append_io \<Rightarrow> bytes \<Rightarrow> service
    \<Rightarrow> (api_error + status) \<times> service" where
  "run_remote_write C X txt now_ms joins io body st =
     (case check_backpressure st of
        Inl reason \<Rightarrow> (Inl \<lparr>ae_status = Unavailable503, ae_message = reason\<rparr>, st)
      | Inr _ \<Rightarrow>
     if \<not> fst joins then (Inl (api_internal ''remote_write task join''), st)
     else case decode_write_request C body of
        Inl e \<Rightarrow> (Inl (api_bad_request ''remote_write decode''), st)
      | Inr req \<Rightarrow>
          (let (raws, conv_stats) = flatten_write_request req;
               accepted = fst (validate_all X now_ms 0 raws)
           in if accepted \<noteq> [] then
                (case spawn_append X io (snd joins) accepted st of
                   (None, st) \<Rightarrow> (Inl (api_internal ''remote_write ingest task join''), st)
                 | (Some (Inl e), st) \<Rightarrow> (Inl \<lparr>ae_status = Unavailable503, ae_message = ''remote_write ingest: '' @ txt e\<rparr>, st)
                 | (Some (Inr _), st) \<Rightarrow> (Inr NoContent204, st))
              else (Inr NoContent204, st)))"

section \<open>The SQL endpoint's row cap\<close>

definition default_max_rows :: nat where
  "default_max_rows = 100000"

text \<open>A record batch is the list of its rows; \<open>slice(0, n)\<close> is its prefix.\<close>

fun trim_batches :: "nat \<Rightarrow> 'r list list \<Rightarrow> nat \<Rightarrow> 'r list list \<times> nat \<times> bool" where
  "trim_batches max_rows [] row_count = ([], row_count, False)"
| "trim_batches max_rows (batch # batches) row_count =
     (let need = max_rows - row_count
      in if need = 0 then ([], row_count, True)
         else if need < length batch then ([take need batch], row_count + need, True)
         else let (trimmed, n, truncated) = trim_batches max_rows batches (row_count + length batch)
              in (batch # trimmed, n, truncated))"

record 'r sql_response =
  sr_rows :: "'r list"
  sr_row_count :: nat
  sr_truncated :: bool

datatype 'r sql_outcome = PlanError | ExecError | Batches "'r list list"

text \<open>DataFusion's answer to the statement is an argument.\<close>

definition run_sql :: "nat \<Rightarrow> 'r sql_outcome \<Rightarrow> api_error + 'r sql_response" where
  "run_sql max_rows outcome =
     (case outcome of
        PlanError \<Rightarrow> Inl (api_bad_request ''sql parse/plan'')
      | ExecError \<Rightarrow> Inl (api_bad_request ''sql execute'')
      | Batches batches \<Rightarrow>
          (let (trimmed, row_count, truncated) = trim_batches max_rows batches 0
           in Inr \<lparr>sr_rows = concat trimmed, sr_row_count = row_count, sr_truncated = truncated\<rparr>))"

section \<open>Properties\<close>

definition accepted_of :: "externals \<Rightarrow> int \<Rightarrow> raw_sample \<Rightarrow> validated_sample list" where
  "accepted_of X now raw = (case validate X raw now of Inr v \<Rightarrow> [v] | Inl _ \<Rightarrow> [])"

lemma validate_all_accepted: "fst (validate_all X now i raws) = concat (map (accepted_of X now) raws)"
  by (induction raws arbitrary: i) (auto simp: accepted_of_def case_prod_unfold Let_def split: sum.split)

lemma validate_all_rejected:
  "r \<in> set (snd (validate_all X now i raws)) \<longleftrightarrow>
     (\<exists>k < length raws. \<exists>e. validate X (raws ! k) now = Inl e \<and>
        r = \<lparr>rej_index = i + k, rej_reason = validation_error_message e\<rparr>)"
proof (induction raws arbitrary: i)
  case Nil
  then show ?case by simp
next
  case (Cons raw raws)
  have "(\<exists>k < length (raw # raws). \<exists>e. validate X ((raw # raws) ! k) now = Inl e \<and>
        r = \<lparr>rej_index = i + k, rej_reason = validation_error_message e\<rparr>) \<longleftrightarrow>
      (\<exists>e. validate X raw now = Inl e \<and> r = \<lparr>rej_index = i, rej_reason = validation_error_message e\<rparr>) \<or>
      (\<exists>k < length raws. \<exists>e. validate X (raws ! k) now = Inl e \<and>
        r = \<lparr>rej_index = (i + 1) + k, rej_reason = validation_error_message e\<rparr>)"
    by (simp add: Ex_less_Suc2)
  with Cons [of "i + 1"] show ?case
    by (auto simp: case_prod_unfold Let_def split: sum.splits)
qed

lemma validate_all_total:
  "length (fst (validate_all X now i raws)) + length (snd (validate_all X now i raws)) = length raws"
  by (induction raws arbitrary: i) (auto simp: case_prod_unfold Let_def split: sum.split)

text \<open>What a task that appends may leave behind.\<close>

lemma spawn_append_ok:
  assumes "spawn_append X io task ss st = (Some (Inr n), st')"
  shows "service_rows st' = service_rows st + mset (map row_of ss)"
  using assms append_validated_rows [of X io ss st n st']
  by (auto simp: spawn_append_def Let_def split: task_end.splits prod.splits sum.splits)

lemma spawn_append_error:
  assumes "spawn_append X io task ss st = (r, st')" "\<And>n. r \<noteq> Some (Inr n)"
  shows "sv_tables st' = sv_tables st \<and> sv_buffer st' = sv_buffer st \<and> (st' = st \<or> st' = snd (append_wal X io ss st))"
  using assms append_wal_frame [of X io ss st]
  by (auto simp: spawn_append_def append_validated_def Let_def split: task_end.splits prod.splits sum.splits)

text \<open>
  (C26) An ingest request answered with success stores exactly the samples of the request that
  validate, in the buffer, and reports the others, each with its index and reason; accepted and
  rejected add up to the request. A request answered with an error leaves the tables and the buffer as
  they were; the log is as it was or as the append of the valid samples left it. A sync or rotation that
  fails, and a panic behind the append, leave the whole record there, and the next start replays it:
  \<open>errored_ingest_comes_back\<close>.
\<close>

theorem run_ingest_accounts:
  "case run_ingest X txt now task io samples st of
     (Inl e, st') \<Rightarrow> sv_tables st' = sv_tables st \<and> sv_buffer st' = sv_buffer st \<and>
        (st' = st \<or> st' = snd (append_wal X io (concat (map (accepted_of X now) samples)) st)) \<and>
        ae_status e \<in> {InternalError500, Unavailable503}
   | (Inr resp, st') \<Rightarrow>
        service_rows st' = service_rows st + mset (map row_of (concat (map (accepted_of X now) samples))) \<and>
        ir_accepted resp + length (ir_rejected resp) = length samples \<and>
        (\<forall>r. r \<in> set (ir_rejected resp) \<longleftrightarrow>
           (\<exists>k < length samples. \<exists>e. validate X (samples ! k) now = Inl e \<and>
              r = \<lparr>rej_index = k, rej_reason = validation_error_message e\<rparr>))"
proof -
  obtain ok rej where v: "validate_all X now 0 samples = (ok, rej)" by (cases "validate_all X now 0 samples")
  have ok: "concat (map (accepted_of X now) samples) = ok"
    using validate_all_accepted [of X now 0 samples] by (simp add: v)
  have tot: "length ok + length rej = length samples"
    using validate_all_total [of X now 0 samples] by (simp add: v)
  have rj: "r \<in> set rej \<longleftrightarrow> (\<exists>k < length samples. \<exists>e. validate X (samples ! k) now = Inl e \<and>
      r = \<lparr>rej_index = k, rej_reason = validation_error_message e\<rparr>)" for r
    using validate_all_rejected [of r X now 0 samples] by (simp add: v)
  obtain r t where a: "spawn_append X io task ok st = (r, t)" by (cases "spawn_append X io task ok st")
  consider (full) reason where "check_backpressure st = Inl reason" | (none) "check_backpressure st = Inr ()" "ok = []"
    | (task) "check_backpressure st = Inr ()" "ok \<noteq> []"
    by (cases "check_backpressure st") auto
  then show ?thesis
  proof cases
    case full
    then show ?thesis by (simp add: run_ingest_def)
  next
    case none
    then show ?thesis using tot rj unfolding ok by (simp add: run_ingest_def v)
  next
    case task
    then show ?thesis
      using a tot rj spawn_append_ok [of X io task ok st _ t] spawn_append_error [OF a] unfolding ok
      by (auto simp: run_ingest_def v api_internal_def split: option.split sum.split)
  qed
qed

text \<open>
  (C27) A remote-write body answered with success stores exactly the valid samples of the named series
  it decodes to; answered with an error, it leaves the tables and the buffer as they were, and the log as it
  was or as the append of those samples left it, from where the next start may replay them.
\<close>

theorem run_remote_write_accounts:
  "case run_remote_write C X txt now joins io body st of
     (Inl e, st') \<Rightarrow> sv_tables st' = sv_tables st \<and> sv_buffer st' = sv_buffer st \<and>
        (st' = st \<or>
         (\<exists>req. decode_write_request C body = Inr req \<and>
            st' = snd (append_wal X io (concat (map (accepted_of X now) (fst (flatten_write_request req)))) st)))
   | (Inr s, st') \<Rightarrow> s = NoContent204 \<and>
        (\<exists>req. decode_write_request C body = Inr req \<and>
           service_rows st' = service_rows st +
             mset (map row_of (concat (map (accepted_of X now) (fst (flatten_write_request req))))))"
proof -
  obtain decodes task where j: "joins = (decodes, task)" by (cases joins)
  consider (full) reason where "check_backpressure st = Inl reason" | (lost) "check_backpressure st = Inr ()" "\<not> decodes"
    | (bad) e where "check_backpressure st = Inr ()" "decodes" "decode_write_request C body = Inl e"
    | (good) req where "check_backpressure st = Inr ()" "decodes" "decode_write_request C body = Inr req"
    by (cases "check_backpressure st"; cases "decode_write_request C body") auto
  then show ?thesis
  proof cases
    case good
    let ?ok = "concat (map (accepted_of X now) (fst (flatten_write_request req)))"
    have ok: "fst (validate_all X now 0 (fst (flatten_write_request req))) = ?ok" by (rule validate_all_accepted)
    obtain r t where a: "spawn_append X io task ?ok st = (r, t)" by (cases "spawn_append X io task ?ok st")
    show ?thesis
    proof (cases "?ok = []")
      case True
      then show ?thesis using good by (auto simp: run_remote_write_def j case_prod_unfold Let_def ok)
    next
      case False
      then show ?thesis
        using good a spawn_append_ok [of X io task ?ok st _ t] spawn_append_error [OF a]
        by (auto simp: run_remote_write_def j case_prod_unfold Let_def ok split: option.split sum.split)
    qed
  qed (simp_all add: run_remote_write_def j)
qed

lemma trim_batches_rows:
  "row_count \<le> max_rows \<Longrightarrow>
     concat (fst (trim_batches max_rows bs row_count)) = take (max_rows - row_count) (concat bs) \<and>
     fst (snd (trim_batches max_rows bs row_count)) =
       row_count + length (take (max_rows - row_count) (concat bs)) \<and>
     (max_rows - row_count < length (concat bs) \<longrightarrow> snd (snd (trim_batches max_rows bs row_count))) \<and>
     ((\<forall>b \<in> set bs. b \<noteq> []) \<longrightarrow> snd (snd (trim_batches max_rows bs row_count)) \<longrightarrow>
        max_rows - row_count < length (concat bs))"
proof (induction bs arbitrary: row_count)
  case Nil
  then show ?case by simp
next
  case (Cons b bs)
  consider "max_rows - row_count = 0" | "0 < max_rows - row_count" "max_rows - row_count < length b"
    | "0 < max_rows - row_count" "length b \<le> max_rows - row_count"
    by linarith
  then show ?case
  proof cases
    case 1
    then show ?thesis by simp
  next
    case 2
    then show ?thesis using Cons.prems by simp
  next
    case 3
    then have le: "row_count + length b \<le> max_rows" using Cons.prems by linarith
    note I = Cons.IH [OF le]
    have s: "trim_batches max_rows (b # bs) row_count =
        (let (trimmed, n, truncated) = trim_batches max_rows bs (row_count + length b) in (b # trimmed, n, truncated))"
      using 3 by (simp add: Let_def)
    show ?thesis
      using I 3 le unfolding s by (auto simp: case_prod_unfold Let_def)
  qed
qed

text \<open>
  The SQL response holds the first \<open>max_rows\<close> rows of the result, whatever its batching; the row
  count is their number, a result that was cut is flagged, and when no batch is empty only those are.
\<close>

theorem run_sql_caps:
  assumes "run_sql max_rows (Batches bs) = Inr resp" "\<forall>b \<in> set bs. b \<noteq> []"
  shows "sr_rows resp = take max_rows (concat bs) \<and> sr_row_count resp = length (sr_rows resp) \<and>
    (sr_truncated resp \<longleftrightarrow> max_rows < length (concat bs))"
  using assms trim_batches_rows [of 0 max_rows bs]
  by (auto simp: run_sql_def case_prod_unfold Let_def)

theorem run_sql_caps_witness:
  "\<exists>resp. run_sql 3 (Batches [[1, 2], [3, 4 :: nat]]) = Inr resp \<and> sr_rows resp = [1, 2, 3] \<and> sr_truncated resp"
proof -
  obtain resp where r: "run_sql 3 (Batches [[1, 2], [3, 4 :: nat]]) = Inr resp"
    by (simp add: run_sql_def case_prod_unfold Let_def)
  from run_sql_caps [OF this] r show ?thesis by (simp add: numeral_3_eq_3)
qed

end
