(* ===== verification/Hazards.thy ===== *)
theory Hazards
  imports Durability Handlers
begin

text \<open>
  The histories in which the write path, as it is written, loses or duplicates acknowledged samples.
  Each is a theorem over every batch, encoding and state of the given shape, with a concrete run:
  an append after a torn write, a flush that failed, a flush between the two halves of an append,
  a restart after a flush, and a request answered with an error whose record is in the log.
\<close>

section \<open>Building the concrete runs\<close>

lemma flush_ok_exists:
  assumes "\<not> is_empty (sv_buffer st)"
  shows "\<exists>st'. flush_once \<lparr>fio_samples = Committed 1, fio_series = Committed 1\<rparr> st = (Inr True, st')"
  using assms
  by (cases rule: flush_once_cases [where st = st and io = "\<lparr>fio_samples = Committed 1, fio_series = Committed 1\<rparr>"])
    (auto simp: samples_acked_def series_acked_def)

lemma flush_refused_exists:
  assumes "\<not> is_empty (sv_buffer st)" "bf_by_day (sv_buffer st) \<noteq> []"
  shows "\<exists>e st'. flush_once \<lparr>fio_samples = Refused, fio_series = Refused\<rparr> st = (Inl e, st')"
  using assms
  by (cases rule: flush_once_cases [where st = st and io = "\<lparr>fio_samples = Refused, fio_series = Refused\<rparr>"])
    (auto simp: samples_acked_def)

lemma last_listing: "last (listing fs s) = (s, wal_path s)" "listing fs s \<noteq> []"
  by (simp_all add: listing_def)

lemma filled_buffer:
  assumes "buffer_inv X b" "ss \<noteq> []"
  shows "\<not> is_empty (insert_batch X n ss b)" "bf_by_day (insert_batch X n ss b) \<noteq> []"
proof -
  have r: "buffer_rows (insert_batch X n ss b) \<noteq> {#}" using assms(2) by simp
  then show "\<not> is_empty (insert_batch X n ss b)"
    using buffer_empty_iff [OF insert_batch_simps(1) [OF assms(1)]] by blast
  show "bf_by_day (insert_batch X n ss b) \<noteq> []" using r by (auto simp: buffer_rows_def)
qed

text \<open>The catalog of the runs below, and the flush answers.\<close>

definition demo_catalog :: catalog where
  "demo_catalog = \<lparr>cat_namespaces = [], cat_tables = []\<rparr>"

definition flush_fine :: flush_io where
  "flush_fine = \<lparr>fio_samples = Committed 1, fio_series = Committed 1\<rparr>"

definition flush_refused :: flush_io where
  "flush_refused = \<lparr>fio_samples = Refused, fio_series = Refused\<rparr>"

lemma open_again:
  "wal_rep X (w, d) fs rs t \<Longrightarrow> \<exists>st. app_open X (\<lambda>_. False) True True demo_catalog wh d = Inr st"
  unfolding wal_rep_def fst_conv snd_conv by (blast intro: app_open_exists)

lemma demo_batches_nonempty: "demo_batch \<noteq> []" "demo_batch2 \<noteq> []"
  by (simp_all add: demo_batch_def demo_batch2_def)

lemma demo_rows: "mset (map row_of demo_batch) = {#(7, 1000000, Num 1)#}"
  "mset (map row_of demo_batch2) = {#(8, 2000000, Num 2)#}"
  by (simp_all add: demo_batch_def demo_batch2_def row_of_def)

section \<open>Appending behind a torn frame\<close>

lemma append_behind_torn:
  assumes "wal_rep X (w, d) fs rs (take k (frame X n p))" "n < 2 ^ 64" "length p < 2 ^ 32" "wal_room (w, d) q"
    "header_bytes \<le> k" "k + header_bytes + length q < header_bytes + length p"
    "ww_file_bytes w + header_bytes + length q < ww_rotation_bytes w"
  obtains d' where "snd (snd (wal_append X IoOk q (w, d))) = d'"
    "wal_shape X d' fs (ww_file_seq w) rs (take k (frame X n p) @ frame X (ww_next_record_seq w) q)"
    "fst (replay X d') = log_of fs rs"
proof -
  let ?m = "ww_next_record_seq w"
  let ?t = "take k (frame X n p)"
  have sh: "wal_shape X d fs (ww_file_seq w) rs ?t" and f: "ww_file w = wal_path (ww_file_seq w)"
    using assms(1) by (simp_all add: wal_rep_def)
  have ap: "snd (snd (wal_append X IoOk q (w, d))) = fs_append (wal_path (ww_file_seq w)) (frame X ?m q) d"
    using assms(4,7) by (simp add: wal_append_def Let_def wal_room_def length_frame f)
  note sh' = shape_append [OF sh, of "frame X ?m q"]
  have "read_frame X (?t @ frame X ?m q) = FTorn n (length p)"
    using assms(2-6) by (intro read_frame_torn) (simp_all add: length_frame)
  then have "fst (read_all X [] (Some (?t @ frame X ?m q))) = []" by (simp add: read_all_FTorn)
  then have "fst (replay X (fs_append (wal_path (ww_file_seq w)) (frame X ?m q) d)) = log_of fs rs"
    using replay_shape [OF sh'] by (simp add: log_of_def)
  with that ap sh' show thesis by blast
qed

text \<open>
  A torn frame is never repaired. After a crash that cut an append short past its header, the
  restarted server acknowledges a smaller batch; a second crash and restart comes back with exactly
  the rows of the first restart, without the batch.
\<close>

theorem torn_restart_loses_next_ack:
  assumes "wal_good X (sv_wal st)" "wal_room (sv_wal st) p" "header_bytes \<le> k"
    "app_open X cf ok q c (sv_tables st) (snd (snd (wal_append X (WriteFails k) p (sv_wal st)))) = Inr st1"
    "json_of_samples X ss = Some p1" "wal_room (sv_wal st1) p1"
    "k + header_bytes + length p1 < header_bytes + length p"
    "ww_file_bytes (fst (sv_wal st1)) + header_bytes + length p1 < ww_rotation_bytes (fst (sv_wal st1))"
    "append_validated X IoOk ss st1 = (Inr n, st2)"
    "app_open X cf' ok' q' c' (sv_tables st2) (snd (sv_wal st2)) = Inr st3"
  shows "service_rows st2 = service_rows st1 + mset (map row_of ss) \<and> service_rows st3 = service_rows st1"
proof -
  let ?s = "sv_wal st" and ?n = "ww_next_record_seq (fst (sv_wal st))"
  let ?t = "take k (frame X ?n p)" and ?d = "snd (snd (wal_append X (WriteFails k) p (sv_wal st)))"
  obtain fs rs where r: "wal_rep X ?s fs rs []" using assms(1) by (auto simp: wal_good_def)
  have rep: "wal_rep X (snd (wal_append X (WriteFails k) p ?s)) fs rs ?t"
    by (rule failed_append_rep(2) [OF r assms(2)])
  have lim: "?n < 2 ^ 64" "length p < 2 ^ 32" "\<forall>r \<in> set (log_of fs rs). wr_seq r + 1 < 2 ^ 64"
    using assms(2) r by (auto simp: wal_room_def wal_rep_def)
  have torn: "torn_tail X ?t" using assms(7) lim by (intro torn_prefix) simp_all
  have rep': "wal_shape X ?d fs (ww_file_seq (fst (snd (wal_append X (WriteFails k) p ?s)))) rs ?t"
    "sorted_wrt (<) (map wr_seq (log_of fs rs))"
    using rep by (simp_all add: wal_rep_def)
  note O = app_open_shape [OF rep'(1) torn rep'(2) lim(3) assms(4)]
  obtain w d where s1: "sv_wal st1 = (w, d)" by (cases "sv_wal st1")
  have w1: "wal_rep X (w, d) fs rs ?t" using O unfolding s1 by blast
  obtain d' where d': "snd (snd (wal_append X IoOk p1 (w, d))) = d'"
    "wal_shape X d' fs (ww_file_seq w) rs (?t @ frame X (ww_next_record_seq w) p1)"
    "fst (replay X d') = log_of fs rs"
    using append_behind_torn [OF w1 lim(1,2), of p1] assms(3,6,7,8) by (auto simp: s1)
  have w2: "snd (sv_wal st2) = d'" "sv_tables st2 = sv_tables st1"
    using assms(5,9) d'(1) by (auto simp: append_validated_def append_wal_def s1 case_prod_unfold Let_def split: sum.splits)
  have op: "app_open X cf' ok' q' c' (sv_tables st2) d' = Inr st3" using assms(10) w2 by simp
  have "service_rows st3 = service_rows st1"
    using app_open_replay [OF d'(2) op] O w2 by (simp add: service_rows_def d'(3))
  then show ?thesis using append_validated_rows [OF assms(9)] by simp
qed

theorem torn_restart_loses_next_ack_witness:
  "\<exists>st1 st2 st3. append_validated demo_codec IoOk demo_batch2 st1 = (Inr 1, st2) \<and>
     app_open demo_codec (\<lambda>_. False) True True demo_catalog (sv_tables st2) (snd (sv_wal st2)) = Inr st3 \<and>
     service_rows st2 = {#(8, 2000000, Num 2)#} \<and> service_rows st3 = {#}"
proof -
  let ?st = "fresh_service 500" and ?p = "replicate 100 1 :: bytes"
  let ?d = "snd (snd (wal_append demo_codec (WriteFails 50) ?p (sv_wal ?st)))"
  have room: "wal_room (sv_wal ?st) ?p" by (rule fresh_room) simp
  let ?t = "take 50 (frame demo_codec 1 ?p)"
  have rep: "wal_rep demo_codec (snd (wal_append demo_codec (WriteFails 50) ?p (sv_wal ?st))) [] [] ?t"
    using failed_append_rep(2) [OF fresh_rep room, of demo_codec 50] by (simp add: fresh_simps)
  have torn: "torn_tail demo_codec ?t" by (rule torn_prefix) (simp_all add: header_bytes_def)
  have f: "fst (snd (wal_append demo_codec (WriteFails 50) ?p (sv_wal ?st))) = fst (sv_wal ?st)"
    using failed_append_rep(1) [OF fresh_rep room, of demo_codec 50] by simp
  have sh: "wal_shape demo_codec ?d [] 0 [] ?t" using rep by (simp add: wal_rep_def f) (simp add: fresh_service_def)
  obtain st1 where o1: "app_open demo_codec (\<lambda>_. False) True True demo_catalog (sv_tables ?st) ?d = Inr st1"
    using app_open_exists [OF sh] unfolding demo_catalog_def by blast
  have st1: "wal_rep demo_codec (sv_wal st1) [] [] ?t" "snd (sv_wal st1) = ?d"
    "service_rows st1 = {#}"
    using app_open_shape [OF sh torn _ _ o1] by (simp_all add: log_of_def replayed_def service_rows_def fresh_simps)
  have w: "fst (sv_wal st1) = \<lparr>ww_file = wal_path 0, ww_file_seq = 0, ww_file_bytes = length ?t,
      ww_next_record_seq = 1, ww_rotation_bytes = default_rotation_bytes\<rparr>"
  proof -
    have dn: "next_after ?d (listing [] 0) = 1"
      using shape_read(1) [OF sh] torn_tail_scan [OF torn]
      by (simp add: next_after_def listing_def scan_max_record_seq_def u64_succ_def)
    have "wal_open ?d = Inr (\<lparr>ww_file = wal_path 0, ww_file_seq = 0, ww_file_bytes = length ?t,
        ww_next_record_seq = 1, ww_rotation_bytes = default_rotation_bytes\<rparr>, ?d)"
      using shape_read(1) [OF sh] last_listing [of "[]" 0]
      by (simp add: wal_open_def open_with_rotation_def list_wal_files_shape [OF sh] shape_create_same [OF sh]
          Let_def dn)
    then show ?thesis
      using o1 by (auto simp: app_open_def ingest_open_def split: sum.splits prod.splits)
  qed
  have room1: "wal_room (sv_wal st1) [2]" by (simp add: wal_room_def w)
  have lt: "length ?t = 50" by (simp add: length_frame header_bytes_def)
  obtain n st2 where a: "append_validated demo_codec IoOk demo_batch2 st1 = (Inr n, st2)" "n = 1"
  proof -
    have "wal_append demo_codec IoOk [2] (sv_wal st1) = (Inr 1, snd (wal_append demo_codec IoOk [2] (sv_wal st1)))"
      using w by (cases "sv_wal st1") (simp add: wal_append_def Let_def)
    then have "fst (wal_append demo_codec IoOk [2] (sv_wal st1)) = Inr 1" by (metis fst_conv)
    then show thesis using that by (simp add: append_validated_def append_wal_def case_prod_unfold Let_def)
  qed
  obtain w1 d1 where s1: "sv_wal st1 = (w1, d1)" by (cases "sv_wal st1")
  obtain d' where d': "snd (snd (wal_append demo_codec IoOk [2] (w1, d1))) = d'"
    "wal_shape demo_codec d' [] (ww_file_seq w1) [] (?t @ frame demo_codec (ww_next_record_seq w1) [2])"
    "fst (replay demo_codec d') = log_of [] []"
    using append_behind_torn [of demo_codec w1 d1 "[]" "[]" 50 1 ?p "[2]"] st1(1) room1 w lt
    by (auto simp: s1 header_bytes_def default_rotation_bytes_def)
  have "snd (sv_wal st2) = d'"
    using a d'(1) by (auto simp: append_validated_def append_wal_def s1 case_prod_unfold Let_def split: sum.splits)
  then obtain st3 where o3: "app_open demo_codec (\<lambda>_. False) True True demo_catalog (sv_tables st2) (snd (sv_wal st2)) = Inr st3"
    using app_open_exists [OF d'(2)] unfolding demo_catalog_def by blast
  have c: "service_rows st2 = service_rows st1 + mset (map row_of demo_batch2) \<and> service_rows st3 = service_rows st1"
    by (rule torn_restart_loses_next_ack [OF fresh_good room _ o1 _ room1 _ _ a(1) o3])
      (simp_all add: header_bytes_def w lt default_rotation_bytes_def)
  show ?thesis using a o3 c [unfolded demo_rows st1(3)] by auto
qed

section \<open>A flush between two appends\<close>

lemma flush_acked:
  assumes "flush_once io st = (Inr True, st')"
  shows "sv_tables st' = snd (flush io (fst (take_snapshot (sv_buffer st))) (sv_tables st))"
    and "sv_buffer st' = snd (take_snapshot (sv_buffer st))"
    and "warehouse_rows (sv_tables st') = warehouse_rows (sv_tables st) + buffer_rows (sv_buffer st)"
    and "0 < bf_max_seq (sv_buffer st) \<Longrightarrow>
      sv_wal st' = snd (truncate_through (bf_max_seq (sv_buffer st)) (sv_wal st))"
    and "warehouse_series (sv_tables st') = warehouse_series (sv_tables st) @ registered (bf_new_series (sv_buffer st))"
proof -
  let ?sn = "fst (take_snapshot (sv_buffer st))"
  have a: "samples_acked io ?sn" "series_acked io ?sn"
    "st' = flush_truncate (bf_max_seq (sv_buffer st)) (st\<lparr>sv_buffer := snd (take_snapshot (sv_buffer st)),
       sv_tables := snd (flush io ?sn (sv_tables st))\<rparr>)"
    using assms by (cases rule: flush_once_cases [where st = st and io = io]; simp)+
  show t: "sv_tables st' = snd (flush io ?sn (sv_tables st))"
    and "sv_buffer st' = snd (take_snapshot (sv_buffer st))" by (simp_all add: a(3))
  show "warehouse_rows (sv_tables st') = warehouse_rows (sv_tables st) + buffer_rows (sv_buffer st)"
    using a(1) by (auto simp: t flush_rows samples_acked_def buffer_rows_def)
  show "warehouse_series (sv_tables st') = warehouse_series (sv_tables st) @ registered (bf_new_series (sv_buffer st))"
    using a(1,2) by (auto simp: t flush_series_rows series_acked_def registered_def)
  show "sv_wal st' = snd (truncate_through (bf_max_seq (sv_buffer st)) (sv_wal st))"
    if "0 < bf_max_seq (sv_buffer st)" using that by (simp add: a(3) flush_truncate_def)
qed

text \<open>
  Two appends to a fresh log, the first of which fills its file, then a truncation through the
  second: no record but the second can be left.
\<close>

lemma truncated_first:
  assumes "length p1 < 2 ^ 32" "length p2 < 2 ^ 32" "R \<le> header_bytes + length p1"
  shows "let s1 = snd (wal_append X IoOk p1 (sv_wal (fresh_service R))); s2 = snd (wal_append X IoOk p2 s1);
      s3 = snd (truncate_through 2 s2)
    in wal_good X s1 \<and> wal_room s1 p2 \<and> ww_next_record_seq (fst s1) = 2 \<and> wal_good X s2 \<and>
       (\<exists>w d fs rs. s3 = (w, d) \<and> wal_rep X (w, d) fs rs [] \<and> set (log_of fs rs) \<subseteq> {\<lparr>wr_seq = 2, wr_payload = p2\<rparr>})"
proof -
  obtain w d where s: "sv_wal (fresh_service R) = (w, d)" by (cases "sv_wal (fresh_service R)")
  have w: "ww_next_record_seq w = 1" "ww_rotation_bytes w = R" "ww_file_bytes w = 0" "ww_file_seq w = 0"
    using fresh_simps(3,4,5) [of R] s by (auto simp: fresh_service_def)
  have room: "wal_room (w, d) p1" using fresh_room [OF assms(1), of R] by (simp add: s)
  note A1 = append_rep [OF fresh_rep [of X R, unfolded s] room]
  let ?s1 = "snd (wal_append X IoOk p1 (w, d))"
  have f1: "append_files w [] [] p1 = ([(0, [\<lparr>wr_seq = 1, wr_payload = p1\<rparr>])], [])"
    using assms(3) by (simp add: append_files_def w)
  obtain w1 d1 where s1: "?s1 = (w1, d1)" by (cases ?s1)
  have sq: "ww_file_seq w1 = 1"
    using s1 assms(1,3) by (auto simp: wal_append_def w Let_def length_frame rotate_def u64_succ_def split: if_splits)
  have n1: "ww_next_record_seq w1 = 2" using A1(2) by (simp add: s1 w)
  have r1: "wal_rep X (w1, d1) [(0, [\<lparr>wr_seq = 1, wr_payload = p1\<rparr>])] [] []"
    using A1(3) by (simp add: f1 s1)
  have room1: "wal_room (w1, d1) p2" using assms(2) n1 sq by (simp add: wal_room_def)
  note A2 = append_rep [OF r1 room1]
  let ?s2 = "snd (wal_append X IoOk p2 (w1, d1))"
  obtain w2 d2 where s2: "?s2 = (w2, d2)" by (cases ?s2)
  let ?fs = "fst (append_files w1 [(0, [\<lparr>wr_seq = 1, wr_payload = p1\<rparr>])] [] p2)"
  let ?rs = "snd (append_files w1 [(0, [\<lparr>wr_seq = 1, wr_payload = p1\<rparr>])] [] p2)"
  have r2: "wal_rep X (w2, d2) ?fs ?rs []" using A2(3) by (simp add: s2)
  have "set (log_of (filter (\<lambda>p. \<not> flushed_file 2 p) ?fs) ?rs) \<subseteq> {\<lparr>wr_seq = 2, wr_payload = p2\<rparr>}"
    by (auto simp: append_files_def Let_def n1 log_of_def flushed_file_def split: if_splits)
  with truncate_rep(3) [OF r2, of 2] have "\<exists>w d fs rs. snd (truncate_through 2 (w2, d2)) = (w, d) \<and>
      wal_rep X (w, d) fs rs [] \<and> set (log_of fs rs) \<subseteq> {\<lparr>wr_seq = 2, wr_payload = p2\<rparr>}"
    by (cases "snd (truncate_through 2 (w2, d2))") auto
  moreover have "wal_good X (w1, d1)" "wal_good X (w2, d2)" using r1 r2 unfolding wal_good_def by blast+
  ultimately show ?thesis using room1 n1 by (simp add: s s1 s2 Let_def)
qed

lemma restart_from_second:
  assumes "wal_rep X (w, d) fs rs []" "set (log_of fs rs) \<subseteq> {\<lparr>wr_seq = 2, wr_payload = p2\<rparr>}"
    "samples_of_json X p2 = Some ss2" "app_open X cf ok q c wh d = Inr st'"
  shows "set_mset (service_rows st') \<subseteq> set_mset (warehouse_rows wh) \<union> set (map row_of ss2)"
proof -
  have sh: "wal_shape X d fs (ww_file_seq w) rs []" using assms(1) by (simp add: wal_rep_def)
  have "fst (replay X d) = log_of fs rs" using rep_replay [OF assms(1)] by simp
  then have "set (replayed X (fst (replay X d))) \<subseteq> set ss2"
    using assms(2,3) by (auto simp: replayed_def)
  then show ?thesis
    using app_open_replay [OF sh assms(4)] by (auto simp: service_rows_def)
qed





section \<open>Series that are never registered\<close>

text \<open>
  A failed flush also unregisters series: the ids of its snapshot count as known although no
  series row was written, so when samples of such a series are flushed later, they reach the samples
  table with no entry in the series table to join them to.
\<close>

theorem failed_flush_orphans_series:
  assumes "buffer_inv X (sv_buffer st)" "sid \<in> fst ` set_mset (buffer_rows (sv_buffer st))"
    "sid \<notin> fst ` set (warehouse_series (sv_tables st))"
    "flush_once io1 st = (Inl e, st1)" "fio_samples io1 = Refused"
    "sid \<in> vs_series_id ` set ss"
    "flush_once io2 (append_buffer X n ss st1) = (Inr True, st2)"
  shows "sid \<in> fst ` set_mset (warehouse_rows (sv_tables st2)) \<and>
    sid \<notin> fst ` set (warehouse_series (sv_tables st2))"
proof -
  have f: "\<not> is_empty (sv_buffer st)" "sv_buffer st1 = snd (take_snapshot (sv_buffer st))"
    "sv_tables st1 = snd (flush io1 (fst (take_snapshot (sv_buffer st))) (sv_tables st))"
    "\<not> (samples_acked io1 (fst (take_snapshot (sv_buffer st))) \<and> series_acked io1 (fst (take_snapshot (sv_buffer st))))"
    using assms(4) by (cases rule: flush_once_cases [where st = st and io = io1]; auto)+
  have "sn_by_day (fst (take_snapshot (sv_buffer st))) \<noteq> []"
    using assms(2) by (auto simp: buffer_rows_def)
  then have ns: "\<not> samples_acked io1 (fst (take_snapshot (sv_buffer st)))"
    using assms(5) by (simp add: samples_acked_def)
  have ser1: "warehouse_series (sv_tables st1) = warehouse_series (sv_tables st)"
    by (simp add: f(3) flush_series_rows ns)
  have new0: "fst ` set (bf_new_series (sv_buffer st)) = fst ` set_mset (buffer_rows (sv_buffer st)) - bf_known (sv_buffer st)"
    using assms(1) by (simp only: buffer_inv_def)
  have known: "sid \<in> bf_known (sv_buffer st1)"
    using assms(2) new0 by (auto simp: f(2))
  let ?b = "sv_buffer (append_buffer X n ss st1)"
  have bi: "buffer_inv X ?b" using buffer_inv_take [of X "sv_buffer st"] by (simp add: f(2))
  have "fst ` set (bf_new_series ?b) = fst ` set_mset (buffer_rows ?b) - bf_known ?b"
    using bi by (simp only: buffer_inv_def)
  moreover have "bf_known ?b = bf_known (sv_buffer st1)" by simp
  ultimately have "sid \<notin> fst ` set (bf_new_series ?b)" using known by blast
  then have no: "sid \<notin> fst ` set (registered (bf_new_series ?b))" unfolding fst_registered .
  note F = flush_acked [OF assms(7)]
  have "sid \<in> fst ` set_mset (buffer_rows ?b)" using assms(6) by (force simp: row_of_def)
  then have "sid \<in> fst ` set_mset (warehouse_rows (sv_tables st2))" unfolding F(3) by (simp add: image_Un)
  moreover have "sid \<notin> fst ` set (warehouse_series (sv_tables st2))"
    using assms(3) ser1 no unfolding F(5) by (simp add: image_Un)
  ultimately show ?thesis by blast
qed

theorem failed_flush_orphans_series_witness:
  "\<exists>st1 st2. flush_once flush_fine (append_buffer demo_codec 2 demo_batch st1) = (Inr True, st2) \<and>
     7 \<in> fst ` set_mset (warehouse_rows (sv_tables st2)) \<and> 7 \<notin> fst ` set (warehouse_series (sv_tables st2))"
proof -
  let ?X = demo_codec
  let ?st = "append_buffer ?X 1 demo_batch (fresh_service 50)"
  have bi: "buffer_inv ?X (sv_buffer ?st)" using fresh_simps(2) by simp
  obtain e st1 where f1: "flush_once flush_refused ?st = (Inl e, st1)"
    using flush_refused_exists [of ?st] filled_buffer [OF fresh_simps(2) demo_batches_nonempty(1)]
    unfolding flush_refused_def by (auto simp del: One_nat_def)
  have b1: "sv_buffer st1 = snd (take_snapshot (sv_buffer ?st))"
    using f1 by (cases rule: flush_once_cases [where st = ?st and io = flush_refused]; auto)+
  have bi1: "buffer_inv ?X (sv_buffer st1)" by (simp only: b1 buffer_inv_take)
  obtain st2 where f2: "flush_once flush_fine (append_buffer ?X 2 demo_batch st1) = (Inr True, st2)"
    using flush_ok_exists [of "append_buffer ?X 2 demo_batch st1"] filled_buffer(1) [OF bi1 demo_batches_nonempty(1)]
    unfolding flush_fine_def by auto
  have m: "7 \<in> fst ` set_mset (buffer_rows (sv_buffer ?st))" "(7 :: int) \<in> vs_series_id ` set demo_batch"
    by (simp_all add: demo_batch_def row_of_def)
  have "7 \<in> fst ` set_mset (warehouse_rows (sv_tables st2)) \<and> 7 \<notin> fst ` set (warehouse_series (sv_tables st2))"
    by (rule failed_flush_orphans_series [OF bi m(1) _ f1 _ m(2) f2]) (simp_all add: fresh_simps flush_refused_def)
  with f2 show ?thesis by blast
qed

section \<open>Duplicates after a restart\<close>

text \<open>
  A flush does not shorten the log file being written, so a restart replays records that were
  already flushed: the next flush stores each of their samples a second time.
\<close>

theorem restart_duplicates_flushed:
  assumes "json_of_samples X ss = Some p" "header_bytes + length p < R" "length p < 2 ^ 32" "json_exact X ss"
    "append_validated X IoOk ss (fresh_service R) = (Inr n, st1)"
    "flush_once io1 st1 = (Inr True, st2)"
    "app_open X cf ok q c (sv_tables st2) (snd (sv_wal st2)) = Inr st3"
    "flush_once io2 st3 = (Inr True, st4)"
  shows "warehouse_rows (sv_tables st2) = mset (map row_of ss) \<and>
    warehouse_rows (sv_tables st4) = mset (map row_of ss) + mset (map row_of ss)"
proof -
  let ?st0 = "fresh_service R"
  have room0: "wal_room (sv_wal ?st0) p" by (rule fresh_room [OF assms(3)])
  have st1: "st1 = append_buffer X 1 ss (?st0\<lparr>sv_wal := snd (wal_append X IoOk p (sv_wal ?st0))\<rparr>)"
    using append_validated_ok [OF fresh_good assms(1) room0] assms(5) by (simp add: fresh_simps)
  have f0: "buffer_rows (sv_buffer ?st0) = {#}" "bf_max_seq (sv_buffer ?st0) = 0"
    by (simp_all add: fresh_service_def with_known_series_def buffer_rows_def)
  have b1: "buffer_rows (sv_buffer st1) = mset (map row_of ss)" "bf_max_seq (sv_buffer st1) = 1"
    "warehouse_rows (sv_tables st1) = {#}"
    using f0 by (simp_all add: st1 fresh_simps)
  obtain w d where s: "sv_wal ?st0 = (w, d)" by (cases "sv_wal ?st0")
  have w: "ww_next_record_seq w = 1" "ww_rotation_bytes w = R" "ww_file_bytes w = 0"
    using fresh_simps(3,4,5) [of R] s by simp_all
  have files: "append_files w [] [] p = ([], [\<lparr>wr_seq = 1, wr_payload = p\<rparr>])"
    using assms(2) by (simp add: append_files_def w)
  obtain w1 d1 where s1: "sv_wal st1 = (w1, d1)" by (cases "sv_wal st1")
  have r1: "wal_rep X (w1, d1) [] [\<lparr>wr_seq = 1, wr_payload = p\<rparr>] []"
    using append_rep(3) [OF fresh_rep [of X R, unfolded s] room0 [unfolded s]] s1 by (simp add: files st1 s)
  note F = flush_acked [OF assms(6)]
  have rows2: "warehouse_rows (sv_tables st2) = mset (map row_of ss)" using F(3) b1 by simp
  obtain w2 d2 where s2: "sv_wal st2 = (w2, d2)" by (cases "sv_wal st2")
  have r2: "wal_rep X (w2, d2) [] [\<lparr>wr_seq = 1, wr_payload = p\<rparr>] []"
    using truncate_rep(3) [OF r1, of 1] F(4) b1(2) by (simp add: s1 s2)
  have sh: "wal_shape X d2 [] (ww_file_seq w2) [\<lparr>wr_seq = 1, wr_payload = p\<rparr>] []"
    using r2 by (simp add: wal_rep_def)
  have op: "app_open X cf ok q c (sv_tables st2) d2 = Inr st3" using assms(7) s2 by simp
  have "samples_of_json X p = Some ss" using assms(1,4) by (simp add: json_exact_def)
  then have "replayed X (fst (replay X d2)) = ss"
    using rep_replay [OF r2] by (simp add: replayed_def log_of_def)
  then have b3: "buffer_rows (sv_buffer st3) = mset (map row_of ss)" "sv_tables st3 = sv_tables st2"
    using app_open_replay [OF sh op] by simp_all
  show ?thesis
    using rows2 b3 flush_acked(3) [OF assms(8)] by simp
qed

theorem restart_duplicates_flushed_witness:
  "\<exists>st1 st2 st3 st4. append_validated demo_codec IoOk demo_batch (fresh_service 500) = (Inr 1, st1) \<and>
     flush_once flush_fine st1 = (Inr True, st2) \<and>
     app_open demo_codec (\<lambda>_. False) True True demo_catalog (sv_tables st2) (snd (sv_wal st2)) = Inr st3 \<and>
     flush_once flush_fine st3 = (Inr True, st4) \<and>
     warehouse_rows (sv_tables st4) = {#(7, 1000000, Num 1), (7, 1000000, Num 1)#}"
proof -
  let ?X = demo_codec and ?p = "replicate 100 1 :: bytes"
  let ?s0 = "fresh_service 500"
  have room: "wal_room (sv_wal ?s0) ?p" by (rule fresh_room) simp
  let ?st1 = "append_buffer ?X 1 demo_batch (?s0\<lparr>sv_wal := snd (wal_append ?X IoOk ?p (sv_wal ?s0))\<rparr>)"
  have a1: "append_validated ?X IoOk demo_batch ?s0 = (Inr 1, ?st1)"
    using append_validated_ok [OF fresh_good _ room, of ?X demo_batch] by (simp add: fresh_simps)
  obtain st2 where f1: "flush_once flush_fine ?st1 = (Inr True, st2)"
    using flush_ok_exists [of ?st1] filled_buffer(1) [OF fresh_simps(2) demo_batches_nonempty(1)]
    unfolding flush_fine_def by (auto simp del: One_nat_def)
  have good: "wal_good ?X (sv_wal ?st1)" using wl.app_inv [OF fresh_good room] by simp
  have "sv_wal st2 = snd (truncate_through 1 (sv_wal ?st1))"
    using flush_acked(4) [OF f1] by (simp add: fresh_service_def with_known_series_def)
  then have good2: "wal_good ?X (sv_wal st2)" using wl.trunc_inv [OF good, of 1] by simp
  obtain w d where s2: "sv_wal st2 = (w, d)" by (cases "sv_wal st2")
  obtain fs rs where r2: "wal_rep ?X (w, d) fs rs []" using good2 by (auto simp: wal_good_def s2)
  obtain st3 where o: "app_open ?X (\<lambda>_. False) True True demo_catalog (sv_tables st2) (snd (sv_wal st2)) = Inr st3"
    using open_again [OF r2] s2 by auto
  have b3: "buffer_inv ?X (sv_buffer st3) \<and> \<not> is_empty (sv_buffer st3)"
  proof -
    have recs: "wal_recs ?X (sv_wal ?st1) = [\<lparr>wr_seq = 1, wr_payload = ?p\<rparr>]"
      using wl.app_recs [OF fresh_good room, of ?X] by (simp add: fresh_recs fresh_simps)
    have "append_files (fst (sv_wal ?s0)) [] [] ?p = ([], [\<lparr>wr_seq = 1, wr_payload = ?p\<rparr>])"
      by (simp add: append_files_def fresh_simps header_bytes_def)
    then have "wal_rep ?X (sv_wal ?st1) [] [\<lparr>wr_seq = 1, wr_payload = ?p\<rparr>] []"
      using append_rep(3) [of ?X "fst (sv_wal ?s0)" "snd (sv_wal ?s0)" "[]" "[]" ?p] fresh_rep room by simp
    then have "wal_rep ?X (snd (truncate_through 1 (sv_wal ?st1))) [] [\<lparr>wr_seq = 1, wr_payload = ?p\<rparr>] []"
      using truncate_rep(3) [of ?X "fst (sv_wal ?st1)" "snd (sv_wal ?st1)" "[]" _ 1] by simp
    then have r: "wal_rep ?X (w, d) [] [\<lparr>wr_seq = 1, wr_payload = ?p\<rparr>] []"
      using \<open>sv_wal st2 = snd (truncate_through 1 (sv_wal ?st1))\<close> s2 by (simp only:)
    have "wal_shape ?X d [] (ww_file_seq w) [\<lparr>wr_seq = 1, wr_payload = ?p\<rparr>] []"
      using r by (simp add: wal_rep_def)
    note O = app_open_shape [OF this torn_tail_Nil _ _ o [unfolded s2 snd_conv]]
    have "buffer_inv ?X (sv_buffer st3)" "buffer_rows (sv_buffer st3) = mset (map row_of demo_batch)"
      using O by (simp_all add: log_of_def replayed_def)
    then show ?thesis using buffer_empty_iff demo_batches_nonempty(1) by auto
  qed
  then obtain st4 where f2: "flush_once flush_fine st3 = (Inr True, st4)"
    using flush_ok_exists [of st3] unfolding flush_fine_def by auto
  have "warehouse_rows (sv_tables st4) = mset (map row_of demo_batch) + mset (map row_of demo_batch)"
    using restart_duplicates_flushed [OF _ _ _ _ a1 f1 o f2] by (simp add: header_bytes_def)
  then show ?thesis using a1 f1 o f2 unfolding demo_rows by auto
qed

section \<open>An error after the record is in the log\<close>

lemma unsynced_ingest:
  assumes "check_backpressure st = Inr ()" "ok = concat (map (accepted_of X now) samples)" "ok \<noteq> []"
    "json_of_samples X ok = Some p" "wal_room (sv_wal st) p"
    "run_ingest X txt now Completes SyncFails samples st = (r, st1)"
  shows "r = Inl (api_internal (''ingest: '' @ txt (WalAppend WalIo)))"
    "st1 = st\<lparr>sv_wal := (fst (sv_wal st), snd (snd (wal_append X SyncFails p (sv_wal st))))\<rparr>"
proof -
  obtain rej where v: "validate_all X now 0 samples = (ok, rej)"
    using validate_all_accepted [of X now 0 samples] assms(2) by (cases "validate_all X now 0 samples") simp
  have "\<not> 2 ^ 32 - 1 < length p" using assms(5) by (simp add: wal_room_def)
  then have "append_validated X SyncFails ok st = (Inl (WalAppend WalIo),
      st\<lparr>sv_wal := (fst (sv_wal st), snd (snd (wal_append X SyncFails p (sv_wal st))))\<rparr>)"
    by (simp add: append_validated_def append_wal_def assms(4) wal_append_def Let_def case_prod_unfold)
  then show "r = Inl (api_internal (''ingest: '' @ txt (WalAppend WalIo)))"
    "st1 = st\<lparr>sv_wal := (fst (sv_wal st), snd (snd (wal_append X SyncFails p (sv_wal st))))\<rparr>"
    using assms(1,3,6) by (auto simp: run_ingest_def v spawn_append_def)
qed

text \<open>
  When the sync of an append fails, the request is answered with an error although its whole record is in
  the log: the next start replays it, and a client that repeats the request then has every sample of it
  stored twice.
\<close>

theorem errored_ingest_comes_back:
  assumes "check_backpressure st = Inr ()" "ok = concat (map (accepted_of X now) samples)" "ok \<noteq> []"
    "wal_good X (sv_wal st)" "json_of_samples X ok = Some p" "wal_room (sv_wal st) p" "json_exact X ok"
    "run_ingest X txt now Completes SyncFails samples st = (r, st1)"
    "app_open X cf opens q c (sv_tables st1) (snd (sv_wal st1)) = Inr st2"
  shows "(\<exists>e. r = Inl e \<and> ae_status e = InternalError500) \<and> service_rows st1 = service_rows st \<and>
    mset (map row_of ok) \<subseteq># buffer_rows (sv_buffer st2) \<and>
    (\<forall>io resp st3. run_ingest X txt now Completes io samples st2 = (Inr resp, st3) \<longrightarrow>
       mset (map row_of ok) + mset (map row_of ok) \<subseteq># service_rows st3)"
proof -
  obtain rej where v: "validate_all X now 0 samples = (ok, rej)"
    using validate_all_accepted [of X now 0 samples] assms(2) by (cases "validate_all X now 0 samples") simp
  note run = unsynced_ingest [OF assms(1-3,5,6,8)]
  obtain fs rs w' where rep: "wal_rep X (w', snd (snd (wal_append X SyncFails p (sv_wal st)))) fs rs []"
    "log_of fs rs = wal_recs X (sv_wal st) @ [\<lparr>wr_seq = ww_next_record_seq (fst (sv_wal st)), wr_payload = p\<rparr>]"
    by (rule synced_append_rep [OF assms(4,6)])
  have sh: "wal_shape X (snd (sv_wal st1)) fs (ww_file_seq w') rs []" using rep(1) by (simp add: wal_rep_def run(2))
  have "fst (replay X (snd (sv_wal st1))) = log_of fs rs" using rep_replay [OF rep(1)] by (simp add: run(2))
  moreover have "samples_of_json X p = Some ok" using assms(5,7) by (simp add: json_exact_def)
  ultimately have rows: "buffer_rows (sv_buffer st2) =
      mset (map row_of (replayed X (wal_recs X (sv_wal st)))) + mset (map row_of ok)"
    using app_open_replay [OF sh assms(9)] by (simp add: rep(2) replayed_def)
  have "mset (map row_of ok) + mset (map row_of ok) \<subseteq># service_rows st3"
    if r3: "run_ingest X txt now Completes io samples st2 = (Inr resp, st3)" for io resp st3
  proof -
    have "\<exists>n. spawn_append X io Completes ok st2 = (Some (Inr n), st3)"
      using r3 assms(3) by (auto simp: run_ingest_def v split: sum.splits prod.splits option.splits)
    then have "service_rows st3 = service_rows st2 + mset (map row_of ok)" using spawn_append_ok by blast
    then show ?thesis using rows by (simp add: service_rows_def)
  qed
  then show ?thesis using rows by (simp add: run api_internal_def service_rows_def)
qed

text \<open>A codec for one batch, and a server whose disk fails to sync it.\<close>

definition echo_batch :: "validated_sample list" where
  "echo_batch = [accepted_sample demo_hash demo_raw]"

definition echo_codec :: externals where
  "echo_codec = demo_hash\<lparr>json_of_samples := (\<lambda>ss. Some [2]), samples_of_json := (\<lambda>bs. Some echo_batch)\<rparr>"

theorem errored_ingest_comes_back_witness:
  "\<exists>e st1 st2. run_ingest echo_codec (\<lambda>_. []) 1000 Completes SyncFails [demo_raw] (fresh_service 500) = (Inl e, st1) \<and>
     app_open echo_codec (\<lambda>_. False) True True demo_catalog (sv_tables st1) (snd (sv_wal st1)) = Inr st2 \<and>
     mset (map row_of echo_batch) \<subseteq># buffer_rows (sv_buffer st2)"
proof -
  let ?st = "fresh_service 500"
  have "clock_ok 1000"
    by (simp add: clock_ok_def i64_ok_def i64_min_def i64_max_def grace_past_ms_def grace_future_ms_def)
  then have "validate echo_codec demo_raw 1000 = Inr (accepted_sample echo_codec demo_raw)"
    using validate_Inr [of 1000 echo_codec demo_raw "accepted_sample echo_codec demo_raw"] demo_raw_acceptable by simp
  moreover have "accepted_sample echo_codec demo_raw = accepted_sample demo_hash demo_raw"
    by (simp add: accepted_sample_def derive_series_id_def echo_codec_def)
  ultimately have ok: "echo_batch = concat (map (accepted_of echo_codec 1000) [demo_raw])"
    by (simp add: echo_batch_def accepted_of_def)
  have bp: "check_backpressure ?st = Inr ()"
    by (simp add: check_backpressure_def fresh_service_def with_known_series_def backpressure_bytes_def Let_def)
  obtain r st1 where run: "run_ingest echo_codec (\<lambda>_. []) 1000 Completes SyncFails [demo_raw] ?st = (r, st1)"
    by (cases "run_ingest echo_codec (\<lambda>_. []) 1000 Completes SyncFails [demo_raw] ?st")
  have js: "json_of_samples echo_codec echo_batch = Some [2]" "json_exact echo_codec echo_batch"
    by (simp_all add: echo_codec_def json_exact_def)
  have room: "wal_room (sv_wal ?st) [2]" by (rule fresh_room) simp
  have ne: "echo_batch \<noteq> []" by (simp add: echo_batch_def)
  have "snd (sv_wal st1) = snd (snd (wal_append echo_codec SyncFails [2] (sv_wal ?st)))"
    using unsynced_ingest(2) [OF bp ok ne js(1) room run] by simp
  moreover obtain fs rs w' where "wal_rep echo_codec (w', snd (snd (wal_append echo_codec SyncFails [2] (sv_wal ?st)))) fs rs []"
    by (rule synced_append_rep [OF fresh_good room])
  ultimately obtain st2 where op:
    "app_open echo_codec (\<lambda>_. False) True True demo_catalog (sv_tables st1) (snd (sv_wal st1)) = Inr st2"
    using open_again by metis
  show ?thesis
    using errored_ingest_comes_back [OF bp ok ne fresh_good js(1) room js(2) run op] run op by blast
qed

end
