(* ===== verification/Shutdown.thy ===== *)
theory Shutdown
  imports Hazards
begin

text \<open>
  The life of the server as \<open>src/src/main.rs\<close> arranges it, from the start of the listener to the exit
  of the process: the requests that append batches, the flush task of \<open>src/src/ingest/service.rs\<close>, the
  shutdown signal, the drain of the in-flight requests and the final flush. The critical sections of
  the write path are the steps, so any interleaving of the threads is a list of events. A shutdown
  that finds the flush task idle leaves every acknowledged sample in the tables; one that does not can
  lose acknowledged samples.
\<close>

section \<open>State and events\<close>

datatype phase = Serving | Draining | Finishing | Flushing | Exited

text \<open>Where a running \<open>flush_once\<close> is: not running, committing its snapshot, about to truncate.\<close>

datatype flush_stage = Idle | Committing snapshot | Truncating nat

text \<open>
  \<open>sr_pending\<close> holds the batches that are in the log and not yet in the buffer, each with whether a
  client still waits for the answer: the append runs on a blocking thread, which goes on when the
  request has timed out. \<open>sr_flusher\<close> is the flush task, \<open>sr_final\<close> the final flush of \<open>main\<close>.
\<close>

record server =
  sr_phase :: phase
  sr_drained :: bool
  sr_service :: service
  sr_pending :: "(nat \<times> validated_sample list \<times> bool) list"
  sr_flusher :: flush_stage
  sr_final :: flush_stage

definition serving :: "service \<Rightarrow> server" where
  "serving st = \<lparr>sr_phase = Serving, sr_drained = False, sr_service = st, sr_pending = [],
     sr_flusher = Idle, sr_final = Idle\<rparr>"

datatype listener_end = ListenerDrained | ListenerError | DrainTimeout

datatype event =
    LogAppend append_io "validated_sample list" bool
  | BufferInsert nat
  | ClientGone nat
  | FlusherTake wake
  | FlusherCommit flush_io
  | FlusherTruncate
  | Signal
  | ListenerEnds listener_end
  | FinalTake
  | FinalCommit flush_io
  | FinalTruncate

text \<open>What the outside sees of a step: a batch acknowledged, a batch stored with nobody waiting, a failed commit.\<close>

datatype outcome = Acked "validated_sample list" | Unheard "validated_sample list" | CommitFailed | Quiet

section \<open>One flush in its steps\<close>

definition start_flush :: "service \<Rightarrow> flush_stage \<times> service" where
  "start_flush st = (case flush_take st of (None, st) \<Rightarrow> (Idle, st) | (Some snap, st) \<Rightarrow> (Committing snap, st))"

definition commit_flush :: "flush_io \<Rightarrow> snapshot \<Rightarrow> service \<Rightarrow> outcome \<times> flush_stage \<times> service" where
  "commit_flush io snap st =
     (case flush_commit io snap st of
        (Inl e, st) \<Rightarrow> (CommitFailed, Idle, st)
      | (Inr r, st) \<Rightarrow> (Quiet, Truncating (sn_max_seq snap), st))"

section \<open>The steps\<close>

text \<open>
  An append by a request that has no client any more may start at any time; one with a client keeps
  the listener from draining. The two arms of the \<open>select\<close> in \<open>main\<close> end in the same code: the listener
  drained, it failed, or the time for draining was over.
\<close>

definition listener_may_end :: "listener_end \<Rightarrow> server \<Rightarrow> bool" where
  "listener_may_end le s =
     (case le of
        ListenerDrained \<Rightarrow> sr_phase s = Draining \<and> list_all (\<lambda>(n, ss, waiting). \<not> waiting) (sr_pending s)
      | ListenerError \<Rightarrow> sr_phase s = Serving \<or> sr_phase s = Draining
      | DrainTimeout \<Rightarrow> sr_phase s = Draining)"

fun request_step :: "externals \<Rightarrow> event \<Rightarrow> server \<Rightarrow> (outcome \<times> server) option" where
  "request_step X (LogAppend io ss waiting) s =
     (if waiting \<and> sr_drained s then None
      else Some (case append_wal X io ss (sr_service s) of
          (Inl e, st) \<Rightarrow> (Quiet, s\<lparr>sr_service := st\<rparr>)
        | (Inr n, st) \<Rightarrow> (Quiet, s\<lparr>sr_service := st, sr_pending := sr_pending s @ [(n, ss, waiting)]\<rparr>)))"
| "request_step X (BufferInsert i) s =
     (if i < length (sr_pending s)
      then (case sr_pending s ! i of
          (n, ss, waiting) \<Rightarrow> Some (if waiting then Acked ss else Unheard ss,
            s\<lparr>sr_service := append_buffer X n ss (sr_service s),
              sr_pending := take i (sr_pending s) @ drop (Suc i) (sr_pending s)\<rparr>))
      else None)"
| "request_step X (ClientGone i) s =
     (if i < length (sr_pending s)
      then (case sr_pending s ! i of
          (n, ss, waiting) \<Rightarrow> Some (Quiet, s\<lparr>sr_pending := (sr_pending s)[i := (n, ss, False)]\<rparr>))
      else None)"
| "request_step X _ s = None"

text \<open>The flush task: it sleeps until the timer or the permit, then runs one \<open>flush_once\<close>.\<close>

fun flusher_step :: "event \<Rightarrow> server \<Rightarrow> (outcome \<times> server) option" where
  "flusher_step (FlusherTake w) s =
     (if sr_flusher s = Idle \<and> (w = FlushTick \<or> sv_notified (sr_service s))
      then (case start_flush (if w = FlushTick then sr_service s else (sr_service s)\<lparr>sv_notified := False\<rparr>) of
          (g, st) \<Rightarrow> Some (Quiet, s\<lparr>sr_service := st, sr_flusher := g\<rparr>))
      else None)"
| "flusher_step (FlusherCommit io) s =
     (case sr_flusher s of
        Committing snap \<Rightarrow>
          (case commit_flush io snap (sr_service s) of
             (out, g, st) \<Rightarrow> Some (out, s\<lparr>sr_service := st, sr_flusher := g\<rparr>))
      | _ \<Rightarrow> None)"
| "flusher_step FlusherTruncate s =
     (case sr_flusher s of
        Truncating n \<Rightarrow> Some (Quiet, s\<lparr>sr_service := flush_truncate n (sr_service s), sr_flusher := Idle\<rparr>)
      | _ \<Rightarrow> None)"
| "flusher_step _ s = None"

text \<open>\<open>main\<close>: the signal, the end of the listener, and one last flush, after which the process exits.\<close>

fun main_step :: "event \<Rightarrow> server \<Rightarrow> (outcome \<times> server) option" where
  "main_step Signal s = (if sr_phase s = Serving then Some (Quiet, s\<lparr>sr_phase := Draining\<rparr>) else None)"
| "main_step (ListenerEnds le) s =
     (if listener_may_end le s
      then Some (Quiet, s\<lparr>sr_phase := Finishing, sr_drained := (le = ListenerDrained)\<rparr>) else None)"
| "main_step FinalTake s =
     (if sr_phase s = Finishing
      then (case start_flush (sr_service s) of
          (g, st) \<Rightarrow> Some (Quiet, s\<lparr>sr_service := st, sr_final := g, sr_phase := (if g = Idle then Exited else Flushing)\<rparr>))
      else None)"
| "main_step (FinalCommit io) s =
     (case sr_final s of
        Committing snap \<Rightarrow>
          (case commit_flush io snap (sr_service s) of
             (out, g, st) \<Rightarrow> Some (out, s\<lparr>sr_service := st, sr_final := g,
               sr_phase := (if g = Idle then Exited else Flushing)\<rparr>))
      | _ \<Rightarrow> None)"
| "main_step FinalTruncate s =
     (case sr_final s of
        Truncating n \<Rightarrow>
          Some (Quiet, s\<lparr>sr_service := flush_truncate n (sr_service s), sr_final := Idle, sr_phase := Exited\<rparr>)
      | _ \<Rightarrow> None)"
| "main_step _ s = None"

text \<open>When \<open>main\<close> returns the runtime is dropped: nothing runs after the exit, the flush task included.\<close>

definition server_step :: "externals \<Rightarrow> event \<Rightarrow> server \<Rightarrow> (outcome \<times> server) option" where
  "server_step X e s =
     (if sr_phase s = Exited then None
      else case e of
        LogAppend io ss waiting \<Rightarrow> request_step X e s
      | BufferInsert i \<Rightarrow> request_step X e s
      | ClientGone i \<Rightarrow> request_step X e s
      | FlusherTake w \<Rightarrow> flusher_step e s
      | FlusherCommit io \<Rightarrow> flusher_step e s
      | FlusherTruncate \<Rightarrow> flusher_step e s
      | _ \<Rightarrow> main_step e s)"

fun server_run :: "externals \<Rightarrow> event list \<Rightarrow> server \<Rightarrow> (outcome list \<times> server) option" where
  "server_run X [] s = Some ([], s)"
| "server_run X (e # es) s =
     (case server_step X e s of
        None \<Rightarrow> None
      | Some (out, s) \<Rightarrow>
          (case server_run X es s of None \<Rightarrow> None | Some (outs, s) \<Rightarrow> Some (out # outs, s)))"

section \<open>Uninterrupted operations\<close>

text \<open>With nothing in between, the steps are the operations of the ingest service.\<close>

lemma append_uninterrupted:
  assumes "sr_phase s \<noteq> Exited" "\<not> sr_drained s" "append_validated X io ss (sr_service s) = (Inr n, st)"
  shows "server_run X [LogAppend io ss True, BufferInsert (length (sr_pending s))] s =
    Some ([Quiet, Acked ss], s\<lparr>sr_service := st\<rparr>)"
proof -
  obtain st1 where "append_wal X io ss (sr_service s) = (Inr n, st1)" "st = append_buffer X n ss st1"
    using assms(3) by (auto simp: append_validated_def split: prod.splits sum.splits)
  then show ?thesis using assms(1,2) by (simp add: server_step_def)
qed

lemma flusher_uninterrupted:
  assumes "sr_phase s \<noteq> Exited" "sr_flusher s = Idle" "flush_once io (sr_service s) = (Inr True, st)"
  shows "server_run X [FlusherTake FlushTick, FlusherCommit io, FlusherTruncate] s =
    Some ([Quiet, Quiet, Quiet], s\<lparr>sr_service := st\<rparr>)"
  using assms
  by (auto simp: server_step_def flush_once_def start_flush_def commit_flush_def split: option.splits prod.splits sum.splits)

lemma final_uninterrupted:
  assumes "sr_phase s = Finishing" "flush_once io (sr_service s) = (Inr True, st)"
  shows "server_run X [FinalTake, FinalCommit io, FinalTruncate] s =
    Some ([Quiet, Quiet, Quiet], s\<lparr>sr_service := st, sr_phase := Exited, sr_final := Idle\<rparr>)"
  using assms
  by (auto simp: server_step_def flush_once_def start_flush_def commit_flush_def split: option.splits prod.splits sum.splits)

lemma server_run_append:
  "server_run X es s = Some (outs, t) \<Longrightarrow> server_run X fs t = Some (outs', u) \<Longrightarrow>
     server_run X (es @ fs) s = Some (outs @ outs', u)"
  by (induction es arbitrary: s outs) (auto split: option.splits prod.splits)

section \<open>Where the rows are\<close>

text \<open>Rows in flight in a flush, and all the rows a server holds in memory or in the tables.\<close>

fun stage_rows :: "flush_stage \<Rightarrow> row multiset" where
  "stage_rows (Committing snap) = mset (day_rows (sn_by_day snap))"
| "stage_rows _ = {#}"

definition held_rows :: "server \<Rightarrow> row multiset" where
  "held_rows s = service_rows (sr_service s) + stage_rows (sr_flusher s) + stage_rows (sr_final s)"

fun acked_rows :: "outcome list \<Rightarrow> row multiset" where
  "acked_rows [] = {#}"
| "acked_rows (Acked ss # outs) = mset (map row_of ss) + acked_rows outs"
| "acked_rows (_ # outs) = acked_rows outs"

fun unheard_rows :: "outcome list \<Rightarrow> row multiset" where
  "unheard_rows [] = {#}"
| "unheard_rows (Unheard ss # outs) = mset (map row_of ss) + unheard_rows outs"
| "unheard_rows (_ # outs) = unheard_rows outs"

lemma outcome_rows_Cons:
  "acked_rows (out # outs) = acked_rows [out] + acked_rows outs"
  "unheard_rows (out # outs) = unheard_rows [out] + unheard_rows outs"
  by (cases out; simp)+

lemma start_flush_eq:
  "start_flush st = (if is_empty (sv_buffer st) then (Idle, st)
     else (Committing (fst (take_snapshot (sv_buffer st))), st\<lparr>sv_buffer := snd (take_snapshot (sv_buffer st))\<rparr>))"
  by (simp add: start_flush_def flush_take_def case_prod_unfold Let_def)

lemma start_flush_rows:
  assumes "start_flush st = (g, st')" "buffer_inv X (sv_buffer st)"
  shows "service_rows st' + stage_rows g = service_rows st" "buffer_rows (sv_buffer st') = {#}"
    "buffer_inv X (sv_buffer st')"
  using assms buffer_empty_iff [OF assms(2)] buffer_inv_take [of X "sv_buffer st"]
  by (auto simp: start_flush_eq service_rows_def buffer_rows_def split: if_splits)

lemma commit_flush_rows:
  assumes "commit_flush io snap st = (out, g, st')"
  shows "sv_buffer st' = sv_buffer st" "out = CommitFailed \<or> out = Quiet" "stage_rows g = {#}"
    "out \<noteq> CommitFailed \<Longrightarrow> service_rows st' = service_rows st + mset (day_rows (sn_by_day snap))"
proof -
  obtain r wh where f: "flush io snap (sv_tables st) = (r, wh)" by (cases "flush io snap (sv_tables st)")
  have c: "commit_flush io snap st = (case r of
      Inl e \<Rightarrow> (CommitFailed, Idle, st\<lparr>sv_tables := wh\<rparr>)
    | Inr x \<Rightarrow> (Quiet, Truncating (sn_max_seq snap), st\<lparr>sv_tables := wh\<rparr>))"
    by (simp add: commit_flush_def flush_commit_def f split: sum.split)
  then show "sv_buffer st' = sv_buffer st" "out = CommitFailed \<or> out = Quiet" "stage_rows g = {#}"
    using assms by (auto split: sum.splits)
  show "service_rows st' = service_rows st + mset (day_rows (sn_by_day snap))" if "out \<noteq> CommitFailed"
  proof -
    have "\<exists>x. fst (flush io snap (sv_tables st)) = Inr x" using c assms that by (auto simp: f split: sum.splits)
    then have "samples_acked io snap" by (simp add: flush_result split: if_splits)
    then show ?thesis
      using flush_rows [of io snap "sv_tables st"] c assms that
      by (auto simp: f service_rows_def samples_acked_def split: sum.splits)
  qed
qed

section \<open>The invariant of the server\<close>

text \<open>
  \<open>U\<close> bounds what can sit in the buffer once the final flush has taken it: after a drain only batches
  nobody waits for are inserted.
\<close>

definition server_inv :: "externals \<Rightarrow> row multiset \<Rightarrow> server \<Rightarrow> bool" where
  "server_inv X U s \<longleftrightarrow>
     buffer_inv X (sv_buffer (sr_service s)) \<and>
     (sr_drained s \<longrightarrow> list_all (\<lambda>(n, ss, waiting). \<not> waiting) (sr_pending s)) \<and>
     (sr_drained s \<and> (sr_phase s = Flushing \<or> sr_phase s = Exited) \<longrightarrow>
        buffer_rows (sv_buffer (sr_service s)) \<subseteq># U) \<and>
     (sr_phase s \<noteq> Flushing \<longrightarrow> sr_final s = Idle)"

lemma server_inv_start: "buffer_inv X (sv_buffer st) \<Longrightarrow> server_inv X U (serving st)"
  by (simp add: server_inv_def serving_def)

text \<open>Each thread's steps keep the invariant and account for every row.\<close>

lemma request_step_ok:
  assumes "request_step X e s = Some (out, s')" "server_inv X U s"
  shows "server_inv X (U + unheard_rows [out]) s' \<and> held_rows s' = held_rows s + acked_rows [out] + unheard_rows [out]"
proof (cases e)
  case (LogAppend io ss waiting)
  then show ?thesis
    using assms append_wal_frame [of X io ss "sr_service s"]
    by (auto simp: server_inv_def held_rows_def service_rows_def split: if_splits prod.splits sum.splits)
next
  case (BufferInsert i)
  obtain n ss w where p: "i < length (sr_pending s)" "sr_pending s ! i = (n, ss, w)"
    using assms(1) BufferInsert by (auto split: if_splits prod.splits)
  have w: "sr_drained s \<Longrightarrow> \<not> w"
    using assms(2) p nth_mem [OF p(1)] by (auto simp: server_inv_def list_all_iff)
  have l: "list_all Q (sr_pending s) \<Longrightarrow> list_all Q (take i (sr_pending s) @ drop (Suc i) (sr_pending s))" for Q
    by (auto simp: list_all_iff dest: in_set_takeD in_set_dropD)
  show ?thesis
    using assms BufferInsert p w l
    by (auto simp: server_inv_def held_rows_def service_rows_def add.commute intro: subset_mset.add_mono)
next
  case (ClientGone i)
  have l: "list_all Q xs \<Longrightarrow> Q y \<Longrightarrow> list_all Q (xs[i := y])" for Q xs and y :: "nat \<times> validated_sample list \<times> bool"
    using set_update_subset_insert [of xs i y] by (auto simp: list_all_iff)
  show ?thesis
    using assms ClientGone
    by (auto simp: server_inv_def held_rows_def intro: l split: if_splits prod.splits)
qed (use assms(1) in simp_all)

lemma flusher_step_ok:
  assumes "flusher_step e s = Some (out, s')" "server_inv X U s"
  shows "server_inv X (U + unheard_rows [out]) s' \<and>
    (out \<noteq> CommitFailed \<longrightarrow> held_rows s' = held_rows s + acked_rows [out] + unheard_rows [out])"
proof (cases e)
  case (FlusherTake w)
  let ?st = "if w = FlushTick then sr_service s else (sr_service s)\<lparr>sv_notified := False\<rparr>"
  obtain g st where g: "start_flush ?st = (g, st)" by (cases "start_flush ?st")
  have "buffer_inv X (sv_buffer ?st)" "service_rows ?st = service_rows (sr_service s)"
    using assms(2) by (simp_all add: server_inv_def service_rows_def)
  with assms FlusherTake g start_flush_rows [OF g] show ?thesis
    by (auto simp: server_inv_def held_rows_def split: if_splits)
next
  case (FlusherCommit io)
  obtain snap g st where "sr_flusher s = Committing snap" "commit_flush io snap (sr_service s) = (out, g, st)"
    "s' = s\<lparr>sr_service := st, sr_flusher := g\<rparr>"
    using assms(1) FlusherCommit by (auto split: flush_stage.splits prod.splits)
  with commit_flush_rows [OF this(2)] assms(2) show ?thesis
    by (auto simp: server_inv_def held_rows_def)
next
  case FlusherTruncate
  then show ?thesis
    using assms by (auto simp: server_inv_def held_rows_def service_rows_def split: flush_stage.splits)
qed (use assms(1) in simp_all)

lemma main_step_ok:
  assumes "main_step e s = Some (out, s')" "server_inv X U s"
  shows "server_inv X (U + unheard_rows [out]) s' \<and>
    (out \<noteq> CommitFailed \<longrightarrow> held_rows s' = held_rows s + acked_rows [out] + unheard_rows [out])"
proof (cases e)
  case FinalTake
  obtain g st where g: "start_flush (sr_service s) = (g, st)" by (cases "start_flush (sr_service s)")
  have b: "buffer_inv X (sv_buffer (sr_service s))" using assms(2) by (simp add: server_inv_def)
  show ?thesis
    using assms FinalTake g start_flush_rows [OF g b]
    by (auto simp: server_inv_def held_rows_def split: if_splits)
next
  case (FinalCommit io)
  obtain snap g st where f: "sr_final s = Committing snap" "commit_flush io snap (sr_service s) = (out, g, st)"
    "s' = s\<lparr>sr_service := st, sr_final := g, sr_phase := (if g = Idle then Exited else Flushing)\<rparr>"
    using assms(1) FinalCommit by (auto split: flush_stage.splits prod.splits)
  have "sr_phase s = Flushing" using f(1) assms(2) by (auto simp: server_inv_def)
  with f commit_flush_rows [OF f(2)] assms(2) show ?thesis
    by (auto simp: server_inv_def held_rows_def)
next
  case FinalTruncate
  obtain n where f: "sr_final s = Truncating n"
    "s' = s\<lparr>sr_service := flush_truncate n (sr_service s), sr_final := Idle, sr_phase := Exited\<rparr>" "out = Quiet"
    using assms(1) FinalTruncate by (auto split: flush_stage.splits)
  have "sr_phase s = Flushing" using f(1) assms(2) by (auto simp: server_inv_def)
  with f assms(2) show ?thesis by (auto simp: server_inv_def held_rows_def service_rows_def)
qed (use assms in \<open>auto simp: server_inv_def held_rows_def listener_may_end_def split: if_splits listener_end.splits\<close>)

lemma server_step_ok:
  assumes "server_step X e s = Some (out, s')" "server_inv X U s"
  shows "server_inv X (U + unheard_rows [out]) s' \<and>
    (out \<noteq> CommitFailed \<longrightarrow> held_rows s' = held_rows s + acked_rows [out] + unheard_rows [out])"
proof -
  have "request_step X e s = Some (out, s') \<or> flusher_step e s = Some (out, s') \<or> main_step e s = Some (out, s')"
    using assms(1) by (simp add: server_step_def split: if_splits event.splits)
  then show ?thesis
    using request_step_ok flusher_step_ok main_step_ok assms(2) by blast
qed

lemma server_run_ok:
  "server_run X es s = Some (outs, s') \<Longrightarrow> server_inv X U s \<Longrightarrow> CommitFailed \<notin> set outs \<Longrightarrow>
     server_inv X (U + unheard_rows outs) s' \<and> held_rows s' = held_rows s + acked_rows outs + unheard_rows outs"
proof (induction es arbitrary: s outs U)
  case (Cons e es)
  obtain out t outs' where t: "server_step X e s = Some (out, t)" "server_run X es t = Some (outs', s')" "outs = out # outs'"
    using Cons.prems(1) by (auto split: option.splits prod.splits)
  note S = server_step_ok [OF t(1) Cons.prems(2)]
  have "CommitFailed \<notin> set outs'" "out \<noteq> CommitFailed" using Cons.prems(3) t(3) by auto
  with S Cons.IH [OF t(2) conjunct1 [OF S]] show ?case
    by (simp add: t(3) outcome_rows_Cons [of out outs'] ac_simps)
qed simp

section \<open>A clean shutdown persists everything\<close>

text \<open>
  (C5) In every run of the server, whatever the interleaving of requests, flush task and shutdown: if
  no commit failed and the process exits after the listener drained with no commit of the flush task
  in flight, then every row that was held at the start and every row of an acknowledged batch is in
  the samples table, with its multiplicity; beyond them there are only rows of batches whose client
  had gone.
\<close>

theorem clean_shutdown_persists:
  assumes "server_run X es (serving st) = Some (outs, s)" "buffer_inv X (sv_buffer st)"
    "CommitFailed \<notin> set outs" "sr_phase s = Exited" "sr_drained s" "stage_rows (sr_flusher s) = {#}"
  shows "service_rows st + acked_rows outs \<subseteq># warehouse_rows (sv_tables (sr_service s)) \<and>
    warehouse_rows (sv_tables (sr_service s)) \<subseteq># service_rows st + acked_rows outs + unheard_rows outs"
proof -
  have inv: "server_inv X (unheard_rows outs) s" "held_rows s = service_rows st + acked_rows outs + unheard_rows outs"
    using server_run_ok [OF assms(1) server_inv_start [OF assms(2), of "{#}"] assms(3)]
    by (simp_all add: held_rows_def serving_def)
  then have "sr_final s = Idle" "buffer_rows (sv_buffer (sr_service s)) \<subseteq># unheard_rows outs"
    using assms(4,5) by (simp_all add: server_inv_def)
  then obtain R where "unheard_rows outs = buffer_rows (sv_buffer (sr_service s)) + R"
    by (auto simp: subset_mset.le_iff_add)
  with inv(2) assms(6) \<open>sr_final s = Idle\<close>
  have "warehouse_rows (sv_tables (sr_service s)) = service_rows st + acked_rows outs + R"
    by (simp add: held_rows_def service_rows_def ac_simps)
  then show ?thesis by (simp add: \<open>unheard_rows outs = _\<close>)
qed

text \<open>One batch, the signal, the drain and the final flush.\<close>

definition shutdown_events :: "flush_io \<Rightarrow> event list" where
  "shutdown_events io = [Signal, ListenerEnds ListenerDrained, FinalTake, FinalCommit io, FinalTruncate]"

lemma shutdown_run:
  assumes "sr_phase s = Serving" "sr_pending s = []" "flush_once io (sr_service s) = (Inr True, st)"
  shows "server_run X (shutdown_events io) s =
    Some (replicate 5 Quiet, s\<lparr>sr_phase := Exited, sr_drained := True, sr_service := st, sr_final := Idle\<rparr>)"
proof -
  let ?t = "s\<lparr>sr_phase := Finishing, sr_drained := True\<rparr>"
  have "server_run X [FinalTake, FinalCommit io, FinalTruncate] ?t =
      Some ([Quiet, Quiet, Quiet], ?t\<lparr>sr_service := st, sr_phase := Exited, sr_final := Idle\<rparr>)"
    using assms(3) by (intro final_uninterrupted) simp_all
  then show ?thesis
    using assms(1,2) by (simp add: shutdown_events_def server_step_def listener_may_end_def eval_nat_numeral
      del: server_run.simps(2)) (simp add: server_step_def listener_may_end_def)
qed

theorem clean_shutdown_persists_witness:
  "\<exists>outs s. server_run demo_codec ([LogAppend IoOk demo_batch True, BufferInsert 0] @ shutdown_events flush_fine)
       (serving (fresh_service 500)) = Some (outs, s) \<and>
     sr_phase s = Exited \<and> (7, 1000000, Num 1) \<in># warehouse_rows (sv_tables (sr_service s))"
proof -
  let ?X = demo_codec and ?p = "replicate 100 1 :: bytes" and ?s0 = "fresh_service 500"
  let ?st1 = "append_buffer ?X 1 demo_batch (?s0\<lparr>sv_wal := snd (wal_append ?X IoOk ?p (sv_wal ?s0))\<rparr>)"
  have a: "append_validated ?X IoOk demo_batch ?s0 = (Inr 1, ?st1)"
    using append_validated_ok [OF fresh_good _ fresh_room, of ?X demo_batch ?p 500] by (simp add: fresh_simps)
  obtain st2 where f: "flush_once flush_fine ?st1 = (Inr True, st2)"
    using flush_ok_exists [of ?st1] filled_buffer(1) [OF fresh_simps(2) demo_batches_nonempty(1)]
    unfolding flush_fine_def by (auto simp del: One_nat_def)
  have r1: "server_run ?X [LogAppend IoOk demo_batch True, BufferInsert 0] (serving ?s0) =
      Some ([Quiet, Acked demo_batch], (serving ?s0)\<lparr>sr_service := ?st1\<rparr>)"
    using append_uninterrupted [of "serving ?s0" ?X IoOk demo_batch 1 ?st1] a by (simp add: serving_def)
  obtain s where s: "server_run ?X (shutdown_events flush_fine) ((serving ?s0)\<lparr>sr_service := ?st1\<rparr>) =
      Some (replicate 5 Quiet, s)" "sr_phase s = Exited" "sr_drained s" "sr_flusher s = Idle"
    using shutdown_run [of "(serving ?s0)\<lparr>sr_service := ?st1\<rparr>" flush_fine st2 ?X] f by (simp add: serving_def)
  have r: "server_run ?X ([LogAppend IoOk demo_batch True, BufferInsert 0] @ shutdown_events flush_fine)
      (serving ?s0) = Some ([Quiet, Acked demo_batch] @ replicate 5 Quiet, s)"
    by (rule server_run_append [OF r1 s(1)])
  have "service_rows ?s0 + acked_rows ([Quiet, Acked demo_batch] @ replicate 5 Quiet)
      \<subseteq># warehouse_rows (sv_tables (sr_service s))"
    using clean_shutdown_persists [OF r fresh_simps(2)] s by simp
  then have "(7, 1000000, Num 1) \<in># warehouse_rows (sv_tables (sr_service s))"
    using demo_rows(1) by (auto dest: mset_subset_eqD)
  with r s(2) show ?thesis by blast
qed

section \<open>A shutdown during a background flush\<close>

lemma shutdown_race_run:
  assumes "append_validated X IoOk ss1 st0 = (Inr n1, st1)" "flush_take st1 = (Some snap, st2)"
    "append_validated X IoOk ss2 st2 = (Inr n2, st3)" "flush_once io st3 = (Inr True, st4)"
  shows "\<exists>s. server_run X ([LogAppend IoOk ss1 True, BufferInsert 0, FlusherTake FlushTick,
        LogAppend IoOk ss2 True, BufferInsert 0] @ shutdown_events io) (serving st0) =
      Some ([Quiet, Acked ss1, Quiet, Quiet, Acked ss2] @ replicate 5 Quiet, s) \<and>
    sr_phase s = Exited \<and> sr_drained s \<and> sr_service s = st4"
proof -
  let ?s0 = "serving st0"
  let ?s2 = "?s0\<lparr>sr_service := st2, sr_flusher := Committing snap\<rparr>"
  have "server_run X [LogAppend IoOk ss1 True, BufferInsert 0] ?s0 = Some ([Quiet, Acked ss1], ?s0\<lparr>sr_service := st1\<rparr>)"
    using append_uninterrupted [of ?s0 X IoOk ss1 n1 st1] assms(1) by (simp add: serving_def)
  moreover have "server_run X [FlusherTake FlushTick] (?s0\<lparr>sr_service := st1\<rparr>) = Some ([Quiet], ?s2)"
    using assms(2) by (simp add: server_step_def serving_def start_flush_def)
  moreover have "server_run X [LogAppend IoOk ss2 True, BufferInsert 0] ?s2 = Some ([Quiet, Acked ss2], ?s2\<lparr>sr_service := st3\<rparr>)"
    using append_uninterrupted [of ?s2 X IoOk ss2 n2 st3] assms(3) by (simp add: serving_def)
  moreover have "server_run X (shutdown_events io) (?s2\<lparr>sr_service := st3\<rparr>) = Some (replicate 5 Quiet,
      ?s2\<lparr>sr_service := st4, sr_phase := Exited, sr_drained := True, sr_final := Idle\<rparr>)"
    using shutdown_run [of "?s2\<lparr>sr_service := st3\<rparr>" io st4 X] assms(4) by (simp add: serving_def)
  ultimately have "server_run X ([LogAppend IoOk ss1 True, BufferInsert 0] @ [FlusherTake FlushTick] @
        [LogAppend IoOk ss2 True, BufferInsert 0] @ shutdown_events io) ?s0 =
      Some ([Quiet, Acked ss1] @ [Quiet] @ [Quiet, Acked ss2] @ replicate 5 Quiet,
        ?s2\<lparr>sr_service := st4, sr_phase := Exited, sr_drained := True, sr_final := Idle\<rparr>)"
    by (intro server_run_append)
  then show ?thesis by (simp del: server_run.simps)
qed



end
