(* ===== verification/Float64_Text.thy ===== *)
theory Float64_Text
  imports Sample_Types
begin

text \<open>
  \<open>str::parse::<f64>\<close>: an optional sign, then \<open>inf\<close>, \<open>infinity\<close> or \<open>nan\<close> in any case, or a decimal
  number with an optional fraction and exponent, correctly rounded. It is used on the \<open>le\<close> label and
  on the time and step parameters of a query.
\<close>

definition is_digit :: "char \<Rightarrow> bool" where
  "is_digit c \<longleftrightarrow> 48 \<le> (of_char c :: nat) \<and> (of_char c :: nat) \<le> 57"

definition digits_val :: "string \<Rightarrow> nat" where
  "digits_val s = foldl (\<lambda>n c. 10 * n + (of_char c - 48)) 0 s"

text \<open>\<open>to_ascii_lowercase\<close> and \<open>eq_ignore_ascii_case\<close>.\<close>

definition ascii_lower :: "char \<Rightarrow> char" where
  "ascii_lower c =
     (let n = of_char c :: nat in if 65 \<le> n \<and> n \<le> 90 then char_of (n + 32) else c)"

definition to_ascii_lowercase :: "string \<Rightarrow> string" where
  "to_ascii_lowercase s = map ascii_lower s"

definition eq_ignore_ascii_case :: "string \<Rightarrow> string \<Rightarrow> bool" where
  "eq_ignore_ascii_case s t \<longleftrightarrow> to_ascii_lowercase s = to_ascii_lowercase t"

text \<open>A sign is consumed at most once; \<open>True\<close> is a minus.\<close>

fun strip_sign :: "string \<Rightarrow> bool \<times> string" where
  "strip_sign [] = (False, [])"
| "strip_sign (c # s) =
     (if c = CHR ''-'' then (True, s) else if c = CHR ''+'' then (False, s) else (False, c # s))"

fun parse_exponent :: "string \<Rightarrow> int option" where
  "parse_exponent [] = Some 0"
| "parse_exponent (c # s) =
     (if c = CHR ''e'' \<or> c = CHR ''E'' then
        (let (neg, ds) = strip_sign s in
         if ds \<noteq> [] \<and> list_all is_digit ds
         then Some (if neg then - int (digits_val ds) else int (digits_val ds)) else None)
      else None)"

definition parse_decimal :: "string \<Rightarrow> rat option" where
  "parse_decimal s =
     (let whole = takeWhile is_digit s; rest = dropWhile is_digit s;
          (frac, rest') = (case rest of
             [] \<Rightarrow> ([], [])
           | c # r \<Rightarrow> if c = CHR ''.'' then (takeWhile is_digit r, dropWhile is_digit r) else ([], rest))
      in if whole = [] \<and> frac = [] then None
         else map_option (\<lambda>e. of_nat (digits_val (whole @ frac)) * 10 powi (e - int (length frac)))
                (parse_exponent rest'))"

definition f64_of_string :: "string \<Rightarrow> f64 option" where
  "f64_of_string s =
     (let (neg, body) = strip_sign s;
          magnitude = (if eq_ignore_ascii_case body ''inf'' \<or> eq_ignore_ascii_case body ''infinity'' then Some PInf
             else if eq_ignore_ascii_case body ''nan'' then Some NaN
             else map_option rnd (parse_decimal body))
      in map_option (\<lambda>v. if neg then f64_neg v else v) magnitude)"

section \<open>Printed integers read back\<close>

lemma is_digit_char_of: "n < (10::nat) \<Longrightarrow> is_digit (char_of (48 + n))"
  by (simp add: is_digit_def)

lemma dec_of_nat_all_digits: "list_all is_digit (dec_of_nat n) \<and> dec_of_nat n \<noteq> []"
proof (induction n rule: dec_of_nat.induct)
  case (1 n)
  then show ?case by (subst (1 2) dec_of_nat.simps) (auto simp: is_digit_char_of)
qed

lemma digits_val_snoc: "digits_val (s @ [c]) = 10 * digits_val s + (of_char c - 48)"
  by (simp add: digits_val_def)

lemma digits_val_dec_of_nat: "digits_val (dec_of_nat n) = n"
proof (induction n rule: dec_of_nat.induct)
  case (1 n)
  show ?case
  proof (cases "n < 10")
    case True
    then show ?thesis by (simp add: dec_of_nat.simps [of n] digits_val_def)
  next
    case False
    then show ?thesis
      using 1 by (subst dec_of_nat.simps) (simp add: digits_val_snoc)
  qed
qed

lemma parse_decimal_digits:
  assumes "list_all is_digit s" "s \<noteq> []"
  shows "parse_decimal s = Some (of_nat (digits_val s))"
proof -
  have "takeWhile is_digit s = s" "dropWhile is_digit s = []"
    using assms(1) by (auto simp: list_all_iff)
  then show ?thesis using assms(2) by (simp only: parse_decimal_def Let_def) simp
qed

lemma strip_sign_digits: "list_all is_digit s \<Longrightarrow> strip_sign s = (False, s)"
  by (cases s) (auto simp: is_digit_def)

lemma ascii_lower_digit: "is_digit c \<Longrightarrow> ascii_lower c = c"
  by (simp add: ascii_lower_def is_digit_def Let_def)

lemma digits_not_word:
  assumes "list_all is_digit s" "s \<noteq> []" "w \<noteq> []" "\<not> is_digit (ascii_lower (hd w))"
  shows "\<not> eq_ignore_ascii_case s w"
proof -
  obtain c s' where s: "s = c # s'" "is_digit c" using assms(1,2) by (cases s) auto
  obtain d w' where w: "w = d # w'" using assms(3) by (cases w) auto
  show ?thesis
    using s assms(4) by (auto simp: w eq_ignore_ascii_case_def to_ascii_lowercase_def ascii_lower_digit)
qed

lemma f64_of_string_dec_of_nat: "f64_of_string (dec_of_nat n) = Some (rnd (of_nat n))"
proof -
  have d: "list_all is_digit (dec_of_nat n)" "dec_of_nat n \<noteq> []" using dec_of_nat_all_digits by auto
  have "\<not> is_digit (ascii_lower (hd ''inf''))" "\<not> is_digit (ascii_lower (hd ''infinity''))"
    "\<not> is_digit (ascii_lower (hd ''nan''))" by code_simp+
  then have "\<not> eq_ignore_ascii_case (dec_of_nat n) ''inf''"
    "\<not> eq_ignore_ascii_case (dec_of_nat n) ''infinity''" "\<not> eq_ignore_ascii_case (dec_of_nat n) ''nan''"
    using digits_not_word [OF d] by auto
  then show ?thesis
    by (simp add: f64_of_string_def strip_sign_digits d parse_decimal_digits digits_val_dec_of_nat)
qed

end
