(* ===== verification/Promql_Ast.thy ===== *)
theory Promql_Ast
  imports Float64_Text
begin

text \<open>
  The PromQL syntax tree as \<open>src/src/prometheus.rs\<close> reads it, and the planner that turns a tree into
  a query plan: \<open>detect_query_kind\<close>, its operator tables, \<open>extract_selector\<close>, \<open>pure_selector\<close>,
  \<open>scalar_vector_pair\<close> and the label matchers.

  The tree itself belongs to the \<open>promql_parser\<close> crate: the datatype below has its variants, with
  the fields the source reads. A lexer token is its constant; the ones the source does not name are
  \<open>T_OTHER\<close>. A compiled regular expression is its \<open>is_match\<close> function.
\<close>

section \<open>Syntax tree\<close>

datatype match_op = MEqual | MNotEqual | MRe "string \<Rightarrow> bool" | MNotRe "string \<Rightarrow> bool"

record matcher =
  mt_op :: match_op
  mt_name :: string
  mt_value :: string

record vector_selector =
  vsel_name :: "string option"
  vsel_matchers :: "matcher list"

datatype label_modifier = Include "string list" | Exclude "string list"

datatype token =
    T_ADD | T_SUB | T_MUL | T_DIV | T_MOD | T_POW
  | T_EQLC | T_NEQ | T_LSS | T_LTE | T_GTR | T_GTE
  | T_SUM | T_AVG | T_MIN | T_MAX | T_COUNT | T_TOPK | T_BOTTOMK
  | T_OTHER nat

text \<open>
  \<open>EMatrix v r\<close> has the range in whole microseconds (\<open>Duration::as_micros\<close>); \<open>EBinary\<close> carries the
  \<open>bool\<close> modifier, if the parser produced a modifier at all.
\<close>

datatype expr =
    EVector vector_selector
  | EMatrix vector_selector nat
  | ENumber f64
  | EString string
  | ECall string "expr list"
  | EAggregate token expr "expr option" "label_modifier option"
  | EBinary token expr expr "bool option"
  | EParen expr
  | EUnary expr
  | ESubquery expr
  | EExtension

section \<open>Operators\<close>

datatype bin_op = Add | Sub | Mul | Div | Mod | Pow | Eq | Ne | Lt | Le | Gt | Ge

datatype range_fn_op = Rate | Irate | Increase | Delta

datatype agg_op = Sum | Avg | Min | Max | Count

definition is_comparison :: "bin_op \<Rightarrow> bool" where
  "is_comparison op \<longleftrightarrow>
     (case op of Eq \<Rightarrow> True | Ne \<Rightarrow> True | Lt \<Rightarrow> True | Le \<Rightarrow> True | Gt \<Rightarrow> True | Ge \<Rightarrow> True | _ \<Rightarrow> False)"

fun parse_bin_op :: "token \<Rightarrow> bin_op option" where
  "parse_bin_op T_ADD = Some Add"
| "parse_bin_op T_SUB = Some Sub"
| "parse_bin_op T_MUL = Some Mul"
| "parse_bin_op T_DIV = Some Div"
| "parse_bin_op T_MOD = Some Mod"
| "parse_bin_op T_POW = Some Pow"
| "parse_bin_op T_EQLC = Some Eq"
| "parse_bin_op T_NEQ = Some Ne"
| "parse_bin_op T_LSS = Some Lt"
| "parse_bin_op T_LTE = Some Le"
| "parse_bin_op T_GTR = Some Gt"
| "parse_bin_op T_GTE = Some Ge"
| "parse_bin_op _ = None"

fun parse_agg_op :: "token \<Rightarrow> agg_op option" where
  "parse_agg_op T_SUM = Some Sum"
| "parse_agg_op T_AVG = Some Avg"
| "parse_agg_op T_MIN = Some Min"
| "parse_agg_op T_MAX = Some Max"
| "parse_agg_op T_COUNT = Some Count"
| "parse_agg_op _ = None"

definition parse_range_fn_op :: "string \<Rightarrow> range_fn_op option" where
  "parse_range_fn_op name =
     (let n = to_ascii_lowercase name in
      if n = ''rate'' then Some Rate
      else if n = ''irate'' then Some Irate
      else if n = ''increase'' then Some Increase
      else if n = ''delta'' then Some Delta
      else None)"

section \<open>Selectors inside a tree\<close>

fun extract_selector :: "expr \<Rightarrow> vector_selector option"
  and extract_first :: "expr list \<Rightarrow> vector_selector option" where
  "extract_selector (EVector v) = Some v"
| "extract_selector (EMatrix v r) = Some v"
| "extract_selector (ECall f args) = extract_first args"
| "extract_selector (EAggregate t e p m) = extract_selector e"
| "extract_selector (EBinary t l r m) =
     (case extract_selector l of Some v \<Rightarrow> Some v | None \<Rightarrow> extract_selector r)"
| "extract_selector (EParen e) = extract_selector e"
| "extract_selector (EUnary e) = extract_selector e"
| "extract_selector (ESubquery e) = extract_selector e"
| "extract_selector _ = None"
| "extract_first [] = None"
| "extract_first (e # es) =
     (case extract_selector e of Some v \<Rightarrow> Some v | None \<Rightarrow> extract_first es)"

fun pure_selector :: "expr \<Rightarrow> vector_selector option" where
  "pure_selector (EVector v) = Some v"
| "pure_selector (EParen e) = pure_selector e"
| "pure_selector _ = None"

lemma pure_selector_extract: "pure_selector e = Some v \<Longrightarrow> extract_selector e = Some v"
  by (induction e rule: pure_selector.induct) auto

section \<open>Query plans\<close>

datatype query_kind =
    KSelector vector_selector
  | KRangeFn vector_selector int range_fn_op
  | KAggregate agg_op "label_modifier option" expr
  | KHistogramQuantile f64 expr
  | KTopK nat bool "label_modifier option" expr
  | KBinary bin_op expr expr bool

text \<open>
  The recognisers of \<open>detect_query_kind\<close>, one per \<open>if let\<close>; the first that answers decides, and
  the selector unwrap takes whatever they leave.
\<close>

definition topk_count :: "f64 \<Rightarrow> nat" where
  "topk_count v = (if is_finite v \<and> f64_gt v (Num 0) then f64_to_usize v else 0)"

fun detect_aggregate :: "expr \<Rightarrow> query_kind option" where
  "detect_aggregate (EAggregate t e param modi) =
     (case (if t = T_TOPK \<or> t = T_BOTTOMK then
              (case param of
                 Some (ENumber v) \<Rightarrow> Some (KTopK (topk_count v) (t = T_TOPK) modi e)
               | _ \<Rightarrow> None)
            else None) of
        Some k \<Rightarrow> Some k
      | None \<Rightarrow> map_option (\<lambda>op. KAggregate op modi e) (parse_agg_op t))"
| "detect_aggregate _ = None"

fun detect_binary :: "expr \<Rightarrow> query_kind option" where
  "detect_binary (EBinary t l r modi) =
     map_option (\<lambda>op. KBinary op l r (case modi of Some b \<Rightarrow> b | None \<Rightarrow> False)) (parse_bin_op t)"
| "detect_binary _ = None"

fun detect_call :: "expr \<Rightarrow> query_kind option" where
  "detect_call (ECall name args) =
     (case (if eq_ignore_ascii_case name ''histogram_quantile'' \<and> length args = 2 then
              (case args ! 0 of ENumber q \<Rightarrow> Some (KHistogramQuantile q (args ! 1)) | _ \<Rightarrow> None)
            else None) of
        Some k \<Rightarrow> Some k
      | None \<Rightarrow>
          (case parse_range_fn_op name of
             None \<Rightarrow> None
           | Some op \<Rightarrow>
               (case args of
                  EMatrix v r # _ \<Rightarrow> Some (KRangeFn v (i64_wrap (int r)) op)
                | _ \<Rightarrow> None)))"
| "detect_call _ = None"

definition detect_query_kind :: "expr \<Rightarrow> query_kind option" where
  "detect_query_kind e =
     (case detect_aggregate e of Some k \<Rightarrow> Some k | None \<Rightarrow>
     (case detect_binary e of Some k \<Rightarrow> Some k | None \<Rightarrow>
     (case detect_call e of Some k \<Rightarrow> Some k | None \<Rightarrow>
        map_option KSelector (extract_selector e))))"

text \<open>\<open>aggregate_can_push_down\<close> and the modifier views of the push-down planners.\<close>

definition aggregate_can_push_down :: "label_modifier option \<Rightarrow> bool" where
  "aggregate_can_push_down modi \<longleftrightarrow>
     (case modi of None \<Rightarrow> True | Some (Include _) \<Rightarrow> True | Some (Exclude _) \<Rightarrow> True)"

definition modifier_excluded_keys :: "label_modifier option \<Rightarrow> string list option" where
  "modifier_excluded_keys modi = (case modi of Some (Exclude ls) \<Rightarrow> Some ls | _ \<Rightarrow> None)"

definition aggregate_group_keys :: "label_modifier option \<Rightarrow> string list" where
  "aggregate_group_keys modi = (case modi of Some (Include ls) \<Rightarrow> ls | _ \<Rightarrow> [])"

lemma aggregate_can_push_down_always [simp]: "aggregate_can_push_down modi"
  by (auto simp: aggregate_can_push_down_def split: option.splits label_modifier.splits)

fun pick_scalar :: "expr \<Rightarrow> f64 option" where
  "pick_scalar (ENumber v) = (if is_finite v then Some v else None)"
| "pick_scalar _ = None"

definition scalar_vector_pair :: "expr \<Rightarrow> expr \<Rightarrow> (f64 \<times> vector_selector \<times> bool) option" where
  "scalar_vector_pair l r =
     (case (pick_scalar l, pure_selector r) of
        (Some s, Some v) \<Rightarrow> Some (s, v, True)
      | _ \<Rightarrow>
          (case (pick_scalar r, pure_selector l) of
             (Some s, Some v) \<Rightarrow> Some (s, v, False)
           | _ \<Rightarrow> None))"

section \<open>Label matchers\<close>

definition effective_metric_name :: "vector_selector \<Rightarrow> string option" where
  "effective_metric_name sel =
     (case vsel_name sel of
        Some n \<Rightarrow> Some n
      | None \<Rightarrow>
          map_option mt_value
            (find (\<lambda>m. mt_name m = ''__name__'' \<and> (case mt_op m of MEqual \<Rightarrow> True | _ \<Rightarrow> False))
               (vsel_matchers sel)))"

definition label_filters_for_selector :: "vector_selector \<Rightarrow> matcher list" where
  "label_filters_for_selector sel =
     filter (\<lambda>m. case mt_op m of MRe _ \<Rightarrow> True | MNotRe _ \<Rightarrow> True | _ \<Rightarrow> False)
       (filter (\<lambda>m. mt_name m \<noteq> ''__name__'') (vsel_matchers sel))"

definition match_label :: "labels \<Rightarrow> matcher \<Rightarrow> bool" where
  "match_label lbls m =
     (let v = (case map_of lbls (mt_name m) of Some s \<Rightarrow> s | None \<Rightarrow> []) in
      case mt_op m of
        MEqual \<Rightarrow> v = mt_value m
      | MNotEqual \<Rightarrow> v \<noteq> mt_value m
      | MRe re \<Rightarrow> re v
      | MNotRe re \<Rightarrow> \<not> re v)"

section \<open>The planner's results\<close>

text \<open>The sub-expressions a plan still has to evaluate.\<close>

fun plan_parts :: "query_kind \<Rightarrow> expr list" where
  "plan_parts (KAggregate op m e) = [e]"
| "plan_parts (KHistogramQuantile q e) = [e]"
| "plan_parts (KTopK n tp m e) = [e]"
| "plan_parts (KBinary op l r b) = [l, r]"
| "plan_parts _ = []"

lemma size_nth_le_list: "i < length xs \<Longrightarrow> size (xs ! i) < Suc (size_list size xs)"
  by (metis le_imp_less_Suc nth_mem size_list_estimation' order_refl)

text \<open>Every part is smaller than the expression: the evaluators, which recurse through plans, terminate.\<close>

lemma detect_query_kind_smaller:
  assumes "detect_query_kind e = Some k" "p \<in> set (plan_parts k)"
  shows "size p < size e"
proof -
  consider "detect_aggregate e = Some k" | "detect_binary e = Some k" | "detect_call e = Some k"
    | v where "k = KSelector v"
    using assms(1) by (auto simp: detect_query_kind_def split: option.splits)
  then show ?thesis
  proof cases
    case 1
    then show ?thesis
      using assms(2) by (cases e) (auto split: option.splits if_splits expr.splits)
  next
    case 2
    then show ?thesis using assms(2) by (cases e) auto
  next
    case 3
    then obtain f args where e: "e = ECall f args" by (cases e) auto
    from 3 assms(2) have "length args = 2" "p = args ! 1"
      by (auto simp: e split: option.splits if_splits expr.splits list.splits)
    then show ?thesis using size_nth_le_list [of 1 args] by (simp add: e)
  next
    case 4
    then show ?thesis using assms(2) by simp
  qed
qed

end
