(* ===== verification/Prom_Ops.thy ===== *)
theory Prom_Ops
  imports Promql_Ast "HOL-Library.Multiset"
begin

text \<open>
  The vector operators of \<open>src/src/prometheus.rs\<close> that run in Rust: grouping by \<open>by\<close>/\<open>without\<close>,
  the aggregations, \<open>topk\<close>/\<open>bottomk\<close>, and the binary operators between scalars and vectors, each in
  its instant and its range form.

  \<open>powf\<close> is an argument: its last bits are the platform's. \<open>sort_by\<close> is a stable sort, which the
  standard library's is whenever the comparison is a total preorder; with a NaN among the values it
  is not, the order Rust leaves is unspecified, and the properties that speak of order exclude it.
\<close>

section \<open>Vectors\<close>

record instant_point =
  ip_metric :: string
  ip_labels :: labels
  ip_ts :: int
  ip_value :: f64

record range_points =
  rp_metric :: string
  rp_labels :: labels
  rp_points :: "(int \<times> f64) list"

section \<open>Stable sorting with a comparison function\<close>

fun insort_by :: "('a \<Rightarrow> 'a \<Rightarrow> ordering) \<Rightarrow> 'a \<Rightarrow> 'a list \<Rightarrow> 'a list" where
  "insort_by cmp x [] = [x]"
| "insort_by cmp x (y # ys) = (if cmp x y = Greater then y # insort_by cmp x ys else x # y # ys)"

definition sort_by :: "('a \<Rightarrow> 'a \<Rightarrow> ordering) \<Rightarrow> 'a list \<Rightarrow> 'a list" where
  "sort_by cmp xs = foldr (insort_by cmp) xs []"

lemma sort_by_simps [simp]: "sort_by cmp [] = []" "sort_by cmp (x # xs) = insort_by cmp x (sort_by cmp xs)"
  by (simp_all add: sort_by_def)

lemma mset_insort_by [simp]: "mset (insort_by cmp x xs) = add_mset x (mset xs)"
  by (induction xs) auto

lemma mset_sort_by [simp]: "mset (sort_by cmp xs) = mset xs"
  by (induction xs) auto

lemma set_sort_by [simp]: "set (sort_by cmp xs) = set xs"
  by (metis mset_sort_by set_mset_mset)

lemma length_sort_by [simp]: "length (sort_by cmp xs) = length xs"
  by (metis mset_sort_by size_mset)

text \<open>A comparison that is a total preorder on a set.\<close>

definition preorder_cmp :: "('a \<Rightarrow> 'a \<Rightarrow> ordering) \<Rightarrow> 'a set \<Rightarrow> bool" where
  "preorder_cmp cmp A \<longleftrightarrow>
     (\<forall>x \<in> A. \<forall>y \<in> A. cmp x y = Greater \<longrightarrow> cmp y x = Less) \<and>
     (\<forall>x \<in> A. \<forall>y \<in> A. \<forall>z \<in> A. cmp x y \<noteq> Greater \<longrightarrow> cmp y z \<noteq> Greater \<longrightarrow> cmp x z \<noteq> Greater)"

lemma preorder_cmp_asym: "preorder_cmp cmp A \<Longrightarrow> x \<in> A \<Longrightarrow> y \<in> A \<Longrightarrow> cmp x y = Greater \<Longrightarrow> cmp y x = Less"
  unfolding preorder_cmp_def by blast

lemma preorder_cmp_trans:
  "preorder_cmp cmp A \<Longrightarrow> x \<in> A \<Longrightarrow> y \<in> A \<Longrightarrow> z \<in> A \<Longrightarrow> cmp x y \<noteq> Greater \<Longrightarrow>
     cmp y z \<noteq> Greater \<Longrightarrow> cmp x z \<noteq> Greater"
  unfolding preorder_cmp_def by blast

lemma preorder_cmp_mono: "preorder_cmp cmp A \<Longrightarrow> B \<subseteq> A \<Longrightarrow> preorder_cmp cmp B"
  unfolding preorder_cmp_def by blast

lemma sorted_insort_by:
  assumes "preorder_cmp cmp (insert x (set xs))" "sorted_wrt (\<lambda>a b. cmp a b \<noteq> Greater) xs"
  shows "sorted_wrt (\<lambda>a b. cmp a b \<noteq> Greater) (insort_by cmp x xs)"
  using assms
proof (induction xs)
  case Nil
  then show ?case by simp
next
  case (Cons y ys)
  have sub: "preorder_cmp cmp (insert x (set ys))"
    by (rule preorder_cmp_mono [OF Cons.prems(1)]) auto
  have set: "set (insort_by cmp x ys) = insert x (set ys)"
    by (metis mset_insort_by set_mset_add_mset_insert set_mset_mset)
  show ?case
  proof (cases "cmp x y = Greater")
    case True
    with preorder_cmp_asym [OF Cons.prems(1), of x y] have "cmp y x \<noteq> Greater" by simp
    moreover have "sorted_wrt (\<lambda>a b. cmp a b \<noteq> Greater) (insort_by cmp x ys)"
      using Cons.IH [OF sub] Cons.prems(2) by simp
    ultimately show ?thesis using True Cons.prems(2) by (simp add: set)
  next
    case False
    have "cmp x z \<noteq> Greater" if "z \<in> set ys" for z
      using preorder_cmp_trans [OF Cons.prems(1), of x y z] False that Cons.prems(2) by simp
    with False Cons.prems show ?thesis by simp
  qed
qed

lemma sorted_sort_by:
  "preorder_cmp cmp (set xs) \<Longrightarrow> sorted_wrt (\<lambda>a b. cmp a b \<noteq> Greater) (sort_by cmp xs)"
proof (induction xs)
  case Nil
  then show ?case by simp
next
  case (Cons x xs)
  have "preorder_cmp cmp (set xs)" by (rule preorder_cmp_mono [OF Cons.prems]) auto
  then have "sorted_wrt (\<lambda>a b. cmp a b \<noteq> Greater) (sort_by cmp xs)" by (rule Cons.IH)
  with Cons.prems have "sorted_wrt (\<lambda>a b. cmp a b \<noteq> Greater) (insort_by cmp x (sort_by cmp xs))"
    by (intro sorted_insort_by) simp_all
  then show ?case by simp
qed

text \<open>The comparison of \<open>topk\<close>: \<open>partial_cmp\<close> with NaN taken as equal, reversed for \<open>topk\<close>.\<close>

definition value_cmp :: "bool \<Rightarrow> f64 \<Rightarrow> f64 \<Rightarrow> ordering" where
  "value_cmp tp a b = (if tp then ord_reverse (cmp_or_equal a b) else cmp_or_equal a b)"

lemma value_cmp_greater: "value_cmp tp a b = Greater \<longleftrightarrow> (if tp then f64_lt a b else f64_lt b a)"
  by (cases a; cases b) (auto simp: value_cmp_def cmp_or_equal_def)

lemma value_cmp_less: "value_cmp tp a b = Less \<longleftrightarrow> (if tp then f64_lt b a else f64_lt a b)"
  by (cases a; cases b) (auto simp: value_cmp_def cmp_or_equal_def)

lemma f64_le_lt_trans: "f64_le x y \<Longrightarrow> f64_lt y z \<Longrightarrow> f64_lt x z"
  by (cases x; cases y; cases z) (auto simp: f64_le_def)

lemma preorder_value_cmp:
  assumes "\<forall>x \<in> A. \<not> is_nan (g x)"
  shows "preorder_cmp (\<lambda>a b. value_cmp tp (g a) (g b)) A"
  unfolding preorder_cmp_def
proof (intro conjI ballI impI)
  fix x y z assume xyz: "x \<in> A" "y \<in> A" "z \<in> A"
    and c: "value_cmp tp (g x) (g y) \<noteq> Greater" "value_cmp tp (g y) (g z) \<noteq> Greater"
  have n: "\<not> is_nan (g x)" "\<not> is_nan (g y)" "\<not> is_nan (g z)" using assms xyz by auto
  show "value_cmp tp (g x) (g z) \<noteq> Greater"
  proof (cases tp)
    case True
    with c n have "f64_le (g z) (g y)" "f64_le (g y) (g x)"
      by (simp_all add: value_cmp_greater f64_not_lt)
    then have "f64_le (g z) (g x)" by (rule f64_le_trans)
    with True n show ?thesis by (simp add: value_cmp_greater f64_not_lt)
  next
    case False
    with c n have "f64_le (g x) (g y)" "f64_le (g y) (g z)"
      by (simp_all add: value_cmp_greater f64_not_lt)
    then have "f64_le (g x) (g z)" by (rule f64_le_trans)
    with False n show ?thesis by (simp add: value_cmp_greater f64_not_lt)
  qed
qed (simp add: value_cmp_greater value_cmp_less)

section \<open>Labels and series identity\<close>

definition retained_labels :: "labels \<Rightarrow> label_modifier option \<Rightarrow> labels" where
  "retained_labels lbls modi =
     (case modi of
        Some (Include ls) \<Rightarrow> filter (\<lambda>(k, v). k \<in> set ls) lbls
      | Some (Exclude ls) \<Rightarrow> filter (\<lambda>(k, v). k \<notin> set ls) lbls
      | None \<Rightarrow> [])"

fun join_with :: "string \<Rightarrow> string list \<Rightarrow> string" where
  "join_with sep [] = []"
| "join_with sep [s] = s"
| "join_with sep (s # ss) = s @ sep @ join_with sep ss"

definition series_key :: "string \<Rightarrow> labels \<Rightarrow> string" where
  "series_key metric lbls =
     metric @ ''{'' @ join_with '','' (map (\<lambda>(k, v). k @ ''='' @ v) lbls) @ ''}''"

section \<open>Scalar operations\<close>

definition f64_of_bool :: "bool \<Rightarrow> f64" where
  "f64_of_bool b = (if b then Num 1 else Num 0)"

fun apply_bin_value :: "(f64 \<Rightarrow> f64 \<Rightarrow> f64) \<Rightarrow> f64 \<Rightarrow> f64 \<Rightarrow> bin_op \<Rightarrow> f64" where
  "apply_bin_value powf a b Add = f64_add a b"
| "apply_bin_value powf a b Sub = f64_sub a b"
| "apply_bin_value powf a b Mul = f64_mul a b"
| "apply_bin_value powf a b Div = f64_div a b"
| "apply_bin_value powf a b Mod = f64_rem a b"
| "apply_bin_value powf a b Pow = powf a b"
| "apply_bin_value powf a b Eq = f64_of_bool (f64_eq a b)"
| "apply_bin_value powf a b Ne = f64_of_bool (f64_ne a b)"
| "apply_bin_value powf a b Lt = f64_of_bool (f64_lt a b)"
| "apply_bin_value powf a b Le = f64_of_bool (f64_le a b)"
| "apply_bin_value powf a b Gt = f64_of_bool (f64_gt a b)"
| "apply_bin_value powf a b Ge = f64_of_bool (f64_ge a b)"

fun comparison_passes :: "f64 \<Rightarrow> f64 \<Rightarrow> bin_op \<Rightarrow> bool" where
  "comparison_passes a b Eq = f64_eq a b"
| "comparison_passes a b Ne = f64_ne a b"
| "comparison_passes a b Lt = f64_lt a b"
| "comparison_passes a b Le = f64_le a b"
| "comparison_passes a b Gt = f64_gt a b"
| "comparison_passes a b Ge = f64_ge a b"
| "comparison_passes a b _ = True"

fun apply_agg :: "agg_op \<Rightarrow> f64 list \<Rightarrow> f64" where
  "apply_agg Sum vs = f64_sum vs"
| "apply_agg Avg vs =
     (if vs = [] then Num 0 else f64_div (f64_sum vs) (f64_of_int (int (length vs))))"
| "apply_agg Min vs = foldl f64_min PInf vs"
| "apply_agg Max vs = foldl f64_max NInf vs"
| "apply_agg Count vs = f64_of_int (int (length vs))"

text \<open>A comparison without \<open>bool\<close> filters; everything else computes a value and drops the name.\<close>

definition is_filter :: "bin_op \<Rightarrow> bool \<Rightarrow> bool" where
  "is_filter op return_bool \<longleftrightarrow> is_comparison op \<and> \<not> return_bool"

section \<open>Aggregation\<close>

definition aggregate_instant_points ::
    "instant_point list \<Rightarrow> agg_op \<Rightarrow> label_modifier option \<Rightarrow> int \<Rightarrow> instant_point list" where
  "aggregate_instant_points inner op modi time_us =
     map (\<lambda>(lbls, vs). \<lparr>ip_metric = [], ip_labels = lbls, ip_ts = time_us, ip_value = apply_agg op vs\<rparr>)
       (bt_group (\<lambda>p. retained_labels (ip_labels p) modi) ip_value inner)"

definition aggregate_group :: "agg_op \<Rightarrow> labels \<times> range_points list \<Rightarrow> range_points list" where
  "aggregate_group op = (\<lambda>(group_labels, members).
     let by_ts = bt_group fst snd (concat (map rp_points members));
         series_points = map (\<lambda>(ts, vs). (ts, apply_agg op vs)) by_ts
     in if series_points \<noteq> []
        then [\<lparr>rp_metric = [], rp_labels = group_labels, rp_points = series_points\<rparr>] else [])"

definition aggregate_range_points ::
    "range_points list \<Rightarrow> agg_op \<Rightarrow> label_modifier option \<Rightarrow> range_points list" where
  "aggregate_range_points inner op modi =
     concat (map (aggregate_group op)
       (bt_group (\<lambda>p. retained_labels (rp_labels p) modi) (\<lambda>p. p) inner))"

section \<open>\<open>topk\<close> and \<open>bottomk\<close>\<close>

definition topk_instant_points ::
    "instant_point list \<Rightarrow> nat \<Rightarrow> bool \<Rightarrow> label_modifier option \<Rightarrow> instant_point list" where
  "topk_instant_points inner n tp modi =
     (if n = 0 then []
      else concat (map (\<lambda>(lbls, members).
                          take n (sort_by (\<lambda>a b. value_cmp tp (ip_value a) (ip_value b)) members))
             (bt_group (\<lambda>p. retained_labels (ip_labels p) modi) (\<lambda>p. p) inner)))"

text \<open>The candidates of a group at one timestamp, in member order, and the best \<open>n\<close> of them.\<close>

definition topk_at :: "range_points list \<Rightarrow> nat \<Rightarrow> bool \<Rightarrow> int \<Rightarrow> (range_points \<times> f64) list" where
  "topk_at members n tp ts =
     (let at_ts = concat (map (\<lambda>m. case map_of (bt_collect (rp_points m)) ts of
                                     Some v \<Rightarrow> [(m, v)] | None \<Rightarrow> []) members)
      in take n (sort_by (\<lambda>a b. value_cmp tp (snd a) (snd b)) at_ts))"

definition topk_emit :: "int \<Rightarrow> (range_points \<times> f64) \<Rightarrow>
    (string, range_points) btree \<Rightarrow> (string, range_points) btree" where
  "topk_emit ts = (\<lambda>(m, v) out.
     bt_upd (series_key (rp_metric m) (rp_labels m))
       (\<lambda>old. case old of
          None \<Rightarrow> \<lparr>rp_metric = rp_metric m, rp_labels = rp_labels m, rp_points = [(ts, v)]\<rparr>
        | Some e \<Rightarrow> e\<lparr>rp_points := rp_points e @ [(ts, v)]\<rparr>) out)"

definition topk_group :: "nat \<Rightarrow> bool \<Rightarrow> range_points list \<Rightarrow>
    (string, range_points) btree \<Rightarrow> (string, range_points) btree" where
  "topk_group n tp members out =
     foldl (\<lambda>out ts. foldl (\<lambda>out mv. topk_emit ts mv out) out (topk_at members n tp ts)) out
       (map fst (bt_collect (concat (map rp_points members))))"

definition topk_range_points ::
    "range_points list \<Rightarrow> nat \<Rightarrow> bool \<Rightarrow> label_modifier option \<Rightarrow> range_points list" where
  "topk_range_points inner n tp modi =
     (if n = 0 then []
      else map snd (foldl (\<lambda>out g. topk_group n tp (snd g) out) []
             (bt_group (\<lambda>p. retained_labels (rp_labels p) modi) (\<lambda>p. p) inner)))"

section \<open>Binary operators\<close>

definition scalar_vector_point ::
    "(f64 \<Rightarrow> f64 \<Rightarrow> f64) \<Rightarrow> f64 \<Rightarrow> bin_op \<Rightarrow> bool \<Rightarrow> bool \<Rightarrow> f64 \<Rightarrow> f64 option" where
  "scalar_vector_point powf scalar op return_bool scalar_on_left v =
     (let (a, b) = (if scalar_on_left then (scalar, v) else (v, scalar)) in
      if is_filter op return_bool then (if comparison_passes a b op then Some v else None)
      else Some (apply_bin_value powf a b op))"

definition apply_scalar_vector_instant :: "(f64 \<Rightarrow> f64 \<Rightarrow> f64) \<Rightarrow> f64 \<Rightarrow> instant_point list \<Rightarrow>
    bin_op \<Rightarrow> bool \<Rightarrow> bool \<Rightarrow> instant_point list" where
  "apply_scalar_vector_instant powf scalar pts op return_bool scalar_on_left =
     List.map_filter (\<lambda>p.
       map_option (\<lambda>v. p\<lparr>ip_metric := (if is_filter op return_bool then ip_metric p else []), ip_value := v\<rparr>)
         (scalar_vector_point powf scalar op return_bool scalar_on_left (ip_value p))) pts"

definition apply_scalar_vector_range :: "(f64 \<Rightarrow> f64 \<Rightarrow> f64) \<Rightarrow> f64 \<Rightarrow> range_points list \<Rightarrow>
    bin_op \<Rightarrow> bool \<Rightarrow> bool \<Rightarrow> range_points list" where
  "apply_scalar_vector_range powf scalar series op return_bool scalar_on_left =
     filter (\<lambda>s. rp_points s \<noteq> [])
       (map (\<lambda>s. s\<lparr>rp_metric := (if is_filter op return_bool then rp_metric s else []),
                   rp_points := List.map_filter (\<lambda>(ts, v).
                     map_option (\<lambda>w. (ts, w))
                       (scalar_vector_point powf scalar op return_bool scalar_on_left v)) (rp_points s)\<rparr>)
         series)"

definition vector_vector_value ::
    "(f64 \<Rightarrow> f64 \<Rightarrow> f64) \<Rightarrow> bin_op \<Rightarrow> bool \<Rightarrow> f64 \<Rightarrow> f64 \<Rightarrow> f64 option" where
  "vector_vector_value powf op return_bool lv rv =
     (if is_filter op return_bool then (if comparison_passes lv rv op then Some lv else None)
      else Some (apply_bin_value powf lv rv op))"

definition apply_vector_vector_instant :: "(f64 \<Rightarrow> f64 \<Rightarrow> f64) \<Rightarrow> instant_point list \<Rightarrow>
    instant_point list \<Rightarrow> bin_op \<Rightarrow> bool \<Rightarrow> instant_point list" where
  "apply_vector_vector_instant powf lhs rhs op return_bool =
     (let rhs_index = bt_collect (map (\<lambda>r. (ip_labels r, r)) rhs) in
      List.map_filter (\<lambda>l.
        case map_of rhs_index (ip_labels l) of
          None \<Rightarrow> None
        | Some r \<Rightarrow>
            map_option (\<lambda>v. \<lparr>ip_metric = (if is_filter op return_bool then ip_metric l else []),
                             ip_labels = ip_labels l, ip_ts = ip_ts l, ip_value = v\<rparr>)
              (vector_vector_value powf op return_bool (ip_value l) (ip_value r))) lhs)"

definition apply_vector_vector_range :: "(f64 \<Rightarrow> f64 \<Rightarrow> f64) \<Rightarrow> range_points list \<Rightarrow>
    range_points list \<Rightarrow> bin_op \<Rightarrow> bool \<Rightarrow> range_points list" where
  "apply_vector_vector_range powf lhs rhs op return_bool =
     (let rhs_index = bt_collect (map (\<lambda>r. (rp_labels r, bt_collect (rp_points r))) rhs) in
      List.map_filter (\<lambda>l.
        case map_of rhs_index (rp_labels l) of
          None \<Rightarrow> None
        | Some r_pts \<Rightarrow>
            let new_points = List.map_filter (\<lambda>(ts, lv).
                  case map_of r_pts ts of
                    None \<Rightarrow> None
                  | Some rv \<Rightarrow> map_option (\<lambda>v. (ts, v)) (vector_vector_value powf op return_bool lv rv))
                  (rp_points l)
            in if new_points \<noteq> []
               then Some \<lparr>rp_metric = (if is_filter op return_bool then rp_metric l else []),
                          rp_labels = rp_labels l, rp_points = new_points\<rparr>
               else None) lhs)"

end
