(* ===== verification/Float64_Bounds.thy ===== *)
theory Float64_Bounds
  imports Float64
begin

text \<open>
  Bounds and monotonicity of the rounded operations: a rounded result lies between any two
  representable values the exact result lies between. Everything known of a computed quantile or
  rate follows from these.
\<close>

section \<open>Representable values\<close>

text \<open>
  The bounds below are about values a binary64 can hold, which is what reaches the code: the model's
  \<open>Num\<close> also covers rationals it cannot.
\<close>

definition repr :: "f64 \<Rightarrow> bool" where
  "repr x \<longleftrightarrow> is_finite x \<and> (x = NZero \<or> rnd (fval x) = x)"

lemma repr_finite: "repr x \<Longrightarrow> is_finite x"
  by (simp add: repr_def)

lemma repr_Num: "repr (Num r) \<longleftrightarrow> rnd r = Num r"
  by (simp add: repr_def)

lemma repr_0 [simp]: "repr (Num 0)" "repr NZero"
  by (simp_all add: repr_def)

lemma f64_eq_refl [simp]: "f64_eq x x \<longleftrightarrow> \<not> is_nan x"
  by (cases x) auto

lemma f64_le_finite:
  assumes "f64_le a x" "f64_le x b" "is_finite a" "is_finite b"
  shows "is_finite x"
  using assms by (cases a; cases x; cases b) (auto simp: f64_le_def)

lemma f64_le_fval: "f64_le x y \<Longrightarrow> is_finite x \<Longrightarrow> is_finite y \<Longrightarrow> fval x \<le> fval y"
  by (simp add: f64_le_fin)

lemma fval_neg [simp]: "is_finite x \<Longrightarrow> fval (f64_neg x) = - fval x"
  by (cases x) auto

lemma finite_neg [simp]: "is_finite (f64_neg x) = is_finite x"
  by (cases x) auto

lemma f64_add_cases:
  "is_finite x \<Longrightarrow> is_finite y \<Longrightarrow>
     f64_add x y = rnd (fval x + fval y) \<or> f64_add x y = NZero \<and> fval x + fval y = 0"
  by (cases x; cases y) auto

lemma f64_mul_cases:
  "is_finite x \<Longrightarrow> is_finite y \<Longrightarrow>
     f64_mul x y = rnd (fval x * fval y) \<or> f64_mul x y = NZero \<and> fval x * fval y = 0"
  by (cases x; cases y) (auto simp: f64_mul_def signed_zero_def Let_def)

lemma f64_div_cases:
  "is_finite x \<Longrightarrow> is_finite y \<Longrightarrow> fval y \<noteq> 0 \<Longrightarrow>
     f64_div x y = rnd (fval x / fval y) \<or> f64_div x y = NZero \<and> fval x / fval y = 0"
  by (cases x; cases y) (auto simp: f64_div_def signed_zero_def Let_def)

text \<open>What the three operations share: \<open>r\<close> is rounded, up to the sign of a zero.\<close>

definition rounds_to :: "f64 \<Rightarrow> rat \<Rightarrow> bool" where
  "rounds_to x r \<longleftrightarrow> x = rnd r \<or> x = NZero \<and> r = 0"

lemma add_rounds: "is_finite x \<Longrightarrow> is_finite y \<Longrightarrow> rounds_to (f64_add x y) (fval x + fval y)"
  using f64_add_cases by (auto simp: rounds_to_def)

lemma sub_rounds: "is_finite x \<Longrightarrow> is_finite y \<Longrightarrow> rounds_to (f64_sub x y) (fval x - fval y)"
  using add_rounds [of x "f64_neg y"] by (simp add: f64_sub_def)

lemma mul_rounds: "is_finite x \<Longrightarrow> is_finite y \<Longrightarrow> rounds_to (f64_mul x y) (fval x * fval y)"
  using f64_mul_cases by (auto simp: rounds_to_def)

lemma div_rounds:
  "is_finite x \<Longrightarrow> is_finite y \<Longrightarrow> fval y \<noteq> 0 \<Longrightarrow> rounds_to (f64_div x y) (fval x / fval y)"
  using f64_div_cases by (auto simp: rounds_to_def)

lemma rounds_mono:
  assumes "rounds_to x r" "rounds_to y s" "r \<le> s"
  shows "f64_le x y"
proof -
  have "f64_le x (rnd r)" "f64_le (rnd s) y"
    using assms(1,2) by (auto simp: rounds_to_def f64_le_def)
  with rnd_mono [OF assms(3)] show ?thesis by (blast intro: f64_le_trans)
qed

lemma repr_rounds: "repr x \<Longrightarrow> rounds_to x (fval x)"
  by (auto simp: repr_def rounds_to_def)

lemmas rounds_le = rounds_mono [OF _ repr_rounds] and le_rounds = rounds_mono [OF repr_rounds]

lemma repr_int: "\<bar>n\<bar> \<le> 2 ^ 53 \<Longrightarrow> repr (Num (of_int n))"
  by (simp add: repr_def rnd_int)

lemma repr_1 [simp]: "repr (Num 1)"
  using repr_int [of 1] by simp

text \<open>An exact difference between bounds is computed exactly.\<close>

lemma rounds_exact:
  assumes "rounds_to x r" "repr (Num r)"
  shows "is_finite x" and "fval x = r"
  using assms by (auto simp: rounds_to_def repr_def)

text \<open>Every \<open>n * 2 ^ e\<close> with at most 53 significant bits and an exponent in range is a binary64.\<close>

lemma rnd_pos_dyadic:
  assumes "0 < n" "n < 2 ^ 53" "- 1074 \<le> e"
  shows "rnd_pos (of_int n * pow2 e) = of_int n * pow2 e"
proof -
  let ?r = "of_int n * pow2 e :: rat"
  have pos: "0 < ?r" using assms by simp
  have "(of_int n :: rat) < of_int (2 ^ 53)" using assms by (simp only: of_int_less_iff)
  then have "?r < pow2 53 * pow2 e" by (simp add: pow2_nat)
  with ilog2_bounds(1) [OF pos] have "pow2 (ilog2 ?r) < pow2 (53 + e)"
    unfolding pow2_add by (rule le_less_trans)
  then have "ilog2 ?r < 53 + e" by (rule pow2_less_cancel)
  then have le: "rexp ?r \<le> e" using assms by (simp add: rexp_def)
  have "pow2 e = of_int (2 ^ nat (e - rexp ?r)) * pow2 (rexp ?r)"
    using pow2_on_grid [OF le] by (simp add: field_simps)
  then have "?r = of_int (n * 2 ^ nat (e - rexp ?r)) * pow2 (rexp ?r)"
    by (metis mult.assoc of_int_mult)
  then show ?thesis by (rule rnd_pos_grid)
qed

lemma rnd_dyadic:
  assumes "\<bar>n\<bar> < 2 ^ 53" "- 1074 \<le> e" "e \<le> 971" "n \<noteq> 0"
  shows "rnd (of_int n * pow2 e) = Num (of_int n * pow2 e)"
proof -
  have small: "\<not> pow2 1024 \<le> of_int m * pow2 e" if "0 < m" "m < 2 ^ 53" for m
  proof -
    have "(of_int m :: rat) < of_int (2 ^ 53)" using that by (simp only: of_int_less_iff)
    then have "of_int m * pow2 e < pow2 53 * pow2 e" by (simp add: pow2_nat)
    also have "\<dots> \<le> pow2 1024" using pow2_mono [of "53 + e" 1024] assms(3) by (simp add: pow2_add)
    finally show ?thesis by simp
  qed
  consider "0 < n" | "0 < - n" using assms(4) by linarith
  then show ?thesis
  proof cases
    case 1
    then show ?thesis using assms small [of n] rnd_pos_dyadic [of n e] by (simp add: rnd_def)
  next
    case 2
    then have "\<not> 0 < of_int n * pow2 e" "(of_int n :: rat) * pow2 e \<noteq> 0"
      by (simp_all add: zero_less_mult_iff not_less)
    then show ?thesis
      using 2 assms small [of "- n"] rnd_pos_dyadic [of "- n" e] by (simp add: rnd_def)
  qed
qed

lemma pow2_small: "pow2 (- 1) = 1 / 2" "pow2 (- 2) = 1 / 4"
  by (simp_all add: pow2_def power_int_def field_simps)

lemma rnd_half [simp]: "rnd (1 / 2) = Num (1 / 2)" and rnd_quarter [simp]: "rnd (1 / 4) = Num (1 / 4)"
proof -
  have b: "\<bar>1 :: int\<bar> < 2 ^ 53" by simp
  show "rnd (1 / 2) = Num (1 / 2)" "rnd (1 / 4) = Num (1 / 4)"
    using rnd_dyadic [OF b, of "- 1"] rnd_dyadic [OF b, of "- 2"] by (simp_all only: pow2_small) simp_all
qed

end
