(* ===== verification/Prom_Params.thy ===== *)
theory Prom_Params
  imports Prom_Ops Float64_Bounds
begin

text \<open>
  The edges of the Prometheus API (\<open>src/src/prometheus.rs\<close>): errors, the time and duration
  parameters, SQL string literals, and the JSON a result is turned into.

  \<open>prom_env\<close> collects what is not in the repository: \<open>chrono\<close>'s RFC 3339 parser and date formatter,
  Rust's shortest \<open>f64\<close> printing, \<open>powf\<close>, the PromQL parser, the clock, and the SQL engine's reading
  of a timestamp literal.
\<close>

section \<open>Parameters\<close>

record prom_env =
  pe_rfc3339 :: "string \<Rightarrow> int option"
  pe_micros_ok :: "int \<Rightarrow> bool"
  pe_ts_text :: "int \<Rightarrow> string"
  pe_read_ts :: "string \<Rightarrow> int option"
  pe_f64_text :: "f64 \<Rightarrow> string"
  pe_powf :: "f64 \<Rightarrow> f64 \<Rightarrow> f64"
  pe_parse :: "string \<Rightarrow> string + expr"
  pe_now :: int

section \<open>Errors\<close>

datatype prom_status = BadRequest400 | InternalServerError500

record prom_error =
  pr_status :: prom_status
  pr_type :: string
  pr_message :: string

definition bad_data :: "string \<Rightarrow> prom_error" where
  "bad_data msg = \<lparr>pr_status = BadRequest400, pr_type = ''bad_data'', pr_message = msg\<rparr>"

definition prom_internal :: "string \<Rightarrow> prom_error" where
  "prom_internal msg = \<lparr>pr_status = InternalServerError500, pr_type = ''internal'', pr_message = msg\<rparr>"

section \<open>JSON\<close>

text \<open>An object is a map; \<open>JNum\<close> holds a finite float and \<open>JInt\<close> an integer.\<close>

datatype json =
    JNull
  | JBool bool
  | JNum f64
  | JInt int
  | JStr string
  | JArr "json list"
  | JObj "(string \<times> json) list"

definition json_obj :: "(string \<times> json) list \<Rightarrow> json" where
  "json_obj kvs = JObj (bt_collect kvs)"

definition error_body :: "prom_error \<Rightarrow> json" where
  "error_body e = json_obj [(''status'', JStr ''error''), (''errorType'', JStr (pr_type e)), (''error'', JStr (pr_message e))]"

definition series_metric_obj :: "string \<Rightarrow> labels \<Rightarrow> json" where
  "series_metric_obj metric lbls =
     json_obj ((''__name__'', JStr metric) # map (\<lambda>(k, v). (k, JStr v)) lbls)"

definition metric_obj_no_name :: "labels \<Rightarrow> json" where
  "metric_obj_no_name lbls = json_obj (map (\<lambda>(k, v). (k, JStr v)) lbls)"

definition metric_json :: "string \<Rightarrow> labels \<Rightarrow> json" where
  "metric_json metric lbls =
     (if metric = [] then metric_obj_no_name lbls else series_metric_obj metric lbls)"

definition ts_json :: "int \<Rightarrow> json" where
  "ts_json us = JNum (f64_div (f64_of_int us) (Num 1000000))"

definition instant_points_to_json :: "prom_env \<Rightarrow> instant_point list \<Rightarrow> json list" where
  "instant_points_to_json E pts =
     map (\<lambda>p. json_obj [(''metric'', metric_json (ip_metric p) (ip_labels p)),
                        (''value'', JArr [ts_json (ip_ts p), JStr (pe_f64_text E (ip_value p))])]) pts"

definition range_points_to_json :: "prom_env \<Rightarrow> range_points list \<Rightarrow> json list" where
  "range_points_to_json E series =
     map (\<lambda>s. json_obj [(''metric'', metric_json (rp_metric s) (rp_labels s)),
                        (''values'', JArr (map (\<lambda>(ts, v). JArr [ts_json ts, JStr (pe_f64_text E v)])
                            (rp_points s)))]) series"

definition success_vector :: "json list \<Rightarrow> json" where
  "success_vector result =
     json_obj [(''status'', JStr ''success''),
               (''data'', json_obj [(''resultType'', JStr ''vector''), (''result'', JArr result)])]"

definition success_matrix :: "json list \<Rightarrow> json" where
  "success_matrix result =
     json_obj [(''status'', JStr ''success''),
               (''data'', json_obj [(''resultType'', JStr ''matrix''), (''result'', JArr result)])]"

section \<open>Timestamps\<close>

definition secs_to_us :: "f64 \<Rightarrow> int" where
  "secs_to_us secs = f64_to_i64 (f64_mul secs (Num 1000000))"

definition parse_timestamp :: "prom_env \<Rightarrow> string \<Rightarrow> prom_error + int" where
  "parse_timestamp E s =
     (case f64_of_string s of
        Some secs \<Rightarrow> Inr (secs_to_us secs)
      | None \<Rightarrow>
          (case pe_rfc3339 E s of
             Some us \<Rightarrow> Inr us
           | None \<Rightarrow> Inl (bad_data (''invalid timestamp: '' @ s))))"

text \<open>The text of a timestamp in SQL: out of \<open>chrono\<close>'s range it is the epoch.\<close>

definition us_to_ts_lit :: "prom_env \<Rightarrow> int \<Rightarrow> string" where
  "us_to_ts_lit E us = pe_ts_text E (if pe_micros_ok E us then us else 0)"

section \<open>Durations\<close>

text \<open>
  \<open>str::trim\<close> removes Unicode white space, which is one to three bytes here; a string is UTF-8, so
  the sequences are matched as bytes.
\<close>

definition bytes_str :: "nat list \<Rightarrow> string" where
  "bytes_str ns = map char_of ns"

definition white_space :: "string list" where
  "white_space =
     map (\<lambda>n. [char_of n]) [9, 10, 11, 12, 13, 32 :: nat] @
     map (\<lambda>n. bytes_str [194, n]) [133, 160] @ [bytes_str [225, 154, 128]] @
     map (\<lambda>n. bytes_str [226, 128, n]) [128, 129, 130, 131, 132, 133, 134, 135, 136, 137, 138, 168, 169, 175] @
     [bytes_str [226, 129, 159], bytes_str [227, 128, 128]]"

definition leading_space :: "string list \<Rightarrow> string \<Rightarrow> nat" where
  "leading_space ws s = (case find (\<lambda>w. take (length w) s = w) ws of Some w \<Rightarrow> length w | None \<Rightarrow> 0)"

function trim_front :: "string list \<Rightarrow> string \<Rightarrow> string" where
  "trim_front ws s =
     (if leading_space ws s = 0 \<or> s = [] then s else trim_front ws (drop (leading_space ws s) s))"
  by pat_completeness auto

termination
  by (relation "measure (\<lambda>(ws, s). length s)") auto

declare trim_front.simps [simp del]

definition trim :: "string \<Rightarrow> string" where
  "trim s = rev (trim_front (map rev white_space) (rev (trim_front white_space s)))"

definition is_continuation :: "char \<Rightarrow> bool" where
  "is_continuation c \<longleftrightarrow> 128 \<le> (of_char c :: nat) \<and> (of_char c :: nat) < 192"

text \<open>\<open>split_at\<close> inside a character panics.\<close>

datatype 'a may_panic = Panicked | Returns 'a

definition duration_scale :: "string \<Rightarrow> f64 option" where
  "duration_scale unit =
     (if unit = ''s'' then Some (Num 1000000)
      else if unit = ''m'' then Some (Num 60000000)
      else if unit = ''h'' then Some (Num 3600000000)
      else if unit = ''d'' then Some (Num 86400000000)
      else None)"

definition parse_duration_us :: "string \<Rightarrow> (prom_error + int) may_panic" where
  "parse_duration_us s0 =
     (case f64_of_string s0 of
        Some secs \<Rightarrow> Returns (Inr (secs_to_us secs))
      | None \<Rightarrow>
          (let s = trim s0 in
           if s = [] then Returns (Inl (bad_data ''empty duration''))
           else if is_continuation (last s) then Panicked
           else Returns
             (case f64_of_string (butlast s) of
                None \<Rightarrow> Inl (bad_data (''invalid duration: '' @ s))
              | Some n \<Rightarrow>
                  (case duration_scale [last s] of
                     None \<Rightarrow> Inl (bad_data (''invalid duration unit: '' @ s))
                   | Some scale \<Rightarrow> Inr (f64_to_i64 (f64_mul n scale))))))"

section \<open>SQL string literals\<close>

text \<open>\<open>s.replace('\'', "''")\<close>.\<close>

fun sql_escape :: "string \<Rightarrow> string" where
  "sql_escape [] = []"
| "sql_escape (c # s) = (if c = CHR 0x27 then [CHR 0x27, CHR 0x27] else [c]) @ sql_escape s"

definition sql_quote :: "string \<Rightarrow> string" where
  "sql_quote s = [CHR 0x27] @ s @ [CHR 0x27]"

definition quoted_keys_list :: "string list \<Rightarrow> string" where
  "quoted_keys_list keys = join_with '', '' (map (\<lambda>k. sql_quote (sql_escape k)) keys)"

text \<open>
  How SQL reads a character string literal, after the opening quote: a doubled quote is a quote, a
  single one ends the literal. The value and the rest of the text.
\<close>

fun sql_read_literal :: "string \<Rightarrow> (string \<times> string) option" where
  "sql_read_literal [] = None"
| "sql_read_literal (c # s) =
     (if c = CHR 0x27 then
        (case s of
           [] \<Rightarrow> Some ([], [])
         | d # s' \<Rightarrow>
             if d = CHR 0x27 then map_option (\<lambda>(v, r). (CHR 0x27 # v, r)) (sql_read_literal s')
             else Some ([], s))
      else map_option (\<lambda>(v, r). (c # v, r)) (sql_read_literal s))"

lemma sql_read_escaped:
  "rest = [] \<or> hd rest \<noteq> CHR 0x27 \<Longrightarrow>
     sql_read_literal (sql_escape s @ [CHR 0x27] @ rest) = Some (s, rest)"
proof (induction s)
  case Nil
  then show ?case by (cases rest) auto
next
  case (Cons c s)
  then show ?case by (cases "c = CHR 0x27") auto
qed

text \<open>
  (C40) No metric name, label name or label value can escape the SQL literal it is put in: whatever
  its characters, the text the code emits for it is read back as exactly that string, ending where
  the code ended it, as long as the text after the literal does not begin with a quote.
\<close>

theorem sql_literal_safe:
  assumes "rest = [] \<or> hd rest \<noteq> CHR 0x27"
  shows "sql_read_literal (tl (sql_quote (sql_escape s) @ rest)) = Some (s, rest)"
  using sql_read_escaped [OF assms, of s] by (simp add: sql_quote_def)

theorem sql_literal_safe_witness:
  "sql_read_literal (tl (sql_quote (sql_escape ([CHR 0x27] @ ''; DROP TABLE samples'')) @ '' AND TRUE'')) =
     Some ([CHR 0x27] @ ''; DROP TABLE samples'', '' AND TRUE'')"
  by (rule sql_literal_safe) simp

section \<open>Reading durations\<close>

lemma trim_front_id: "s = [] \<or> (\<forall>w \<in> set ws. w \<noteq> [] \<and> hd w \<noteq> hd s) \<Longrightarrow> trim_front ws s = s"
proof -
  assume a: "s = [] \<or> (\<forall>w \<in> set ws. w \<noteq> [] \<and> hd w \<noteq> hd s)"
  have "leading_space ws s = 0" if "s \<noteq> []"
  proof -
    have "take (length w) s \<noteq> w" if "w \<in> set ws" for w
      using a that \<open>s \<noteq> []\<close> by (cases w; cases s) auto
    then show ?thesis by (auto simp: leading_space_def find_None_iff split: option.splits dest!: find_Some_iff [THEN iffD1])
  qed
  then show ?thesis by (subst trim_front.simps) auto
qed

lemma white_space_ends:
  "w \<in> set white_space \<Longrightarrow> w \<noteq> [] \<and> (of_char (hd w) :: nat) \<in> {9, 10, 11, 12, 13, 32, 194, 225, 226, 227} \<and>
     ((of_char (last w) :: nat) \<in> {9, 10, 11, 12, 13, 32} \<or> is_continuation (last w))"
  by (auto simp: white_space_def bytes_str_def is_continuation_def)

lemma trim_id:
  assumes "s \<noteq> []" "48 \<le> (of_char (hd s) :: nat)" "(of_char (hd s) :: nat) < 128"
    "48 \<le> (of_char (last s) :: nat)" "(of_char (last s) :: nat) < 128"
  shows "trim s = s"
proof -
  have "trim_front white_space s = s"
    using assms white_space_ends by (intro trim_front_id) fastforce
  moreover have "trim_front (map rev white_space) (rev s) = rev s"
    using assms white_space_ends by (intro trim_front_id) (fastforce simp: hd_rev is_continuation_def)
  ultimately show ?thesis by (simp add: trim_def)
qed

lemma set_trim_front: "set (trim_front ws s) \<subseteq> set s"
proof (induction ws s rule: trim_front.induct)
  case (1 ws s)
  then show ?case by (subst trim_front.simps) (auto dest: in_set_dropD)
qed

lemma set_trim: "set (trim s) \<subseteq> set s"
  using set_trim_front [of "map rev white_space" "rev (trim_front white_space s)"] set_trim_front [of white_space s]
  by (auto simp: trim_def)

text \<open>
  The step parameter of a range query is read without panicking when it is ASCII text; one that
  ends in a character of several bytes, and is not a number, makes the handler panic instead of
  answering with an error: \<open>split_at\<close> cuts the character in two.
\<close>

theorem duration_panics_non_ascii:
  assumes "\<forall>c \<in> set s. (of_char c :: nat) < 128"
  shows "parse_duration_us s \<noteq> Panicked \<and> parse_duration_us (''5'' @ bytes_str [194, 181]) = Panicked"
proof
  have "\<not> is_continuation (last (trim s))" if "trim s \<noteq> []"
  proof -
    have "last (trim s) \<in> set s" using set_trim last_in_set [OF that] by blast
    with assms have "(of_char (last (trim s)) :: nat) < 128" by blast
    then show ?thesis by (simp add: is_continuation_def)
  qed
  then show "parse_duration_us s \<noteq> Panicked"
    by (auto simp: parse_duration_us_def Let_def split: option.splits)
  show "parse_duration_us (''5'' @ bytes_str [194, 181]) = Panicked" by code_simp
qed

theorem duration_panics_non_ascii_witness:
  "parse_duration_us ''15x'' \<noteq> Panicked \<and> parse_duration_us (''5'' @ bytes_str [194, 181]) = Panicked"
  by (rule duration_panics_non_ascii) simp

text \<open>Seconds, minutes, hours and days, in microseconds.\<close>

lemma f64_of_string_unit:
  assumes "c \<in> {CHR ''s'', CHR ''m'', CHR ''h'', CHR ''d''}"
  shows "f64_of_string (dec_of_nat n @ [c]) = None"
proof -
  have d: "list_all is_digit (dec_of_nat n)" "dec_of_nat n \<noteq> []" using dec_of_nat_all_digits by auto
  have nc: "\<not> is_digit c" using assms by (auto simp: is_digit_def)
  have tw: "takeWhile is_digit (dec_of_nat n @ [c]) = dec_of_nat n" "dropWhile is_digit (dec_of_nat n @ [c]) = [c]"
    using d nc by (simp_all add: list_all_iff takeWhile_append dropWhile_append)
  have p: "parse_decimal (dec_of_nat n @ [c]) = None"
    unfolding parse_decimal_def tw using assms d by auto
  obtain a s where s: "dec_of_nat n = a # s" "is_digit a" using d by (cases "dec_of_nat n") auto
  have "\<not> eq_ignore_ascii_case (dec_of_nat n @ [c]) (w # ws)" if "\<not> is_digit (ascii_lower w)" for w ws
    using s that by (auto simp: eq_ignore_ascii_case_def to_ascii_lowercase_def ascii_lower_digit)
  moreover have "\<not> is_digit (ascii_lower (CHR ''i''))" "\<not> is_digit (ascii_lower (CHR ''n''))" by code_simp+
  moreover have "strip_sign (dec_of_nat n @ [c]) = (False, dec_of_nat n @ [c])"
    using s by (auto simp: is_digit_def)
  ultimately show ?thesis by (simp add: f64_of_string_def p)
qed

lemma f64_to_i64_int: "\<bar>m\<bar> \<le> 2 ^ 53 \<Longrightarrow> f64_to_i64 (Num (of_int m)) = m"
  by (auto simp: f64_to_i64_def rat_trunc_def i64_sat_id i64_ok_def i64_min_def i64_max_def)

text \<open>
  \<open>15s\<close>, \<open>5m\<close>, \<open>2h\<close>, \<open>1d\<close>: a whole number with a unit is that many microseconds exactly, as
  long as the result is below \<open>2 ^ 53\<close>.
\<close>

theorem duration_units_exact:
  assumes "(c, k) \<in> {(CHR ''s'', 1000000), (CHR ''m'', 60000000), (CHR ''h'', 3600000000), (CHR ''d'', 86400000000)}"
    "int n * k \<le> 2 ^ 53"
  shows "parse_duration_us (dec_of_nat n @ [c]) = Returns (Inr (int n * k))"
proof -
  have c: "c \<in> {CHR ''s'', CHR ''m'', CHR ''h'', CHR ''d''}" using assms(1) by auto
  have d: "list_all is_digit (dec_of_nat n)" "dec_of_nat n \<noteq> []" using dec_of_nat_all_digits by auto
  then have hd: "48 \<le> (of_char (hd (dec_of_nat n)) :: nat)" "(of_char (hd (dec_of_nat n)) :: nat) < 128"
    by (cases "dec_of_nat n"; auto simp: is_digit_def)+
  have t: "trim (dec_of_nat n @ [c]) = dec_of_nat n @ [c]"
    using c d hd by (intro trim_id) auto
  have nc: "\<not> is_continuation c" using c by (auto simp: is_continuation_def)
  have k: "1 \<le> k" using assms(1) by auto
  have "int n * 1 \<le> int n * k" using k by (intro mult_left_mono) auto
  then have n: "int n \<le> 2 ^ 53" using assms(2) by simp
  have v: "f64_of_string (dec_of_nat n) = Some (Num (of_nat n))"
    using f64_of_string_dec_of_nat [of n] rnd_int [of "int n"] n by simp
  have "f64_mul (Num (of_nat n)) (Num (of_int k)) = Num (of_int (int n * k))"
    using rnd_int [of "int n * k"] assms(2) k by (auto simp: f64_mul_def signed_zero_def)
  moreover have "f64_to_i64 (Num (of_int (int n * k))) = int n * k"
    using assms(2) k by (intro f64_to_i64_int) auto
  moreover have "duration_scale [c] = Some (Num (of_int k))"
    using assms(1) by (auto simp: duration_scale_def)
  ultimately show ?thesis
    by (simp add: parse_duration_us_def f64_of_string_unit [OF c] t nc v)
qed

theorem duration_units_exact_witness: "parse_duration_us (dec_of_nat 5 @ ''m'') = Returns (Inr (int 5 * 60000000))"
  by (rule duration_units_exact) simp_all

end
