(* ===== verification/Selector.thy ===== *)
theory Selector
  imports Prom_Params
begin

text \<open>
  Reading the tables (\<open>src/src/prometheus.rs\<close>): the SQL predicates of a vector selector, the one
  statement that runs it, the two selector evaluators on top of it, and the \<open>labels\<close>,
  \<open>label/{name}/values\<close> and \<open>series\<close> endpoints.

  A SQL statement of the source is the list function that SQL defines for it: a table is its rows in
  scan order, \<open>JOIN\<close> pairs rows, \<open>WHERE\<close> filters, \<open>ORDER BY\<close> sorts, keeping ties in scan order (a
  different order of ties is a different scan order). What the engine is free to choose is in
  \<open>query_env\<close>: whether a statement fails, and how it adds up, averages and orders floats.
\<close>

section \<open>The tables and the engine\<close>

record series_tuple =
  st_id :: int
  st_metric :: string
  st_labels :: "(string \<times> string) list"

record database =
  db_series :: "series_tuple list"
  db_samples :: "(int \<times> int \<times> f64) list"

text \<open>
  \<open>qe_fault\<close> maps the context of a statement, as its error message names it, to an error;
  \<open>qe_agg\<close> is \<open>SUM\<close>, \<open>AVG\<close>, \<open>MIN\<close> and \<open>MAX\<close> over a non-empty column of floats; \<open>qe_cmp\<close> the
  comparison operators and \<open>qe_le\<close> the order of \<open>ORDER BY\<close> on floats, which engines extend to NaN in
  their own ways; \<open>qe_try_cast\<close> is \<open>TRY_CAST(... AS DOUBLE)\<close>.
\<close>

record query_env =
  qe_prom :: prom_env
  qe_db :: database
  qe_fault :: "string \<Rightarrow> string option"
  qe_agg :: "agg_op \<Rightarrow> f64 list \<Rightarrow> f64"
  qe_cmp :: "bin_op \<Rightarrow> f64 \<Rightarrow> f64 \<Rightarrow> bool"
  qe_le :: "f64 \<Rightarrow> f64 \<Rightarrow> bool"
  qe_try_cast :: "string \<Rightarrow> f64 option"

definition lookback_us :: int where
  "lookback_us = 5 * 60 * 1000000"

section \<open>Predicates of a selector\<close>

datatype sql_cond = MetricIs string | LabelIs string string | LabelIsNot string string

definition selector_conds :: "vector_selector \<Rightarrow> sql_cond list" where
  "selector_conds sel =
     (case effective_metric_name sel of Some name \<Rightarrow> [MetricIs name] | None \<Rightarrow> []) @
     concat (map (\<lambda>m.
       if mt_name m = ''__name__'' then []
       else (case mt_op m of
               MEqual \<Rightarrow> [LabelIs (mt_name m) (mt_value m)]
             | MNotEqual \<Rightarrow> [LabelIsNot (mt_name m) (mt_value m)]
             | _ \<Rightarrow> [])) (vsel_matchers sel))"

fun cond_sql :: "sql_cond \<Rightarrow> string" where
  "cond_sql (MetricIs name) = ''s.metric_name = '' @ sql_quote (sql_escape name)"
| "cond_sql (LabelIs k v) =
     ''element_at(s.labels, '' @ sql_quote (sql_escape k) @ '')[1] = '' @ sql_quote (sql_escape v)"
| "cond_sql (LabelIsNot k v) =
     ''COALESCE(element_at(s.labels, '' @ sql_quote (sql_escape k) @ '')[1], '' @ sql_quote [] @ '') != '' @
     sql_quote (sql_escape v)"

definition selector_predicates :: "vector_selector \<Rightarrow> string list" where
  "selector_predicates sel = map cond_sql (selector_conds sel)"

text \<open>\<open>element_at(m, k)[1]\<close> is \<open>NULL\<close> when \<open>k\<close> is missing, and a comparison with \<open>NULL\<close> is not true.\<close>

fun cond_holds :: "sql_cond \<Rightarrow> series_tuple \<Rightarrow> bool" where
  "cond_holds (MetricIs name) s = (st_metric s = name)"
| "cond_holds (LabelIs k v) s = (case map_of (st_labels s) k of Some w \<Rightarrow> w = v | None \<Rightarrow> False)"
| "cond_holds (LabelIsNot k v) s = ((case map_of (st_labels s) k of Some w \<Rightarrow> w | None \<Rightarrow> []) \<noteq> v)"

definition where_holds :: "vector_selector \<Rightarrow> series_tuple \<Rightarrow> bool" where
  "where_holds sel s \<longleftrightarrow> list_all (\<lambda>c. cond_holds c s) (selector_conds sel)"

section \<open>Running a statement over a time window\<close>

text \<open>\<open>samples sa JOIN series s ON sa.series_id = s.series_id WHERE ... AND sa.timestamp BETWEEN lo AND hi\<close>\<close>

definition window_join :: "database \<Rightarrow> vector_selector \<Rightarrow> int \<Rightarrow> int \<Rightarrow> (series_tuple \<times> int \<times> f64) list" where
  "window_join db sel lo hi =
     concat (map (\<lambda>(sid, ts, v).
         map (\<lambda>s. (s, ts, v))
           (filter (\<lambda>s. st_id s = sid \<and> where_holds sel s \<and> lo \<le> ts \<and> ts \<le> hi) (db_series db)))
       (db_samples db))"

text \<open>The statement fails if the engine does, or if it cannot read a bound.\<close>

definition run_stmt :: "query_env \<Rightarrow> string \<Rightarrow> int \<Rightarrow> int \<Rightarrow> (int \<Rightarrow> int \<Rightarrow> 'r) \<Rightarrow> prom_error + 'r" where
  "run_stmt Q tag lo hi f =
     (case qe_fault Q tag of
        Some e \<Rightarrow> Inl (prom_internal (tag @ '' '' @ e))
      | None \<Rightarrow>
          (case (pe_read_ts (qe_prom Q) (us_to_ts_lit (qe_prom Q) lo),
                 pe_read_ts (qe_prom Q) (us_to_ts_lit (qe_prom Q) hi)) of
             (Some a, Some b) \<Rightarrow> Inr (f a b)
           | _ \<Rightarrow> Inl (prom_internal (tag @ '' sql: timestamp''))))"

definition labels_to_btree :: "(string \<times> string) list \<Rightarrow> labels" where
  "labels_to_btree kvs = bt_collect kvs"

record selector_row =
  row_metric :: string
  row_labels :: labels
  row_ts :: int
  row_value :: f64

definition regex_passes :: "vector_selector \<Rightarrow> labels \<Rightarrow> bool" where
  "regex_passes sel lbls \<longleftrightarrow> list_all (match_label lbls) (label_filters_for_selector sel)"

definition selector_rows :: "database \<Rightarrow> vector_selector \<Rightarrow> int \<Rightarrow> int \<Rightarrow> selector_row list" where
  "selector_rows db sel lo hi =
     filter (\<lambda>r. regex_passes sel (row_labels r))
       (map (\<lambda>(s, ts, v). \<lparr>row_metric = st_metric s, row_labels = labels_to_btree (st_labels s),
                           row_ts = ts, row_value = v\<rparr>)
         (sort_key (\<lambda>(s, ts, v). (st_metric s, ts)) (window_join db sel lo hi)))"

definition run_selector_query :: "query_env \<Rightarrow> vector_selector \<Rightarrow> int \<Rightarrow> int \<Rightarrow> prom_error + selector_row list" where
  "run_selector_query Q sel from_us to_us =
     run_stmt Q ''selector'' from_us to_us (selector_rows (qe_db Q) sel)"

section \<open>The selector evaluators\<close>

definition latest_insert :: "selector_row \<Rightarrow> (string, selector_row) btree \<Rightarrow> (string, selector_row) btree" where
  "latest_insert r latest =
     (let key = series_key (row_metric r) (row_labels r) in
      case map_of latest key of
        Some prev \<Rightarrow> if row_ts r \<le> row_ts prev then latest else bt_insert key r latest
      | None \<Rightarrow> bt_insert key r latest)"

definition instant_selector :: "query_env \<Rightarrow> vector_selector \<Rightarrow> int \<Rightarrow> prom_error + instant_point list" where
  "instant_selector Q sel time_us =
     (case run_selector_query Q sel (i64_wrap (time_us - lookback_us)) time_us of
        Inl e \<Rightarrow> Inl e
      | Inr rows \<Rightarrow>
          Inr (map (\<lambda>(k, r). \<lparr>ip_metric = row_metric r, ip_labels = row_labels r, ip_ts = row_ts r,
                              ip_value = row_value r\<rparr>)
                (foldl (\<lambda>m r. latest_insert r m) [] rows)))"

definition group_row :: "selector_row \<Rightarrow> (string, string \<times> labels \<times> (int \<times> f64) list) btree \<Rightarrow>
    (string, string \<times> labels \<times> (int \<times> f64) list) btree" where
  "group_row r m =
     bt_upd (series_key (row_metric r) (row_labels r))
       (\<lambda>old. case old of
          None \<Rightarrow> (row_metric r, row_labels r, [(row_ts r, row_value r)])
        | Some (metric, lbls, pts) \<Rightarrow> (metric, lbls, pts @ [(row_ts r, row_value r)])) m"

definition group_rows_by_series ::
    "selector_row list \<Rightarrow> (string, string \<times> labels \<times> (int \<times> f64) list) btree" where
  "group_rows_by_series rows = foldl (\<lambda>m r. group_row r m) [] rows"

definition range_selector :: "query_env \<Rightarrow> vector_selector \<Rightarrow> int \<Rightarrow> int \<Rightarrow> prom_error + range_points list" where
  "range_selector Q sel start_us end_us =
     (case run_selector_query Q sel start_us end_us of
        Inl e \<Rightarrow> Inl e
      | Inr rows \<Rightarrow>
          Inr (map (\<lambda>(k, metric, lbls, pts). \<lparr>rp_metric = metric, rp_labels = lbls, rp_points = pts\<rparr>)
                (group_rows_by_series rows)))"

section \<open>The metadata endpoints\<close>

text \<open>\<open>SELECT DISTINCT ... ORDER BY\<close>: the keys of a sorted map.\<close>

definition distinct_sorted :: "string list \<Rightarrow> string list" where
  "distinct_sorted xs = map fst (bt_collect (map (\<lambda>x. (x, ())) xs))"

definition run_meta :: "query_env \<Rightarrow> string \<Rightarrow> 'r \<Rightarrow> prom_error + 'r" where
  "run_meta Q tag r =
     (case qe_fault Q tag of Some e \<Rightarrow> Inl (prom_internal (tag @ '' '' @ e)) | None \<Rightarrow> Inr r)"

definition success_data :: "json list \<Rightarrow> json" where
  "success_data items = json_obj [(''status'', JStr ''success''), (''data'', JArr items)]"

definition labels_endpoint :: "query_env \<Rightarrow> prom_error + json" where
  "labels_endpoint Q =
     map_sum (\<lambda>e. e) (\<lambda>ks. success_data (map JStr (distinct_sorted (''__name__'' # ks))))
       (run_meta Q ''labels'' (distinct_sorted (concat (map (map fst \<circ> st_labels) (db_series (qe_db Q))))))"

definition label_values :: "query_env \<Rightarrow> string \<Rightarrow> prom_error + json" where
  "label_values Q name =
     map_sum (\<lambda>e. e) (\<lambda>vs. success_data (map JStr vs))
       (run_meta Q ''label_values''
         (distinct_sorted
           (if name = ''__name__'' then map st_metric (db_series (qe_db Q))
            else List.map_filter (\<lambda>s. map_of (st_labels s) name) (db_series (qe_db Q)))))"

text \<open>\<open>url::form_urlencoded::parse\<close> is the argument \<open>form\<close>.\<close>

definition parse_series_matches :: "(string \<Rightarrow> (string \<times> string) list) \<Rightarrow> string \<Rightarrow> string list" where
  "parse_series_matches form raw = map snd (filter (\<lambda>(k, v). k = ''match[]'') (form raw))"

definition series_candidates :: "database \<Rightarrow> vector_selector \<Rightarrow> (string \<times> labels) list" where
  "series_candidates db sel =
     filter (\<lambda>(m, lbls). regex_passes sel lbls)
       (map (\<lambda>s. (st_metric s, labels_to_btree (st_labels s)))
         (filter (\<lambda>s. case effective_metric_name sel of Some name \<Rightarrow> st_metric s = name | None \<Rightarrow> True)
           (db_series db)))"

fun add_series :: "(string \<times> labels) list \<Rightarrow> string list \<times> json list \<Rightarrow> string list \<times> json list" where
  "add_series [] (seen, out) = (seen, out)"
| "add_series ((m, lbls) # rest) (seen, out) =
     (let key = series_key m lbls in
      if key \<in> set seen then add_series rest (seen, out)
      else add_series rest (key # seen, out @ [series_metric_obj m lbls]))"

fun series_loop :: "query_env \<Rightarrow> string list \<Rightarrow> string list \<times> json list \<Rightarrow> prom_error + json list" where
  "series_loop Q [] (seen, out) = Inr out"
| "series_loop Q (q # qs) (seen, out) =
     (case pe_parse (qe_prom Q) q of
        Inl e \<Rightarrow> Inl (bad_data (''PromQL parse: '' @ e))
      | Inr expr \<Rightarrow>
          (case extract_selector expr of
             None \<Rightarrow> series_loop Q qs (seen, out)
           | Some sel \<Rightarrow>
               (case run_meta Q ''series'' (series_candidates (qe_db Q) sel) of
                  Inl e \<Rightarrow> Inl e
                | Inr cs \<Rightarrow> series_loop Q qs (add_series cs (seen, out)))))"

definition series_endpoint :: "query_env \<Rightarrow> (string \<Rightarrow> (string \<times> string) list) \<Rightarrow> string option \<Rightarrow> prom_error + json" where
  "series_endpoint Q form qs =
     (let ms = parse_series_matches form (case qs of Some s \<Rightarrow> s | None \<Rightarrow> []) in
      if ms = [] then Inr (success_data [])
      else map_sum (\<lambda>e. e) success_data (series_loop Q ms ([], [])))"

end
