(* ===== verification/Histogram.thy ===== *)
theory Histogram
  imports Prom_Ops Float64_Bounds
begin

text \<open>
  \<open>histogram_quantile\<close> in Rust (\<open>src/src/prometheus.rs\<close>): the \<open>le\<close> label, the walk over the
  cumulative buckets, and the grouping of an instant or a range vector by the labels other than
  \<open>le\<close>.
\<close>

section \<open>Definitions\<close>

definition parse_le :: "string \<Rightarrow> f64 option" where
  "parse_le s =
     (if eq_ignore_ascii_case s ''+inf'' \<or> eq_ignore_ascii_case s ''inf'' then Some PInf
      else if eq_ignore_ascii_case s ''-inf'' then Some NInf
      else f64_of_string s)"

text \<open>The loop that looks for the bucket whose count first reaches the target.\<close>

fun quantile_walk :: "f64 \<Rightarrow> f64 \<Rightarrow> f64 \<Rightarrow> (f64 \<times> f64) list \<Rightarrow> f64 option" where
  "quantile_walk target lower_le lower_count [] = None"
| "quantile_walk target lower_le lower_count ((le, cnt) # buckets) =
     (if f64_ge cnt target then
        (if is_infinite le then Some lower_le
         else
           (let bucket_count = f64_sub cnt lower_count in
            if f64_le bucket_count (Num 0) then Some le
            else
              (let frac = f64_div (f64_sub target lower_count) bucket_count in
               Some (f64_add lower_le (f64_mul frac (f64_sub le lower_le))))))
      else quantile_walk target le cnt buckets)"

definition quantile_from_buckets :: "(f64 \<times> f64) list \<Rightarrow> f64 \<Rightarrow> f64 option" where
  "quantile_from_buckets buckets q =
     (if length buckets < 2 then None
      else
        (let total = snd (last buckets) in
         if f64_le total (Num 0) \<or> is_nan q then None
         else if f64_le q (Num 0) then map_option fst (find (\<lambda>(le, cnt). f64_gt cnt (Num 0)) buckets)
         else if f64_ge q (Num 1) then map_option fst (find (\<lambda>(le, cnt). is_finite le) (rev buckets))
         else quantile_walk (f64_mul q total) (Num 0) (Num 0) buckets))"

text \<open>The bucket a series stands for: its other labels and its bound, if \<open>le\<close> parses.\<close>

definition le_of :: "labels \<Rightarrow> f64 option" where
  "le_of lbls = (case map_of lbls ''le'' of Some s \<Rightarrow> parse_le s | None \<Rightarrow> None)"

definition sort_buckets :: "(f64 \<times> f64) list \<Rightarrow> (f64 \<times> f64) list" where
  "sort_buckets bs = sort_by (\<lambda>a b. cmp_or_equal (fst a) (fst b)) bs"

definition histogram_quantile_instant :: "instant_point list \<Rightarrow> f64 \<Rightarrow> int \<Rightarrow> instant_point list" where
  "histogram_quantile_instant inner q time_us =
     (let rows = List.map_filter (\<lambda>p. map_option (\<lambda>le. (bt_remove ''le'' (ip_labels p), (le, ip_value p)))
                   (le_of (ip_labels p))) inner
      in List.map_filter (\<lambda>(lbls, buckets).
           map_option (\<lambda>v. \<lparr>ip_metric = [], ip_labels = lbls, ip_ts = time_us, ip_value = v\<rparr>)
             (quantile_from_buckets (sort_buckets buckets) q))
         (bt_group fst snd rows))"

text \<open>
  \<open>groups.entry(labels).or_default()\<close> creates a group even for a series without points; the group
  of a label set then collects, per timestamp, one bucket for each series that has it.
\<close>

definition histogram_group :: "f64 \<Rightarrow> labels \<times> (f64 \<times> (int \<times> f64) list) list \<Rightarrow> range_points list" where
  "histogram_group q = (\<lambda>(lbls, members).
     let ts_buckets = bt_group fst snd (concat (map (\<lambda>(le, pts). map (\<lambda>(ts, v). (ts, (le, v))) pts) members));
         points = List.map_filter (\<lambda>(ts, buckets).
                    map_option (\<lambda>v. (ts, v)) (quantile_from_buckets (sort_buckets buckets) q)) ts_buckets
     in if points \<noteq> [] then [\<lparr>rp_metric = [], rp_labels = lbls, rp_points = points\<rparr>] else [])"

definition histogram_quantile_range :: "range_points list \<Rightarrow> f64 \<Rightarrow> range_points list" where
  "histogram_quantile_range inner q =
     (let rows = List.map_filter (\<lambda>s. map_option (\<lambda>le. (bt_remove ''le'' (rp_labels s), (le, rp_points s)))
                   (le_of (rp_labels s))) inner
      in concat (map (histogram_group q) (bt_group fst snd rows)))"

end
