(* ===== verification/Pointwise.thy ===== *)
theory Pointwise
  imports Histogram
begin

text \<open>
  Every Rust-path operator exists twice in the source, once on instant vectors and once on range
  vectors. This theory relates the two: the range form, read at one timestamp, is the instant form
  applied to the input read at that timestamp. The relation is the contract \<open>pointwise\<close>.
\<close>

section \<open>A range vector at one timestamp\<close>

definition slice :: "int \<Rightarrow> range_points list \<Rightarrow> instant_point list" where
  "slice ts rs = concat (map (\<lambda>s. case map_of (rp_points s) ts of
       None \<Rightarrow> []
     | Some v \<Rightarrow> [\<lparr>ip_metric = rp_metric s, ip_labels = rp_labels s, ip_ts = ts, ip_value = v\<rparr>]) rs)"

definition range_wf :: "range_points list \<Rightarrow> bool" where
  "range_wf rs \<longleftrightarrow> (\<forall>s \<in> set rs. distinct (map fst (rp_points s)))"

lemma slice_simps [simp]:
  "slice ts [] = []"
  "slice ts (s # rs) = (case map_of (rp_points s) ts of
       None \<Rightarrow> []
     | Some v \<Rightarrow> [\<lparr>ip_metric = rp_metric s, ip_labels = rp_labels s, ip_ts = ts, ip_value = v\<rparr>]) @ slice ts rs"
  "slice ts (rs @ rs') = slice ts rs @ slice ts rs'"
  by (simp_all add: slice_def)

lemma range_wf_simps [simp]:
  "range_wf []" "range_wf (s # rs) \<longleftrightarrow> distinct (map fst (rp_points s)) \<and> range_wf rs"
  "range_wf (rs @ rs') \<longleftrightarrow> range_wf rs \<and> range_wf rs'"
  by (auto simp: range_wf_def)

lemma slice_concat: "slice ts (concat rss) = concat (map (slice ts) rss)"
  by (induction rss) simp_all

lemma values_at_map_of:
  "distinct (map fst ps) \<Longrightarrow>
     map snd (filter (\<lambda>x. fst x = ts) ps) = (case map_of ps ts of None \<Rightarrow> [] | Some v \<Rightarrow> [v])"
proof (induction ps)
  case (Cons p ps)
  then show ?case
    by (cases p) (auto simp: filter_empty_conv rev_image_eqI split: option.splits)
qed simp

lemma slice_values:
  "range_wf ms \<Longrightarrow> map snd (filter (\<lambda>x. fst x = ts) (concat (map rp_points ms))) = map ip_value (slice ts ms)"
  by (induction ms) (auto simp: values_at_map_of split: option.splits)

lemma slice_times: "slice ts ms = [] \<longleftrightarrow> ts \<notin> fst ` set (concat (map rp_points ms))"
proof (induction ms)
  case (Cons m ms)
  then show ?case by (auto simp: map_of_eq_None_iff image_Un dest: map_of_SomeD intro: rev_image_eqI split: option.splits)
qed simp

lemma slice_filter:
  "slice ts (filter (\<lambda>s. P (rp_labels s)) ms) = filter (\<lambda>p. P (ip_labels p)) (slice ts ms)"
  by (induction ms) (auto split: option.splits)

lemma slice_labels: "p \<in> set (slice ts ms) \<Longrightarrow> \<exists>s \<in> set ms. rp_labels s = ip_labels p"
  by (induction ms) (auto split: option.splits if_splits)

lemma slice_aggregate_group:
  assumes "range_wf members"
  shows "slice ts (aggregate_group op (lbls, members)) =
    (if slice ts members = [] then []
     else [\<lparr>ip_metric = [], ip_labels = lbls, ip_ts = ts, ip_value = apply_agg op (map ip_value (slice ts members))\<rparr>])"
proof -
  have "map_of (map (\<lambda>(t, vs). (t, apply_agg op vs)) (bt_group fst snd (concat (map rp_points members)))) ts =
    (if slice ts members = [] then None else Some (apply_agg op (map ip_value (slice ts members))))"
    unfolding map_of_bt_map_snd [where g = "\<lambda>_. apply_agg op"]
    by (simp only: map_of_bt_group slice_values [OF assms] slice_times) simp
  then show ?thesis by (auto simp: aggregate_group_def Let_def split: if_splits)
qed

section \<open>Grouping commutes with reading at a timestamp\<close>

lemma grouped_pointwise:
  assumes "\<And>k. k \<in> kr ` set xs \<Longrightarrow>
      f (k, map vr (filter (\<lambda>x. kr x = k) xs)) =
      (if filter (\<lambda>y. ki y = k) ys = [] then [] else g (k, map vi (filter (\<lambda>y. ki y = k) ys)))"
    and sub: "ki ` set ys \<subseteq> kr ` set xs"
  shows "concat (map f (bt_group kr vr xs)) = concat (map g (bt_group ki vi ys))"
proof -
  let ?gk = "\<lambda>k. g (k, map vi (filter (\<lambda>y. ki y = k) ys))"
  have ne: "filter (\<lambda>y. ki y = k) ys = [] \<longleftrightarrow> k \<notin> ki ` set ys" for k
    by (auto simp: filter_empty_conv)
  have keys: "{k \<in> kr ` set xs. k \<in> ki ` set ys} = ki ` set ys" using sub by auto
  have "concat (map f (bt_group kr vr xs)) =
    concat (map (\<lambda>k. if k \<notin> ki ` set ys then [] else ?gk k) (sorted_list_of_set (kr ` set xs)))"
    unfolding bt_group_eq_map map_map comp_def
    by (intro arg_cong [where f = concat] map_cong refl) (use assms(1) in \<open>simp add: ne cong: if_cong\<close>)
  also have "\<dots> = concat (map ?gk (filter (\<lambda>k. k \<in> ki ` set ys) (sorted_list_of_set (kr ` set xs))))"
    by (rule concat_map_unless)
  also have "\<dots> = concat (map g (bt_group ki vi ys))"
    by (simp only: sorted_list_of_set_filter keys finite_imageI finite_set bt_group_eq_map map_map comp_def)
  finally show ?thesis .
qed

lemma slice_group_keys: "(\<lambda>p. h (ip_labels p)) ` set (slice ts ms) \<subseteq> (\<lambda>s. h (rp_labels s)) ` set ms"
  by (force dest: slice_labels)

lemma aggregate_pointwise:
  assumes "range_wf inner"
  shows "slice ts (aggregate_range_points inner op modi) =
    aggregate_instant_points (slice ts inner) op modi ts"
proof -
  let ?g = "\<lambda>(k, vs). [\<lparr>ip_metric = [], ip_labels = k, ip_ts = ts, ip_value = apply_agg op vs\<rparr>]"
  have wf: "range_wf (filter P inner)" for P using assms by (auto simp: range_wf_def)
  have "slice ts (aggregate_range_points inner op modi) =
    concat (map (\<lambda>g. slice ts (aggregate_group op g)) (bt_group (\<lambda>p. retained_labels (rp_labels p) modi) (\<lambda>p. p) inner))"
    by (simp add: aggregate_range_points_def slice_concat comp_def)
  also have "\<dots> = concat (map ?g (bt_group (\<lambda>p. retained_labels (ip_labels p) modi) ip_value (slice ts inner)))"
    by (rule grouped_pointwise)
      (simp_all add: slice_aggregate_group [OF wf] slice_filter [of ts "\<lambda>l. retained_labels l modi = _"]
        slice_group_keys [of "\<lambda>l. retained_labels l modi"])
  also have "\<dots> = aggregate_instant_points (slice ts inner) op modi ts"
    by (simp add: aggregate_instant_points_def case_prod_unfold)
  finally show ?thesis .
qed

section \<open>Scalar and vector operators\<close>

lemma map_filter_Cons: "List.map_filter f (x # xs) = (case f x of None \<Rightarrow> List.map_filter f xs | Some y \<Rightarrow> y # List.map_filter f xs)"
  by (simp add: List.map_filter_simps)

lemma map_filter_append: "List.map_filter f (xs @ ys) = List.map_filter f xs @ List.map_filter f ys"
  by (induction xs) (auto simp: map_filter_Cons List.map_filter_simps split: option.splits)

lemma map_filter_keys:
  "fst ` set (List.map_filter (\<lambda>(t, v). map_option (\<lambda>w. (t, w)) (f t v)) ps) \<subseteq> fst ` set ps"
  by (induction ps) (auto simp: map_filter_Cons List.map_filter_simps split: option.splits)

lemma map_of_map_filter:
  "distinct (map fst ps) \<Longrightarrow>
     map_of (List.map_filter (\<lambda>(t, v). map_option (\<lambda>w. (t, w)) (f t v)) ps) ts = Option.bind (map_of ps ts) (f ts)"
proof (induction ps)
  case Nil
  then show ?case by (simp add: List.map_filter_simps)
next
  case (Cons p ps)
  have "map_of (List.map_filter (\<lambda>(t, v). map_option (\<lambda>w. (t, w)) (f t v)) ps) (fst p) = None"
    using Cons.prems map_filter_keys [of f ps] by (auto simp: map_of_eq_None_iff)
  then show ?case
    using Cons by (cases p) (auto simp: map_filter_Cons split: option.splits)
qed

lemma distinct_map_filter:
  "distinct (map fst ps) \<Longrightarrow>
     distinct (map fst (List.map_filter (\<lambda>(t, v). map_option (\<lambda>w. (t, w)) (f t v)) ps))"
proof (induction ps)
  case (Cons p ps)
  then show ?case
    using map_filter_keys [of f ps] by (cases p) (auto simp: map_filter_Cons split: option.splits)
qed (simp add: List.map_filter_simps)

lemma slice_drop_empty: "slice ts (filter (\<lambda>s. rp_points s \<noteq> []) rs) = slice ts rs"
  by (induction rs) (auto split: option.splits)

lemma scalar_vector_pointwise:
  assumes "range_wf inner"
  shows "slice ts (apply_scalar_vector_range powf c inner op rb left) =
    apply_scalar_vector_instant powf c (slice ts inner) op rb left"
  unfolding apply_scalar_vector_range_def apply_scalar_vector_instant_def slice_drop_empty
  using assms
  by (induction inner)
    (auto simp: map_of_map_filter [where f = "\<lambda>_. scalar_vector_point powf c op rb left"]
      map_filter_Cons List.map_filter_simps split: option.splits)

text \<open>The index of the right-hand side, when no two of its series have the same labels.\<close>

definition labels_distinct :: "range_points list \<Rightarrow> bool" where
  "labels_distinct rs \<longleftrightarrow> distinct (map rp_labels rs)"

lemma map_of_bt_collect_distinct: "distinct (map fst ps) \<Longrightarrow> map_of (bt_collect ps) = map_of ps"
  by (simp add: map_of_bt_collect map_of_rev_distinct)

lemma slice_distinct_labels: "distinct (map rp_labels rs) \<Longrightarrow> distinct (map ip_labels (slice ts rs))"
proof (induction rs)
  case (Cons s rs)
  then show ?case
    using slice_group_keys [of "\<lambda>l. l" ts rs] by (auto split: option.splits)
qed simp

lemma slice_lookup:
  "distinct (map rp_labels rs) \<Longrightarrow>
     map_of (map (\<lambda>r. (ip_labels r, r)) (slice ts rs)) l =
     Option.bind (map_of (map (\<lambda>s. (rp_labels s, s)) rs) l)
       (\<lambda>s. map_option (\<lambda>v. \<lparr>ip_metric = rp_metric s, ip_labels = rp_labels s, ip_ts = ts, ip_value = v\<rparr>)
              (map_of (rp_points s) ts))"
proof (induction rs)
  case (Cons s rs)
  have "map_of (map (\<lambda>r. (ip_labels r, r)) (slice ts rs)) (rp_labels s) = None"
    using Cons.prems slice_group_keys [of "\<lambda>l. l" ts rs] by (auto simp: map_of_eq_None_iff image_image)
  then show ?case using Cons by (auto split: option.splits)
qed simp

lemma index_lookup:
  assumes "labels_distinct rhs" "range_wf rhs"
  shows "map_of (bt_collect (map (\<lambda>r. (rp_labels r, bt_collect (rp_points r))) rhs)) l =
    map_option (\<lambda>s. bt_collect (rp_points s)) (map_of (map (\<lambda>s. (rp_labels s, s)) rhs) l)"
proof -
  have "map_of (map (\<lambda>r. (rp_labels r, bt_collect (rp_points r))) rhs) l =
    map_option (\<lambda>s. bt_collect (rp_points s)) (map_of (map (\<lambda>s. (rp_labels s, s)) rhs) l)"
    by (induction rhs) auto
  then show ?thesis
    using assms by (simp add: map_of_bt_collect_distinct labels_distinct_def comp_def)
qed

lemma slice_map_filter:
  assumes "\<And>l. l \<in> set ls \<Longrightarrow> slice ts (case f l of None \<Rightarrow> [] | Some y \<Rightarrow> [y]) =
    (case map_of (rp_points l) ts of
       None \<Rightarrow> []
     | Some v \<Rightarrow>
         (case g \<lparr>ip_metric = rp_metric l, ip_labels = rp_labels l, ip_ts = ts, ip_value = v\<rparr> of
            None \<Rightarrow> [] | Some p \<Rightarrow> [p]))"
  shows "slice ts (List.map_filter f ls) = List.map_filter g (slice ts ls)"
  using assms
proof (induction ls)
  case Nil
  then show ?case by (simp add: List.map_filter_simps)
next
  case (Cons l ls)
  have "slice ts (List.map_filter f (l # ls)) =
    slice ts (case f l of None \<Rightarrow> [] | Some y \<Rightarrow> [y]) @ slice ts (List.map_filter f ls)"
    by (simp add: map_filter_Cons split: option.splits)
  then show ?case using Cons by (auto simp: map_filter_Cons map_filter_append split: option.splits)
qed

lemma slice_singleton_option:
  "slice ts (case (if ps \<noteq> [] then Some \<lparr>rp_metric = m, rp_labels = l, rp_points = ps\<rparr> else None) of
       None \<Rightarrow> [] | Some y \<Rightarrow> [y]) =
     (case map_of ps ts of
        None \<Rightarrow> [] | Some v \<Rightarrow> [\<lparr>ip_metric = m, ip_labels = l, ip_ts = ts, ip_value = v\<rparr>])"
  by (cases ps) (auto split: option.splits)

lemma vector_vector_pointwise:
  assumes "range_wf lhs" "range_wf rhs" "labels_distinct rhs"
  shows "slice ts (apply_vector_vector_range powf lhs rhs op rb) =
    apply_vector_vector_instant powf (slice ts lhs) (slice ts rhs) op rb"
proof -
  note idx = index_lookup [OF assms(3,2)]
  have inst: "map_of (bt_collect (map (\<lambda>r. (ip_labels r, r)) (slice ts rhs))) l =
     Option.bind (map_of (map (\<lambda>s. (rp_labels s, s)) rhs) l)
       (\<lambda>s. map_option (\<lambda>v. \<lparr>ip_metric = rp_metric s, ip_labels = rp_labels s, ip_ts = ts, ip_value = v\<rparr>)
              (map_of (rp_points s) ts))" for l
    using assms(3) slice_lookup slice_distinct_labels
    by (simp add: map_of_bt_collect_distinct labels_distinct_def comp_def)
  have pts: "map_of (bt_collect (rp_points s)) ts = map_of (rp_points s) ts"
    if "map_of (map (\<lambda>s. (rp_labels s, s)) rhs) l = Some s" for l s
  proof -
    from that have "s \<in> set rhs" by (auto dest: map_of_SomeD)
    then show ?thesis using assms(2) by (simp add: range_wf_def map_of_bt_collect_distinct)
  qed
  let ?f = "\<lambda>m t lv. case map_of m t of None \<Rightarrow> None | Some rv \<Rightarrow> vector_vector_value powf op rb lv rv"
  have eq: "(\<lambda>(t, lv). case map_of m t of None \<Rightarrow> None
      | Some rv \<Rightarrow> map_option (\<lambda>v. (t, v)) (vector_vector_value powf op rb lv rv)) =
    (\<lambda>(t, lv). map_option (\<lambda>v. (t, v)) (?f m t lv))" for m
    by (auto simp: fun_eq_iff split: option.splits)
  show ?thesis
    unfolding apply_vector_vector_range_def apply_vector_vector_instant_def Let_def idx inst eq
  proof (rule slice_map_filter, goal_cases)
    case (1 l)
    show ?case
    proof (cases "map_of (map (\<lambda>s. (rp_labels s, s)) rhs) (rp_labels l)")
      case None
      then show ?thesis by (simp split: option.splits)
    next
      case (Some s)
      have "distinct (map fst (rp_points l))" using 1 assms(1) by (simp add: range_wf_def)
      note m = map_of_map_filter [OF this, where f = "?f (bt_collect (rp_points s))"]
      show ?thesis
        by (auto simp: Some slice_singleton_option m pts [OF Some] split: option.splits)
    qed
  qed
qed

section \<open>Histograms\<close>

lemma set_map_filter: "set (List.map_filter f xs) = {y. \<exists>x \<in> set xs. f x = Some y}"
  by (induction xs) (auto simp: map_filter_Cons List.map_filter_simps split: option.splits)

text \<open>The buckets that a group of series has at one timestamp.\<close>

lemma group_points_at:
  assumes "\<forall>(b, pts) \<in> set ms. distinct (map fst pts)"
  shows "map snd (filter (\<lambda>x. fst x = ts) (concat (map (\<lambda>(b, pts). map (\<lambda>(t, v). (t, (b, v))) pts) ms))) =
    List.map_filter (\<lambda>(b, pts). map_option (\<lambda>v. (b, v)) (map_of pts ts)) ms"
  using assms
proof (induction ms)
  case Nil
  then show ?case by (simp add: List.map_filter_simps)
next
  case (Cons m ms)
  obtain b pts where m: "m = (b, pts)" by (cases m)
  have "map snd (filter (\<lambda>x. fst x = ts) (map (\<lambda>(t, v). (t, (b, v))) pts)) =
    map (\<lambda>v. (b, v)) (map snd (filter (\<lambda>x. fst x = ts) pts))"
    by (simp add: filter_map comp_def case_prod_unfold)
  also have "\<dots> = (case map_of pts ts of None \<Rightarrow> [] | Some v \<Rightarrow> [(b, v)])"
    using Cons.prems m by (auto simp: values_at_map_of split: option.splits)
  finally show ?case using Cons by (auto simp: m map_filter_Cons split: option.splits)
qed

lemma slice_histogram_group:
  fixes ts :: int
  assumes "\<forall>(b, pts) \<in> set ms. distinct (map fst pts)"
  defines "bs \<equiv> List.map_filter (\<lambda>(b, pts). map_option (\<lambda>v. (b, v)) (map_of pts ts)) ms"
  shows "slice ts (histogram_group q (lbls, ms)) =
    (if bs = [] then []
     else (case quantile_from_buckets (sort_buckets bs) q of
             None \<Rightarrow> []
           | Some v \<Rightarrow> [\<lparr>ip_metric = [], ip_labels = lbls, ip_ts = ts, ip_value = v\<rparr>]))"
proof -
  let ?all = "concat (map (\<lambda>(le, pts). map (\<lambda>(ts, v). (ts, (le, v))) pts) ms)"
  let ?q = "\<lambda>t b. quantile_from_buckets (sort_buckets b) q"
  let ?pts = "List.map_filter (\<lambda>(ts, buckets). map_option (\<lambda>v. (ts, v)) (?q ts buckets)) (bt_group fst snd ?all)"
  have at: "map_of (bt_group fst snd ?all) ts = (if bs = [] then None else Some bs)"
    unfolding bt_group_lookup Let_def bs_def group_points_at [OF assms(1)] by (rule refl)
  have "map_of ?pts ts = Option.bind (map_of (bt_group fst snd ?all) ts) (?q ts)"
    by (intro map_of_map_filter bt_wf_distinct bt_wf_group)
  moreover have "slice ts (histogram_group q (lbls, ms)) =
    (case map_of ?pts ts of None \<Rightarrow> [] | Some v \<Rightarrow> [\<lparr>ip_metric = [], ip_labels = lbls, ip_ts = ts, ip_value = v\<rparr>])"
    by (auto simp: histogram_group_def Let_def split: option.splits)
  ultimately show ?thesis by (simp add: at split: option.splits)
qed

lemma concat_map_option: "concat (map (\<lambda>x. case f x of None \<Rightarrow> [] | Some y \<Rightarrow> [y]) xs) = List.map_filter f xs"
  by (induction xs) (auto simp: map_filter_Cons List.map_filter_simps split: option.splits)

text \<open>The bucket rows of a range vector and of its slice.\<close>

definition range_bucket_rows :: "range_points list \<Rightarrow> (labels \<times> f64 \<times> (int \<times> f64) list) list" where
  "range_bucket_rows inner = List.map_filter (\<lambda>s. map_option (\<lambda>le. (bt_remove ''le'' (rp_labels s), (le, rp_points s)))
     (le_of (rp_labels s))) inner"

definition instant_bucket_rows :: "instant_point list \<Rightarrow> (labels \<times> f64 \<times> f64) list" where
  "instant_bucket_rows inner = List.map_filter (\<lambda>p. map_option (\<lambda>le. (bt_remove ''le'' (ip_labels p), (le, ip_value p)))
     (le_of (ip_labels p))) inner"

lemma bucket_rows_slice:
  "instant_bucket_rows (slice ts inner) =
     List.map_filter (\<lambda>(k, b, pts). map_option (\<lambda>v. (k, b, v)) (map_of pts ts)) (range_bucket_rows inner)"
  unfolding instant_bucket_rows_def range_bucket_rows_def
  by (induction inner) (auto simp: map_filter_Cons List.map_filter_simps split: option.splits)

lemma bucket_rows_group:
  "map snd (filter (\<lambda>x. fst x = k) (instant_bucket_rows (slice ts inner))) =
     List.map_filter (\<lambda>(b, pts). map_option (\<lambda>v. (b, v)) (map_of pts ts))
       (map snd (filter (\<lambda>x. fst x = k) (range_bucket_rows inner)))"
proof -
  have "map snd (filter (\<lambda>x. fst x = k) (List.map_filter (\<lambda>(k, b, pts). map_option (\<lambda>v. (k, b, v)) (map_of pts ts)) rows)) =
    List.map_filter (\<lambda>(b, pts). map_option (\<lambda>v. (b, v)) (map_of pts ts)) (map snd (filter (\<lambda>x. fst x = k) rows))"
    for rows :: "(labels \<times> f64 \<times> (int \<times> f64) list) list"
    by (induction rows) (auto simp: map_filter_Cons List.map_filter_simps split: option.splits)
  then show ?thesis unfolding bucket_rows_slice .
qed

lemma bucket_rows_keys: "fst ` set (instant_bucket_rows (slice ts inner)) \<subseteq> fst ` set (range_bucket_rows inner)"
  unfolding bucket_rows_slice by (force simp: set_map_filter)

lemma range_bucket_rows_wf:
  "range_wf inner \<Longrightarrow> (k, b, pts) \<in> set (range_bucket_rows inner) \<Longrightarrow> distinct (map fst pts)"
  by (auto simp: range_bucket_rows_def set_map_filter range_wf_def)

lemma histogram_pointwise:
  assumes "range_wf inner"
  shows "slice ts (histogram_quantile_range inner q) = histogram_quantile_instant (slice ts inner) q ts"
proof -
  let ?out = "\<lambda>(lbls, buckets). case quantile_from_buckets (sort_buckets buckets) q of
      None \<Rightarrow> [] | Some v \<Rightarrow> [\<lparr>ip_metric = [], ip_labels = lbls, ip_ts = ts, ip_value = v\<rparr>]"
  let ?rr = "range_bucket_rows inner" and ?ir = "instant_bucket_rows (slice ts inner)"
  have wf: "\<forall>(b, pts) \<in> set (map snd (filter P ?rr)). distinct (map fst pts)" for P
    using range_bucket_rows_wf [OF assms] by auto
  have ne: "map snd (filter P ?ir) = [] \<longleftrightarrow> filter P ?ir = []" for P by simp
  have "slice ts (histogram_quantile_range inner q) =
    concat (map (\<lambda>g. slice ts (histogram_group q g)) (bt_group fst snd ?rr))"
    by (simp add: histogram_quantile_range_def range_bucket_rows_def slice_concat comp_def Let_def)
  also have "\<dots> = concat (map ?out (bt_group fst snd ?ir))"
    by (rule grouped_pointwise)
      (simp_all add: slice_histogram_group [OF wf] bucket_rows_group [symmetric] bucket_rows_keys)
  also have "\<dots> = histogram_quantile_instant (slice ts inner) q ts"
    unfolding histogram_quantile_instant_def instant_bucket_rows_def Let_def concat_map_option [symmetric]
    by (intro arg_cong [where f = concat] map_cong) (auto split: option.splits)
  finally show ?thesis .
qed

section \<open>The contract and its clients\<close>

text \<open>
  A pair of operators, one per vector kind, that agree at every timestamp, keep the timestamps of a
  series distinct and answer nothing to an empty vector.
\<close>

locale pointwise_op =
  fixes inst :: "int \<Rightarrow> instant_point list \<Rightarrow> instant_point list"
    and rng :: "range_points list \<Rightarrow> range_points list"
  assumes at: "range_wf rs \<Longrightarrow> slice ts (rng rs) = inst ts (slice ts rs)"
    and wf: "range_wf rs \<Longrightarrow> range_wf (rng rs)"
    and empty: "inst ts [] = []"
begin

lemma no_new_times: "range_wf rs \<Longrightarrow> slice ts rs = [] \<Longrightarrow> slice ts (rng rs) = []"
  by (simp add: at empty)

end

locale pointwise_pair = f: pointwise_op inst rng + g: pointwise_op inst' rng'
  for inst rng inst' rng'

sublocale pointwise_pair \<subseteq> composed: pointwise_op "\<lambda>ts v. inst' ts (inst ts v)" "\<lambda>rs. rng' (rng rs)"
  by unfold_locales (simp_all add: f.at g.at f.wf g.wf f.empty g.empty)

lemma range_wf_concat: "range_wf (concat rss) \<longleftrightarrow> (\<forall>rs \<in> set rss. range_wf rs)"
  by (induction rss) auto

lemma range_wf_aggregate: "range_wf (aggregate_range_points inner op modi)"
  unfolding aggregate_range_points_def range_wf_concat
  using bt_wf_distinct [OF bt_wf_group]
  by (auto simp: aggregate_group_def Let_def comp_def case_prod_unfold)

lemma range_wf_histogram: "range_wf (histogram_quantile_range inner q)"
  unfolding histogram_quantile_range_def Let_def range_wf_concat
  using distinct_map_filter [OF bt_wf_distinct [OF bt_wf_group]]
  by (auto simp: histogram_group_def Let_def)

lemma range_wf_scalar:
  "range_wf inner \<Longrightarrow> range_wf (apply_scalar_vector_range powf c inner op rb left)"
  unfolding apply_scalar_vector_range_def range_wf_def
  by (auto simp: distinct_map_filter [where f = "\<lambda>_. scalar_vector_point powf c op rb left"])

interpretation aggregate: pointwise_op "\<lambda>ts v. aggregate_instant_points v op modi ts"
    "\<lambda>rs. aggregate_range_points rs op modi" for op modi
  by unfold_locales
    (simp_all add: aggregate_pointwise range_wf_aggregate aggregate_instant_points_def bt_group_def)

interpretation histogram: pointwise_op "\<lambda>ts v. histogram_quantile_instant v q ts"
    "\<lambda>rs. histogram_quantile_range rs q" for q
  by unfold_locales
    (simp_all add: histogram_pointwise range_wf_histogram histogram_quantile_instant_def
      bt_group_def List.map_filter_simps)

interpretation scalar: pointwise_op "\<lambda>ts v. apply_scalar_vector_instant powf c v op rb left"
    "\<lambda>rs. apply_scalar_vector_range powf c rs op rb left" for powf c op rb left
  by unfold_locales
    (simp_all add: scalar_vector_pointwise range_wf_scalar apply_scalar_vector_instant_def List.map_filter_simps)

section \<open>Chains of operators\<close>

text \<open>The operators a query can stack on a vector without a second vector.\<close>

datatype vector_op =
    VAggregate agg_op "label_modifier option"
  | VHistogram f64
  | VScalar f64 bin_op bool bool

fun op_instant :: "(f64 \<Rightarrow> f64 \<Rightarrow> f64) \<Rightarrow> int \<Rightarrow> vector_op \<Rightarrow> instant_point list \<Rightarrow> instant_point list" where
  "op_instant powf ts (VAggregate op modi) v = aggregate_instant_points v op modi ts"
| "op_instant powf ts (VHistogram q) v = histogram_quantile_instant v q ts"
| "op_instant powf ts (VScalar c op rb left) v = apply_scalar_vector_instant powf c v op rb left"

fun op_range :: "(f64 \<Rightarrow> f64 \<Rightarrow> f64) \<Rightarrow> vector_op \<Rightarrow> range_points list \<Rightarrow> range_points list" where
  "op_range powf (VAggregate op modi) rs = aggregate_range_points rs op modi"
| "op_range powf (VHistogram q) rs = histogram_quantile_range rs q"
| "op_range powf (VScalar c op rb left) rs = apply_scalar_vector_range powf c rs op rb left"

interpretation op: pointwise_op "\<lambda>ts. op_instant powf ts p" "op_range powf p" for powf p
  by unfold_locales
    (cases p; simp add: aggregate.at histogram.at scalar.at aggregate.wf histogram.wf scalar.wf
      aggregate.empty histogram.empty scalar.empty)+

interpretation op_pair: pointwise_pair "\<lambda>ts. op_instant powf ts p" "op_range powf p"
    "\<lambda>ts. op_instant powf ts p'" "op_range powf p'" for powf p p'
  by unfold_locales

text \<open>
  (C8) However aggregations, \<open>histogram_quantile\<close> and scalar operators are nested, evaluating the
  nest over a range and reading the result at a timestamp gives what evaluating it on the vector at
  that timestamp gives; and a timestamp no input series has never appears in the result.
\<close>

theorem operator_chains_pointwise:
  assumes "range_wf rs"
  shows "slice ts (fold (op_range powf) ops rs) = fold (op_instant powf ts) ops (slice ts rs) \<and>
    (slice ts rs = [] \<longrightarrow> slice ts (fold (op_range powf) ops rs) = [])"
  using assms
proof (induction ops arbitrary: rs)
  case Nil
  then show ?case by simp
next
  case (Cons p ops)
  have "range_wf (op_range powf p rs)" using Cons.prems by (rule op.wf)
  note ih = Cons.IH [OF this]
  have "slice ts rs = [] \<longrightarrow> slice ts (fold (op_range powf) ops (op_range powf p rs)) = []"
    using ih op.no_new_times [OF Cons.prems, of ts powf p] by blast
  then show ?case using ih [THEN conjunct1] op.at [OF Cons.prems] by simp
qed

definition demo_range :: "range_points list" where
  "demo_range =
     [\<lparr>rp_metric = ''up'', rp_labels = [(''job'', ''a'')], rp_points = [(0, Num 1), (60, Num 2)]\<rparr>,
      \<lparr>rp_metric = ''up'', rp_labels = [(''job'', ''b'')], rp_points = [(60, Num 4)]\<rparr>]"

lemma demo_range_wf: "range_wf demo_range"
  by (simp add: demo_range_def)

theorem operator_chains_pointwise_witness:
  "range_wf demo_range \<and>
   slice 60 (fold (op_range (\<lambda>_ _. NaN)) [VAggregate Count None, VScalar (Num 1) Gt False False] demo_range) =
   [\<lparr>ip_metric = [], ip_labels = [], ip_ts = 60, ip_value = Num 2\<rparr>]"
  using operator_chains_pointwise [OF demo_range_wf, of 60 "\<lambda>_ _. NaN"
      "[VAggregate Count None, VScalar (Num 1) Gt False False]"] demo_range_wf
  by (simp add: demo_range_def aggregate_instant_points_def retained_labels_def bt_group_def bt_push_def
      apply_scalar_vector_instant_def scalar_vector_point_def is_filter_def is_comparison_def
      f64_of_int_def f64_gt_def List.map_filter_simps)

text \<open>
  A binary operator between two range vectors matches series by their full label set and
  timestamps exactly as the instant form does at each timestamp, as long as no two series of the
  right-hand side have the same labels.
\<close>

theorem vector_operators_pointwise:
  assumes "range_wf lhs" "range_wf rhs" "labels_distinct rhs"
  shows "slice ts (apply_vector_vector_range powf lhs rhs op rb) =
    apply_vector_vector_instant powf (slice ts lhs) (slice ts rhs) op rb"
  using assms by (rule vector_vector_pointwise)

theorem vector_operators_pointwise_witness:
  "range_wf demo_range \<and> labels_distinct demo_range \<and>
   slice 60 (apply_vector_vector_range (\<lambda>_ _. NaN) demo_range demo_range Add False) =
   apply_vector_vector_instant (\<lambda>_ _. NaN) (slice 60 demo_range) (slice 60 demo_range) Add False"
  using vector_operators_pointwise [OF demo_range_wf demo_range_wf, of 60 "\<lambda>_ _. NaN" Add False] demo_range_wf
  by (simp add: demo_range_def labels_distinct_def)

end
