(* ===== verification/Topk.thy ===== *)
theory Topk
  imports Pointwise
begin

text \<open>
  \<open>topk\<close> and \<open>bottomk\<close>: which series survive, and that the range form keeps at every timestamp
  exactly what the instant form keeps of the vector at that timestamp.
\<close>

section \<open>The survivors of an instant vector\<close>

abbreviation "retained modi p \<equiv> retained_labels (ip_labels p) modi"

abbreviation "better tp a b \<equiv> (if tp then f64_le (ip_value b) (ip_value a) else f64_le (ip_value a) (ip_value b))"

definition ranked :: "bool \<Rightarrow> instant_point list \<Rightarrow> instant_point list" where
  "ranked tp ps = sort_by (\<lambda>a b. value_cmp tp (ip_value a) (ip_value b)) ps"

lemma mset_ranked [simp]: "mset (ranked tp ps) = mset ps" and set_ranked [simp]: "set (ranked tp ps) = set ps"
  and length_ranked [simp]: "length (ranked tp ps) = length ps"
  by (simp_all add: ranked_def)

lemma topk_instant_eq:
  "topk_instant_points inner n tp modi =
     concat (map (\<lambda>k. take n (ranked tp (filter (\<lambda>p. retained modi p = k) inner)))
       (sorted_list_of_set (retained modi ` set inner)))"
proof (cases "n = 0")
  case True
  then show ?thesis by (simp add: topk_instant_points_def)
next
  case False
  then show ?thesis
    by (simp add: topk_instant_points_def bt_group_eq_map comp_def ranked_def)
qed

lemma filter_concat_keys:
  assumes "distinct ks" "\<And>k x. x \<in> set (f k) \<Longrightarrow> key x = k"
  shows "filter (\<lambda>x. key x = k) (concat (map f ks)) = (if k \<in> set ks then f k else [])"
  using assms(1)
proof (induction ks)
  case (Cons a ks)
  have "filter (\<lambda>x. key x = k) (f a) = (if a = k then f a else [])"
    using assms(2) by (auto simp: filter_empty_conv intro: filter_True)
  then show ?case using Cons by auto
qed simp

text \<open>
  The specification of a ranking: of every group, \<open>n\<close> members are kept (all, if there are fewer), and
  none that was dropped is better than one that was kept.
\<close>

definition keeps_best :: "nat \<Rightarrow> ('a \<Rightarrow> 'k) \<Rightarrow> ('a \<Rightarrow> 'a \<Rightarrow> bool) \<Rightarrow> 'a list \<Rightarrow> 'a list \<Rightarrow> bool" where
  "keeps_best n key bet xs out \<longleftrightarrow>
     mset out \<subseteq># mset xs \<and>
     (\<forall>k. length (filter (\<lambda>x. key x = k) out) = min n (length (filter (\<lambda>x. key x = k) xs))) \<and>
     (\<forall>p \<in># mset out. \<forall>r \<in># mset xs - mset out. key p = key r \<longrightarrow> bet p r)"

definition cut :: "nat \<Rightarrow> ('a \<Rightarrow> 'k::linorder) \<Rightarrow> ('a \<Rightarrow> 'a \<Rightarrow> ordering) \<Rightarrow> 'a list \<Rightarrow> 'a list" where
  "cut n key c xs =
     concat (map (\<lambda>k. take n (sort_by c (filter (\<lambda>x. key x = k) xs))) (sorted_list_of_set (key ` set xs)))"

lemma cut_group: "filter (\<lambda>x. key x = k) (cut n key c xs) = take n (sort_by c (filter (\<lambda>x. key x = k) xs))"
proof -
  have "filter (\<lambda>x. key x = k) (cut n key c xs) =
    (if k \<in> set (sorted_list_of_set (key ` set xs)) then take n (sort_by c (filter (\<lambda>x. key x = k) xs)) else [])"
    unfolding cut_def by (rule filter_concat_keys) (auto dest: in_set_takeD)
  moreover have "filter (\<lambda>x. key x = k) xs = []" if "k \<notin> key ` set xs"
    using that by (auto simp: filter_empty_conv)
  ultimately show ?thesis by auto
qed

lemma cut_sub: "mset (cut n key c xs) \<subseteq># mset xs"
proof (rule mset_subset_eqI)
  fix x
  let ?P = "\<lambda>y. key y = key x"
  have "mset (take n (sort_by c (filter ?P xs))) \<subseteq># mset (sort_by c (filter ?P xs))"
    by (metis append_take_drop_id mset_append mset_subset_eq_add_left)
  then have "filter_mset ?P (mset (cut n key c xs)) \<subseteq># filter_mset ?P (mset xs)"
    unfolding mset_filter [symmetric] cut_group by simp
  then have "count (filter_mset ?P (mset (cut n key c xs))) x \<le> count (filter_mset ?P (mset xs)) x"
    by (rule mset_subset_eq_count)
  then show "count (mset (cut n key c xs)) x \<le> count (mset xs) x" by simp
qed

lemma cut_keeps_best:
  assumes "preorder_cmp c (set xs)" "\<And>x y. x \<in> set xs \<Longrightarrow> y \<in> set xs \<Longrightarrow> c x y \<noteq> Greater \<Longrightarrow> bet x y"
  shows "keeps_best n key bet xs (cut n key c xs)"
  unfolding keeps_best_def
proof (intro conjI allI ballI impI)
  let ?out = "cut n key c xs"
  show "mset ?out \<subseteq># mset xs" by (rule cut_sub)
  show "length (filter (\<lambda>x. key x = k) ?out) = min n (length (filter (\<lambda>x. key x = k) xs))" for k
    by (simp add: cut_group length_sort_by min.commute)
  fix p r assume p: "p \<in># mset ?out" and r: "r \<in># mset xs - mset ?out" and eq: "key p = key r"
  let ?P = "\<lambda>x. key x = key r"
  let ?S = "sort_by c (filter ?P xs)"
  have "p \<in> set (filter ?P ?out)" using p eq by simp
  then have pin: "p \<in> set (take n ?S)" unfolding cut_group .
  have "filter_mset ?P (mset xs - mset ?out) = mset ?S - mset (take n ?S)"
    using cut_group [of key "key r" n c xs] by (simp add: filter_diff_mset flip: mset_filter)
  also have "\<dots> = mset (drop n ?S)" by (metis add_diff_cancel_left' append_take_drop_id mset_append)
  finally have "r \<in># mset (drop n ?S)" using r by (metis (mono_tags, lifting) filter_mset_eq_conv mem_Collect_eq set_mset_filter)
  then have rin: "r \<in> set (drop n ?S)" by simp
  have "preorder_cmp c (set (filter ?P xs))" by (rule preorder_cmp_mono [OF assms(1)]) auto
  then have "sorted_wrt (\<lambda>a b. c a b \<noteq> Greater) (take n ?S @ drop n ?S)" by (simp add: sorted_sort_by)
  then have "c p r \<noteq> Greater" using pin rin unfolding sorted_wrt_append by blast
  moreover have "p \<in> set xs" "r \<in> set xs" using pin rin by (auto dest!: in_set_takeD in_set_dropD)
  ultimately show "bet p r" using assms(2) by blast
qed

text \<open>
  What is kept is determined up to ties: for every class of values closed under \<open>bet\<close>, the number of
  members kept.
\<close>

lemma keeps_best_count:
  assumes "keeps_best n key bet xs out" "\<And>p r. bet p r \<Longrightarrow> good r \<Longrightarrow> good p"
  shows "length (filter (\<lambda>x. key x = k \<and> good x) out) = min n (length (filter (\<lambda>x. key x = k \<and> good x) xs))"
proof -
  let ?G = "filter_mset (\<lambda>x. key x = k) (mset xs)" and ?O = "filter_mset (\<lambda>x. key x = k) (mset out)"
  have len: "length (filter P zs) = size (filter_mset P (mset zs))" for P and zs :: "'a list"
    by (metis mset_filter size_mset)
  have split: "filter_mset (\<lambda>x. key x = k \<and> good x) M = filter_mset good (filter_mset (\<lambda>x. key x = k) M)" for M
    by (simp add: filter_filter_mset conj_commute)
  have sub: "?O \<subseteq># ?G" using assms(1) by (simp add: keeps_best_def multiset_filter_mono)
  have size: "size ?O = min n (size ?G)" using assms(1) unfolding keeps_best_def len by blast
  have diff: "?G = ?O + (?G - ?O)" using sub by simp
  have best: "bet p r" if "p \<in># ?O" "r \<in># ?G - ?O" for p r
  proof -
    have eq: "?G - ?O = filter_mset (\<lambda>x. key x = k) (mset xs - mset out)"
      by (simp only: filter_diff_mset)
    have "p \<in># mset out" "key p = k" using that(1) by (simp_all only: set_mset_filter mem_Collect_eq)
    moreover have "r \<in># mset xs - mset out" "key r = k"
      using that(2) unfolding eq by (simp_all only: set_mset_filter mem_Collect_eq)
    ultimately show ?thesis using assms(1) unfolding keeps_best_def by metis
  qed
  have "size (filter_mset good ?O) = min n (size (filter_mset good ?G))"
  proof (cases "\<exists>r \<in># ?G - ?O. good r")
    case True
    then obtain r where r: "r \<in># ?G - ?O" "good r" by blast
    have "filter_mset good ?O = ?O" using best [OF _ r(1)] assms(2) r(2) by (auto simp: filter_mset_eq_conv)
    moreover have "size ?G = size ?O + size (?G - ?O)" using diff by (metis size_union)
    moreover have "0 < size (?G - ?O)" using r(1) by (cases "?G - ?O") auto
    moreover have "size (filter_mset good ?G) = size (filter_mset good ?O) + size (filter_mset good (?G - ?O))"
      using diff by (metis filter_union_mset size_union)
    ultimately show ?thesis using size by simp
  next
    case False
    then have "set_mset (filter_mset good (?G - ?O)) = {}" unfolding set_mset_filter by blast
    then have "filter_mset good (?G - ?O) = {#}" unfolding set_mset_eq_empty_iff .
    then have "filter_mset good ?G = filter_mset good ?O" using diff by (metis add.right_neutral filter_union_mset)
    moreover have "size (filter_mset good ?O) \<le> size ?O" by (rule size_filter_mset_lesseq)
    ultimately show ?thesis using size by simp
  qed
  then show ?thesis unfolding len split .
qed

lemma keeps_best_mset:
  "mset xs = mset ys \<Longrightarrow> mset out = mset out' \<Longrightarrow> keeps_best n key bet xs out \<longleftrightarrow> keeps_best n key bet ys out'"
proof -
  have len: "length (filter P zs) = size (filter_mset P (mset zs))" for P and zs :: "'a list"
    by (metis mset_filter size_mset)
  show "mset xs = mset ys \<Longrightarrow> mset out = mset out' \<Longrightarrow> keeps_best n key bet xs out \<longleftrightarrow> keeps_best n key bet ys out'"
    unfolding keeps_best_def len by simp
qed

lemma keeps_best_map:
  assumes "keeps_best n key bet xs out"
    "\<And>x y. x \<in> set xs \<Longrightarrow> y \<in> set xs \<Longrightarrow> key x = key y \<longleftrightarrow> key' (g x) = key' (g y)"
    "\<And>x y. x \<in> set xs \<Longrightarrow> y \<in> set xs \<Longrightarrow> bet x y \<Longrightarrow> bet' (g x) (g y)"
  shows "keeps_best n key' bet' (map g xs) (map g out)"
  unfolding keeps_best_def
proof (intro conjI allI ballI impI)
  have sub: "mset out \<subseteq># mset xs" using assms(1) by (simp add: keeps_best_def)
  then have out: "set out \<subseteq> set xs" by (metis set_mset_mono set_mset_mset)
  show "mset (map g out) \<subseteq># mset (map g xs)" using sub by (simp add: image_mset_subseteq_mono)
  show "length (filter (\<lambda>x. key' x = k) (map g out)) = min n (length (filter (\<lambda>x. key' x = k) (map g xs)))" for k
  proof (cases "\<exists>z \<in> set xs. key' (g z) = k")
    case True
    then obtain z where z: "z \<in> set xs" "k = key' (g z)" by auto
    have "filter (\<lambda>x. key' (g x) = k) xs = filter (\<lambda>x. key x = key z) xs"
      "filter (\<lambda>x. key' (g x) = k) out = filter (\<lambda>x. key x = key z) out"
      using assms(2) z out by (auto intro!: filter_cong)
    then show ?thesis using assms(1) by (simp add: filter_map comp_def keeps_best_def)
  next
    case False
    then have "filter (\<lambda>x. key' (g x) = k) xs = []" "filter (\<lambda>x. key' (g x) = k) out = []"
      using out by (auto simp: filter_empty_conv)
    then show ?thesis by (simp add: filter_map comp_def)
  qed
  fix p r assume p: "p \<in># mset (map g out)" and r: "r \<in># mset (map g xs) - mset (map g out)" and eq: "key' p = key' r"
  have "mset (map g xs) - mset (map g out) = image_mset g (mset xs - mset out)"
    using sub by (simp add: image_mset_Diff)
  with r obtain r' where r': "r' \<in># mset xs - mset out" "r = g r'" by auto
  from p obtain p' where p': "p' \<in> set out" "p = g p'" by auto
  have "r' \<in> set xs" "p' \<in> set xs" using r'(1) p'(1) out by (auto dest: in_diffD)
  with assms(1,2,3) r' p' eq show "bet' p r" unfolding keeps_best_def by auto
qed

lemma topk_instant_cut:
  "topk_instant_points inner n tp modi = cut n (retained modi) (\<lambda>a b. value_cmp tp (ip_value a) (ip_value b)) inner"
  unfolding topk_instant_eq cut_def ranked_def ..

lemma topk_instant_best:
  assumes "\<forall>p \<in> set inner. \<not> is_nan (ip_value p)"
  shows "keeps_best n (retained modi) (\<lambda>a b. better tp a b) inner (topk_instant_points inner n tp modi)"
  unfolding topk_instant_cut
  by (rule cut_keeps_best, rule preorder_value_cmp, rule assms) (use assms in \<open>auto simp: value_cmp_greater f64_not_lt\<close>)

text \<open>
  (C13) \<open>topk\<close> and \<open>bottomk\<close> keep, of every group of series with the same retained labels, exactly
  \<open>n\<close> of them (all, if there are fewer), unchanged, and none that was dropped ranks above one that
  was kept. This holds for vectors without NaN.
\<close>

theorem topk_keeps_best:
  assumes "\<forall>p \<in> set inner. \<not> is_nan (ip_value p)"
  shows "let out = topk_instant_points inner n tp modi in
    mset out \<subseteq># mset inner \<and>
    (\<forall>k. length (filter (\<lambda>p. retained modi p = k) out) = min n (length (filter (\<lambda>p. retained modi p = k) inner))) \<and>
    (\<forall>p \<in># mset out. \<forall>r \<in># mset inner - mset out. retained modi p = retained modi r \<longrightarrow> better tp p r)"
  using topk_instant_best [OF assms, of n modi tp] unfolding keeps_best_def Let_def .

section \<open>The range form\<close>

text \<open>What \<open>topk_range_points\<close> emits, in order: timestamp, series and value.\<close>

type_synonym emit = "int \<times> range_points \<times> f64"

abbreviation emit_key :: "emit \<Rightarrow> string" where
  "emit_key e \<equiv> series_key (rp_metric (fst (snd e))) (rp_labels (fst (snd e)))"

definition emits_of :: "nat \<Rightarrow> bool \<Rightarrow> range_points list \<Rightarrow> emit list" where
  "emits_of n tp members = concat (map (\<lambda>ts. map (\<lambda>mv. (ts, mv)) (topk_at members n tp ts))
     (map fst (bt_collect (concat (map rp_points members)))))"

abbreviation emit1 :: "(string, range_points) btree \<Rightarrow> emit \<Rightarrow> (string, range_points) btree" where
  "emit1 out e \<equiv> topk_emit (fst e) (snd e) out"

lemma topk_group_emits: "topk_group n tp members out = foldl emit1 out (emits_of n tp members)"
proof -
  have "foldl (\<lambda>out ts. foldl (\<lambda>out mv. topk_emit ts mv out) out (f ts)) out tss =
    foldl emit1 out (concat (map (\<lambda>ts. map (\<lambda>mv. (ts, mv)) (f ts)) tss))" for f :: "int \<Rightarrow> _" and tss
    by (induction tss arbitrary: out) (simp_all add: foldl_map)
  then show ?thesis by (simp add: topk_group_def emits_of_def)
qed

lemma topk_range_emits:
  "n \<noteq> 0 \<Longrightarrow> topk_range_points inner n tp modi =
     map snd (foldl emit1 [] (concat (map (\<lambda>g. emits_of n tp (snd g))
       (bt_group (\<lambda>p. retained_labels (rp_labels p) modi) (\<lambda>p. p) inner))))"
proof -
  have "foldl (\<lambda>out g. topk_group n tp (snd g) out) out gs =
    foldl emit1 out (concat (map (\<lambda>g. emits_of n tp (snd g)) gs))" for out :: "(string, range_points) btree" and gs :: "(labels \<times> range_points list) list"
    by (induction gs arbitrary: out) (simp_all add: topk_group_emits)
  then show "n \<noteq> 0 \<Longrightarrow> ?thesis" by (simp add: topk_range_points_def)
qed

text \<open>The map that collects the emits, in closed form.\<close>

definition series_of :: "emit list \<Rightarrow> range_points" where
  "series_of es = \<lparr>rp_metric = rp_metric (fst (snd (hd es))), rp_labels = rp_labels (fst (snd (hd es))),
     rp_points = map (\<lambda>(ts, m, v). (ts, v)) es\<rparr>"

lemma collect_emits:
  "foldl emit1 [] es = map (\<lambda>(k, g). (k, series_of g)) (bt_group emit_key (\<lambda>e. e) es)"
proof -
  have "bt_wf (foldl emit1 [] es) \<and>
    map_of (foldl emit1 [] es) k = map_option series_of (map_of (bt_group emit_key (\<lambda>e. e) es) k)" for k
  proof (induction es arbitrary: k rule: rev_induct)
    case Nil
    then show ?case by (simp add: bt_group_def)
  next
    case (snoc e es)
    obtain ts m v where e: "e = (ts, m, v)" by (cases e)
    have "filter (\<lambda>x. emit_key x = emit_key e) es = [] \<or> hd (filter (\<lambda>x. emit_key x = emit_key e) es @ [e]) = hd (filter (\<lambda>x. emit_key x = emit_key e) es)"
      by (cases "filter (\<lambda>x. emit_key x = emit_key e) es") auto
    then show ?case
      using snoc [of k] snoc [of "emit_key e"]
      by (auto simp: e topk_emit_def bt_wf_upd map_of_bt_upd bt_group_lookup Let_def series_of_def)
  qed
  then show ?thesis
    by (intro bt_ext) (auto simp: bt_wf_map_snd bt_wf_group fun_eq_iff map_of_bt_map_snd)
qed

section \<open>Reading the range form at a timestamp\<close>

lemma distinct_concat_map:
  assumes "distinct ks" "\<And>k. k \<in> set ks \<Longrightarrow> distinct (map f (g k))"
    "\<And>k k' x y. k \<in> set ks \<Longrightarrow> k' \<in> set ks \<Longrightarrow> x \<in> set (g k) \<Longrightarrow> y \<in> set (g k') \<Longrightarrow> f x = f y \<Longrightarrow> k = k'"
  shows "distinct (map f (concat (map g ks)))"
  using assms
proof (induction ks)
  case (Cons a ks)
  have "distinct (map f (concat (map g ks)))" using Cons.prems by (intro Cons.IH) auto
  moreover have "set (map f (g a)) \<inter> set (map f (concat (map g ks))) = {}"
    using Cons.prems(1) Cons.prems(3) [of a] by fastforce
  ultimately show ?case using Cons.prems(2) [of a] by simp
qed simp

lemma bt_group_partition: "mset (concat (map snd (bt_group key val xs))) = mset (map val xs)"
proof -
  have sum: "(\<Sum>k \<in> A. mset (map val (filter (\<lambda>x. key x = k) xs))) = mset (map val (filter (\<lambda>x. key x \<in> A) xs))"
    if "finite A" for A
    using that
  proof (induction A)
    case (insert a A)
    have "mset (map val (filter (\<lambda>x. key x = a) xs)) + mset (map val (filter (\<lambda>x. key x \<in> A) xs)) =
      mset (map val (filter (\<lambda>x. key x \<in> insert a A) xs))"
      using insert.hyps by (induction xs) auto
    then show ?case using insert by simp
  qed simp
  have "mset (concat (map snd (bt_group key val xs))) =
    sum_list (map (\<lambda>k. mset (map val (filter (\<lambda>x. key x = k) xs))) (sorted_list_of_set (key ` set xs)))"
    by (simp only: bt_group_eq_map mset_concat map_map comp_def snd_conv)
  also have "\<dots> = (\<Sum>k \<in> key ` set xs. mset (map val (filter (\<lambda>x. key x = k) xs)))"
    by (simp add: sum_list_distinct_conv_sum_set)
  also have "\<dots> = mset (map val (filter (\<lambda>x. key x \<in> key ` set xs) xs))" by (rule sum) simp
  also have "filter (\<lambda>x. key x \<in> key ` set xs) xs = xs" by (auto intro: filter_True)
  finally show ?thesis .
qed

lemma map_insort_by:
  "(\<And>x y. c' (f x) (f y) = c x y) \<Longrightarrow> map f (insort_by c x xs) = insort_by c' (f x) (map f xs)"
  by (induction xs) auto

lemma map_sort_by: "(\<And>x y. c' (f x) (f y) = c x y) \<Longrightarrow> map f (sort_by c xs) = sort_by c' (map f xs)"
  by (induction xs) (simp_all add: map_insort_by [where c' = c'])

definition emit_point :: "emit \<Rightarrow> instant_point" where
  "emit_point = (\<lambda>(ts, m, v). \<lparr>ip_metric = rp_metric m, ip_labels = rp_labels m, ip_ts = ts, ip_value = v\<rparr>)"

text \<open>The candidates of a group at a timestamp are its slice.\<close>

lemma topk_at_slice:
  assumes "range_wf ms"
  shows "map (\<lambda>mv. emit_point (ts, mv)) (topk_at ms n tp ts) = take n (ranked tp (slice ts ms))"
proof -
  let ?at = "concat (map (\<lambda>m. case map_of (bt_collect (rp_points m)) ts of Some v \<Rightarrow> [(m, v)] | None \<Rightarrow> []) ms)"
  have "map (\<lambda>mv. emit_point (ts, mv)) ?at = slice ts ms"
    using assms by (induction ms) (auto simp: emit_point_def map_of_bt_collect_distinct split: option.splits)
  then show ?thesis
    unfolding topk_at_def Let_def ranked_def take_map [symmetric]
    by (subst map_sort_by [where c' = "\<lambda>a b. value_cmp tp (ip_value a) (ip_value b)"])
      (auto simp: emit_point_def)
qed

lemma topk_at_sub: "mv \<in> set (topk_at ms n tp ts) \<Longrightarrow> fst mv \<in> set ms \<and> ts \<in> fst ` set (rp_points (fst mv))"
proof -
  assume "mv \<in> set (topk_at ms n tp ts)"
  then obtain m where "m \<in> set ms" "mv \<in> set (case map_of (bt_collect (rp_points m)) ts of Some v \<Rightarrow> [(m, v)] | None \<Rightarrow> [])"
    by (auto simp: topk_at_def dest!: in_set_takeD)
  then show ?thesis
    by (auto simp: map_of_bt_collect dest!: map_of_SomeD [OF sym] split: option.splits intro: rev_image_eqI)
qed

lemma topk_at_distinct:
  assumes "distinct (map (\<lambda>s. series_key (rp_metric s) (rp_labels s)) ms)"
  shows "distinct (map (\<lambda>mv. emit_key (ts, mv)) (topk_at ms n tp ts))"
proof -
  let ?key = "\<lambda>s. series_key (rp_metric s) (rp_labels s)"
  let ?at = "concat (map (\<lambda>m. case map_of (bt_collect (rp_points m)) ts of Some v \<Rightarrow> [(m, v)] | None \<Rightarrow> []) ms)"
  have sub: "set (map (\<lambda>mv. emit_key (ts, mv)) ?at) \<subseteq> ?key ` set ms"
    by (auto split: option.splits)
  have "distinct (map (\<lambda>mv. emit_key (ts, mv)) ?at)"
    using assms
  proof (induction ms)
    case (Cons m ms)
    have "set (map (\<lambda>mv. emit_key (ts, mv)) (concat (map (\<lambda>m. case map_of (bt_collect (rp_points m)) ts of
        Some v \<Rightarrow> [(m, v)] | None \<Rightarrow> []) ms))) \<subseteq> ?key ` set ms"
      by (auto split: option.splits)
    then show ?case using Cons by (auto split: option.splits)
  qed simp
  then have "distinct (map (\<lambda>mv. emit_key (ts, mv)) (sort_by (\<lambda>a b. value_cmp tp (snd a) (snd b)) ?at))"
    using mset_eq_imp_distinct_iff [of "map (\<lambda>mv. emit_key (ts, mv)) (sort_by (\<lambda>a b. value_cmp tp (snd a) (snd b)) ?at)"
        "map (\<lambda>mv. emit_key (ts, mv)) ?at"] by (simp only: mset_map mset_sort_by)
  then show ?thesis by (simp add: topk_at_def Let_def take_map [symmetric] distinct_take)
qed

definition series_distinct :: "range_points list \<Rightarrow> bool" where
  "series_distinct rs \<longleftrightarrow> distinct (map (\<lambda>s. series_key (rp_metric s) (rp_labels s)) rs)"

lemma distinct_map_filter_pred: "distinct (map f xs) \<Longrightarrow> distinct (map f (filter P xs))"
  by (auto simp: distinct_map intro: inj_on_subset)

lemma series_distinct_inj: "series_distinct rs \<Longrightarrow> inj_on (\<lambda>s. series_key (rp_metric s) (rp_labels s)) (set rs)"
  by (simp add: series_distinct_def distinct_map)

abbreviation "all_ts ms \<equiv> map fst (bt_collect (concat (map rp_points ms)))"

lemma distinct_all_ts: "distinct (all_ts ms)"
  by (simp add: bt_wf_distinct bt_wf_collect)

lemma set_all_ts: "set (all_ts ms) = fst ` set (concat (map rp_points ms))"
proof (rule set_eqI)
  fix t
  have "t \<in> set (all_ts ms) \<longleftrightarrow> map_of (bt_collect (concat (map rp_points ms))) t \<noteq> None"
    by (simp add: map_of_eq_None_iff)
  then show "t \<in> set (all_ts ms) \<longleftrightarrow> t \<in> fst ` set (concat (map rp_points ms))"
    by (simp add: map_of_bt_collect map_of_eq_None_iff)
qed

lemma emits_of_mem:
  "e \<in> set (emits_of n tp ms) \<Longrightarrow> fst (snd e) \<in> set ms"
  by (auto simp: emits_of_def dest: topk_at_sub)

lemma emits_of_distinct:
  assumes "series_distinct ms"
  shows "distinct (map (\<lambda>e. (fst e, emit_key e)) (emits_of n tp ms))"
  unfolding emits_of_def
proof (rule distinct_concat_map)
  show "distinct (map (\<lambda>e. (fst e, emit_key e)) (map (\<lambda>mv. (ts, mv)) (topk_at ms n tp ts)))" for ts
  proof -
    have "distinct (map (\<lambda>mv. emit_key (ts, mv)) (topk_at ms n tp ts))"
      using assms by (intro topk_at_distinct) (simp add: series_distinct_def)
    then show ?thesis by (auto simp: distinct_map inj_on_def comp_def)
  qed
qed (auto simp: distinct_all_ts simp del: map_map)

lemma emits_of_at: "filter (\<lambda>e. fst e = ts) (emits_of n tp ms) = map (\<lambda>mv. (ts, mv)) (topk_at ms n tp ts)"
proof -
  have "filter (\<lambda>e. fst e = ts) (emits_of n tp ms) =
    (if ts \<in> set (all_ts ms) then map (\<lambda>mv. (ts, mv)) (topk_at ms n tp ts) else [])"
    unfolding emits_of_def by (rule filter_concat_keys) (auto simp: distinct_all_ts simp del: map_map)
  moreover have "topk_at ms n tp ts = []" if "ts \<notin> set (all_ts ms)"
  proof -
    have False if mv: "mv \<in> set (topk_at ms n tp ts)" for mv
      using topk_at_sub [OF mv] \<open>ts \<notin> set (all_ts ms)\<close> unfolding set_all_ts by auto
    then show ?thesis by (cases "topk_at ms n tp ts") auto
  qed
  ultimately show ?thesis by auto
qed

text \<open>One collected series, read at a timestamp, gives back its emits there.\<close>

lemma slice_series_of:
  assumes "es \<noteq> []" "distinct (map fst es)"
    "\<forall>e \<in> set es. rp_metric (fst (snd e)) = m \<and> rp_labels (fst (snd e)) = l"
  shows "slice ts [series_of es] = map emit_point (filter (\<lambda>e. fst e = ts) es)"
proof -
  have hd: "hd es \<in> set es" using assms(1) by simp
  have s: "rp_metric (series_of es) = m" "rp_labels (series_of es) = l"
    using assms(3) hd by (auto simp: series_of_def)
  have d: "distinct (map fst (rp_points (series_of es)))"
    using assms(2) by (simp add: series_of_def comp_def case_prod_unfold)
  have "map (\<lambda>v. \<lparr>ip_metric = m, ip_labels = l, ip_ts = ts, ip_value = v\<rparr>)
      (map snd (filter (\<lambda>x. fst x = ts) (rp_points (series_of es)))) =
    map emit_point (filter (\<lambda>e. fst e = ts) es)"
    unfolding series_of_def using assms(3)
    by (induction es) (auto simp: emit_point_def case_prod_unfold)
  then show ?thesis unfolding values_at_map_of [OF d] using s by (auto split: option.splits)
qed

lemma slice_map: "slice ts (map f xs) = concat (map (\<lambda>x. slice ts [f x]) xs)"
  by (induction xs) simp_all

lemma slice_collected:
  assumes "distinct (map (\<lambda>e. (fst e, emit_key e)) es)" "\<forall>e \<in> set es. fst (snd e) \<in> A"
    "inj_on (\<lambda>s. series_key (rp_metric s) (rp_labels s)) A"
  shows "mset (slice ts (map snd (foldl emit1 [] es))) = mset (map emit_point (filter (\<lambda>e. fst e = ts) es))"
proof -
  have one: "slice ts [series_of g] = map emit_point (filter (\<lambda>e. fst e = ts) g)"
    if kg: "(k, g) \<in> set (bt_group emit_key (\<lambda>e. e) es)" for k g
  proof -
    have g: "g = filter (\<lambda>e. emit_key e = k) es" using kg by (simp add: bt_group_mem)
    have gne: "g \<noteq> []" by (rule bt_group_nonempty [OF kg])
    have "distinct (map (\<lambda>e. (fst e, emit_key e)) g)"
      using assms(1) unfolding g by (auto simp: distinct_map intro: inj_on_subset)
    moreover have "map (\<lambda>e. (fst e, emit_key e)) g = map (\<lambda>t. (t, k)) (map fst g)"
      by (auto simp: g)
    ultimately have d: "distinct (map fst g)" by (metis distinct_map)
    have "fst (snd e) = fst (snd (hd g))" if "e \<in> set g" for e
    proof -
      have "hd g \<in> set g" using gne by simp
      with that g assms(2) show ?thesis by (intro inj_onD [OF assms(3)]) auto
    qed
    then show ?thesis using slice_series_of [OF gne d, of _ _ ts] by metis
  qed
  let ?G = "bt_group emit_key (\<lambda>e. e) es"
  have "slice ts (map snd (foldl emit1 [] es)) = concat (map (\<lambda>kg. slice ts [series_of (snd kg)]) ?G)"
    unfolding collect_emits map_map slice_map by (simp only: comp_def case_prod_unfold snd_conv)
  also have "\<dots> = concat (map (\<lambda>kg. map emit_point (filter (\<lambda>e. fst e = ts) (snd kg))) ?G)"
  proof (intro arg_cong [where f = concat] map_cong refl)
    fix kg assume "kg \<in> set ?G"
    then show "slice ts [series_of (snd kg)] = map emit_point (filter (\<lambda>e. fst e = ts) (snd kg))"
      using one [of "fst kg" "snd kg"] by simp
  qed
  also have "\<dots> = map emit_point (filter (\<lambda>e. fst e = ts) (concat (map snd ?G)))"
    by (simp add: map_concat filter_concat comp_def)
  finally have "slice ts (map snd (foldl emit1 [] es)) = map emit_point (filter (\<lambda>e. fst e = ts) (concat (map snd ?G)))" .
  moreover have "mset (concat (map snd ?G)) = mset es"
    using bt_group_partition [of emit_key "\<lambda>e. e" es] by simp
  ultimately show ?thesis by (simp only: mset_map mset_filter)
qed

abbreviation "group_emits n tp modi inner \<equiv>
  concat (map (\<lambda>g. emits_of n tp (snd g)) (bt_group (\<lambda>p. retained_labels (rp_labels p) modi) (\<lambda>p. p) inner))"

lemma group_emits_members:
  assumes "g \<in> set (bt_group (\<lambda>p. retained_labels (rp_labels p) modi) (\<lambda>p. p) inner)"
  shows "snd g = filter (\<lambda>p. retained_labels (rp_labels p) modi = fst g) inner"
  using assms bt_group_mem [of "fst g" "snd g" "\<lambda>p. retained_labels (rp_labels p) modi" "\<lambda>p. p" inner] by simp

lemma group_emits_distinct:
  assumes "series_distinct inner"
  shows "distinct (map (\<lambda>e. (fst e, emit_key e)) (group_emits n tp modi inner))"
proof (rule distinct_concat_map)
  let ?kr = "\<lambda>p. retained_labels (rp_labels p) modi"
  let ?G = "bt_group ?kr (\<lambda>p. p) inner"
  show "distinct ?G"
    using bt_wf_distinct [OF bt_wf_group, of ?kr "\<lambda>p. p" inner] unfolding distinct_map by blast
  have sd: "series_distinct (filter P inner)" for P
    using assms by (simp add: series_distinct_def distinct_map_filter_pred)
  show "distinct (map (\<lambda>e. (fst e, emit_key e)) (emits_of n tp (snd g)))" if "g \<in> set ?G" for g
    using group_emits_members [OF that] sd by (simp add: emits_of_distinct)
  fix g h x y assume g: "g \<in> set ?G" and h: "h \<in> set ?G" and x: "x \<in> set (emits_of n tp (snd g))"
    and y: "y \<in> set (emits_of n tp (snd h))" and "(fst x, emit_key x) = (fst y, emit_key y)"
  moreover have m: "fst (snd x) \<in> set (filter (\<lambda>p. ?kr p = fst g) inner)"
    "fst (snd y) \<in> set (filter (\<lambda>p. ?kr p = fst h) inner)"
    using emits_of_mem [OF x] emits_of_mem [OF y] group_emits_members [OF g] group_emits_members [OF h] by simp_all
  ultimately have "fst (snd x) = fst (snd y)"
    by (intro inj_onD [OF series_distinct_inj [OF assms]]) auto
  then have "fst g = fst h" using m by simp
  then show "g = h" using group_emits_members [OF g] group_emits_members [OF h] by (simp add: prod_eq_iff)
qed

lemma group_emits_slice:
  assumes "range_wf inner" "n \<noteq> 0"
  shows "map emit_point (filter (\<lambda>e. fst e = ts) (group_emits n tp modi inner)) =
    topk_instant_points (slice ts inner) n tp modi"
proof -
  let ?G = "bt_group (\<lambda>p. retained_labels (rp_labels p) modi) (\<lambda>p. p) inner"
  have "map emit_point (filter (\<lambda>e. fst e = ts) (group_emits n tp modi inner)) =
    concat (map (\<lambda>g. map (\<lambda>mv. emit_point (ts, mv)) (topk_at (snd g) n tp ts)) ?G)"
    by (simp add: filter_concat map_concat comp_def emits_of_at)
  also have "\<dots> = concat (map (\<lambda>g. take n (ranked tp (snd g)))
      (bt_group (\<lambda>p. retained modi p) (\<lambda>p. p) (slice ts inner)))"
    by (rule grouped_pointwise)
      (use assms(1) in \<open>simp_all add: topk_at_slice range_wf_def ranked_def
        slice_filter [of ts "\<lambda>l. retained_labels l modi = _"] slice_group_keys [of "\<lambda>l. retained_labels l modi"]\<close>)
  also have "\<dots> = topk_instant_points (slice ts inner) n tp modi"
    using assms(2) by (simp add: topk_instant_points_def ranked_def case_prod_unfold)
  finally show ?thesis .
qed

text \<open>
  \<open>topk\<close> over a range keeps, at every timestamp, exactly the points that \<open>topk\<close> keeps of the
  vector at that timestamp, each under its own series, whenever no two input series share a key.
\<close>

theorem topk_range_pointwise:
  assumes "range_wf inner" "series_distinct inner"
  shows "mset (slice ts (topk_range_points inner n tp modi)) =
    mset (topk_instant_points (slice ts inner) n tp modi)"
proof (cases "n = 0")
  case True
  then show ?thesis by (simp add: topk_range_points_def topk_instant_points_def)
next
  case False
  have "\<forall>e \<in> set (group_emits n tp modi inner). fst (snd e) \<in> set inner"
    by (auto dest!: emits_of_mem group_emits_members)
  from slice_collected [OF group_emits_distinct [OF assms(2)] this series_distinct_inj [OF assms(2)]]
  show ?thesis by (simp add: topk_range_emits False group_emits_slice [OF assms(1)])
qed

theorem topk_range_pointwise_witness:
  "series_distinct demo_range \<and>
   mset (slice 60 (topk_range_points demo_range 1 True None)) =
   mset (topk_instant_points (slice 60 demo_range) 1 True None)"
  using topk_range_pointwise [OF demo_range_wf, of 60 1 True None]
  by (simp add: series_distinct_def demo_range_def series_key_def)

definition demo_vector :: "instant_point list" where
  "demo_vector = [\<lparr>ip_metric = ''m'', ip_labels = [(''job'', ''a'')], ip_ts = 0, ip_value = Num 1\<rparr>,
     \<lparr>ip_metric = ''m'', ip_labels = [(''job'', ''b'')], ip_ts = 0, ip_value = Num 3\<rparr>]"

theorem topk_keeps_best_witness:
  "topk_instant_points demo_vector 1 True None = [demo_vector ! 1] \<and>
   (let out = topk_instant_points demo_vector 1 True None in
    mset out \<subseteq># mset demo_vector \<and>
    (\<forall>k. length (filter (\<lambda>p. retained None p = k) out) =
       min 1 (length (filter (\<lambda>p. retained None p = k) demo_vector))) \<and>
    (\<forall>p \<in># mset out. \<forall>r \<in># mset demo_vector - mset out. retained None p = retained None r \<longrightarrow> better True p r))"
proof (intro conjI)
  show "topk_instant_points demo_vector 1 True None = [demo_vector ! 1]" by code_simp
qed (rule topk_keeps_best, simp add: demo_vector_def)

end
