(* ===== verification/Selector_Props.thy ===== *)
theory Selector_Props
  imports Selector Topk
begin

text \<open>
  What the selector evaluators return: the samples whose series PromQL selects, each under its own
  series, the latest one for an instant query; and where the code departs from PromQL.
\<close>

section \<open>PromQL's selection\<close>

text \<open>
  PromQL matches the metric name like a label, under the name \<open>__name__\<close>: every matcher of the
  selector is applied to the labels with that one added.
\<close>

definition selects :: "vector_selector \<Rightarrow> string \<Rightarrow> labels \<Rightarrow> bool" where
  "selects sel metric lbls \<longleftrightarrow>
     (case vsel_name sel of Some name \<Rightarrow> metric = name | None \<Rightarrow> True) \<and>
     (\<forall>m \<in> set (vsel_matchers sel). match_label ((''__name__'', metric) # lbls) m)"

text \<open>
  The matchers that the code handles: one on \<open>__name__\<close> is an equality with the one name it looks for,
  and no other equality is with the empty string.
\<close>

definition matchers_handled :: "vector_selector \<Rightarrow> bool" where
  "matchers_handled sel \<longleftrightarrow>
     (\<forall>m \<in> set (vsel_matchers sel).
        if mt_name m = ''__name__'' then mt_op m = MEqual \<and> effective_metric_name sel = Some (mt_value m)
        else mt_op m = MEqual \<longrightarrow> mt_value m \<noteq> [])"

text \<open>Labels are stored as the flusher writes them, in key order.\<close>

definition db_wf :: "database \<Rightarrow> bool" where
  "db_wf db \<longleftrightarrow> (\<forall>s \<in> set (db_series db). bt_wf (st_labels s))"

definition matching_rows :: "database \<Rightarrow> vector_selector \<Rightarrow> int \<Rightarrow> int \<Rightarrow> selector_row list" where
  "matching_rows db sel lo hi =
     concat (map (\<lambda>(sid, ts, v).
         map (\<lambda>s. \<lparr>row_metric = st_metric s, row_labels = st_labels s, row_ts = ts, row_value = v\<rparr>)
           (filter (\<lambda>s. st_id s = sid \<and> selects sel (st_metric s) (st_labels s) \<and> lo \<le> ts \<and> ts \<le> hi)
             (db_series db)))
       (db_samples db))"

definition reads_back :: "query_env \<Rightarrow> int \<Rightarrow> bool" where
  "reads_back Q us \<longleftrightarrow> pe_read_ts (qe_prom Q) (us_to_ts_lit (qe_prom Q) us) = Some us"

text \<open>The SQL predicates and the regular expressions together are PromQL's matchers.\<close>

lemma conds_of_matcher:
  assumes "mt_name m \<noteq> ''__name__''" "mt_op m = MEqual \<longrightarrow> mt_value m \<noteq> []"
  shows "match_label (st_labels s) m \<longleftrightarrow>
    (case mt_op m of
       MEqual \<Rightarrow> cond_holds (LabelIs (mt_name m) (mt_value m)) s
     | MNotEqual \<Rightarrow> cond_holds (LabelIsNot (mt_name m) (mt_value m)) s
     | _ \<Rightarrow> match_label (st_labels s) m)"
  using assms by (auto simp: match_label_def Let_def split: match_op.splits option.splits)

lemma selects_by_name:
  assumes "matchers_handled sel"
  shows "selects sel metric lbls \<longleftrightarrow>
    (case effective_metric_name sel of Some name \<Rightarrow> metric = name | None \<Rightarrow> True) \<and>
    (\<forall>m \<in> set (vsel_matchers sel). mt_name m \<noteq> ''__name__'' \<longrightarrow> match_label lbls m)"
proof -
  let ?L = "(''__name__'', metric) # lbls"
  let ?named = "\<lambda>m. mt_name m = ''__name__'' \<and> (case mt_op m of MEqual \<Rightarrow> True | _ \<Rightarrow> False)"
  have other: "match_label ?L m = match_label lbls m" if "mt_name m \<noteq> ''__name__''" for m
    using that by (simp add: match_label_def)
  have name: "match_label ?L m \<longleftrightarrow> metric = mt_value m" "effective_metric_name sel = Some (mt_value m)"
    if "m \<in> set (vsel_matchers sel)" "mt_name m = ''__name__''" for m
    using assms that by (auto simp: matchers_handled_def match_label_def)
  show ?thesis
  proof (cases "effective_metric_name sel")
    case None
    then have "vsel_name sel = None" by (simp add: effective_metric_name_def split: option.splits)
    moreover have "match_label ?L m \<longleftrightarrow> (mt_name m \<noteq> ''__name__'' \<longrightarrow> match_label lbls m)"
      if "m \<in> set (vsel_matchers sel)" for m
      using name(2) [OF that] other [of m] None by auto
    ultimately show ?thesis using None by (simp add: selects_def)
  next
    case (Some n)
    have v: "vsel_name sel = Some n \<or> vsel_name sel = None \<and>
        (\<exists>m \<in> set (vsel_matchers sel). mt_name m = ''__name__'')"
      using Some by (auto simp: effective_metric_name_def find_Some_iff split: option.splits)
    have "match_label ?L m \<longleftrightarrow> (if mt_name m = ''__name__'' then metric = n else match_label lbls m)"
      if "m \<in> set (vsel_matchers sel)" for m
      using name [OF that] other [of m] Some by auto
    then have "selects sel metric lbls \<longleftrightarrow>
        (case vsel_name sel of Some name \<Rightarrow> metric = name | None \<Rightarrow> True) \<and>
        (\<forall>m \<in> set (vsel_matchers sel). if mt_name m = ''__name__'' then metric = n else match_label lbls m)"
      by (simp add: selects_def)
    then show ?thesis using v Some by auto
  qed
qed

lemma where_regex_selects:
  assumes "matchers_handled sel"
  shows "where_holds sel s \<and> regex_passes sel (st_labels s) \<longleftrightarrow> selects sel (st_metric s) (st_labels s)"
proof -
  let ?name = "case effective_metric_name sel of Some name \<Rightarrow> st_metric s = name | None \<Rightarrow> True"
  let ?conds = "\<lambda>m. if mt_name m = ''__name__'' then []
       else (case mt_op m of
               MEqual \<Rightarrow> [LabelIs (mt_name m) (mt_value m)]
             | MNotEqual \<Rightarrow> [LabelIsNot (mt_name m) (mt_value m)]
             | _ \<Rightarrow> [])"
  let ?regex = "\<lambda>m. case mt_op m of MRe _ \<Rightarrow> True | MNotRe _ \<Rightarrow> True | _ \<Rightarrow> False"
  have w: "where_holds sel s \<longleftrightarrow> ?name \<and> (\<forall>m \<in> set (vsel_matchers sel). \<forall>c \<in> set (?conds m). cond_holds c s)"
    by (auto simp: where_holds_def selector_conds_def list_all_iff split: option.splits)
  have r: "regex_passes sel (st_labels s) \<longleftrightarrow>
    (\<forall>m \<in> set (vsel_matchers sel). mt_name m \<noteq> ''__name__'' \<and> ?regex m \<longrightarrow> match_label (st_labels s) m)"
    by (auto simp: regex_passes_def label_filters_for_selector_def list_all_iff)
  have m: "(\<forall>c \<in> set (?conds m). cond_holds c s) \<and>
      (mt_name m \<noteq> ''__name__'' \<and> ?regex m \<longrightarrow> match_label (st_labels s) m) \<longleftrightarrow>
    (mt_name m \<noteq> ''__name__'' \<longrightarrow> match_label (st_labels s) m)" if "m \<in> set (vsel_matchers sel)" for m
  proof (cases "mt_name m = ''__name__''")
    case False
    then have "mt_op m = MEqual \<longrightarrow> mt_value m \<noteq> []" using assms that by (simp add: matchers_handled_def)
    from conds_of_matcher [OF False this, of s] False show ?thesis
      by (cases "mt_op m") (auto simp del: cond_holds.simps)
  qed simp
  show ?thesis unfolding w r selects_by_name [OF assms] using m by blast
qed

lemma selector_rows_mset:
  assumes "db_wf db" "matchers_handled sel"
  shows "mset (selector_rows db sel lo hi) = mset (matching_rows db sel lo hi)"
proof -
  let ?mk = "\<lambda>(s, ts, v). \<lparr>row_metric = st_metric s, row_labels = labels_to_btree (st_labels s), row_ts = ts, row_value = v\<rparr>"
  have one: "filter (\<lambda>r. regex_passes sel (row_labels r)) (map ?mk (map (\<lambda>s. (s, ts, v))
      (filter (\<lambda>s. st_id s = sid \<and> where_holds sel s \<and> lo \<le> ts \<and> ts \<le> hi) ss))) =
    map (\<lambda>s. \<lparr>row_metric = st_metric s, row_labels = st_labels s, row_ts = ts, row_value = v\<rparr>)
      (filter (\<lambda>s. st_id s = sid \<and> selects sel (st_metric s) (st_labels s) \<and> lo \<le> ts \<and> ts \<le> hi) ss)"
    if "\<forall>s \<in> set ss. bt_wf (st_labels s)" for ss sid ts v
    using that where_regex_selects [OF assms(2)]
    by (induction ss) (auto simp: labels_to_btree_def bt_collect_id)
  have "filter (\<lambda>r. regex_passes sel (row_labels r)) (map ?mk (window_join db sel lo hi)) = matching_rows db sel lo hi"
    using one [of "db_series db"] assms(1)
    unfolding window_join_def matching_rows_def map_concat filter_concat map_map db_wf_def
    by (intro arg_cong [where f = concat] map_cong refl) auto
  moreover have "mset (selector_rows db sel lo hi) =
    mset (filter (\<lambda>r. regex_passes sel (row_labels r)) (map ?mk (window_join db sel lo hi)))"
    unfolding selector_rows_def by simp
  ultimately show ?thesis by simp
qed

lemma selector_rows_sorted:
  "sorted (map (\<lambda>r. (row_metric r, row_ts r)) (selector_rows db sel lo hi))"
proof -
  have "sorted (map (\<lambda>r. (row_metric r, row_ts r))
      (map (\<lambda>(s, ts, v). \<lparr>row_metric = st_metric s, row_labels = labels_to_btree (st_labels s), row_ts = ts, row_value = v\<rparr>)
        (sort_key (\<lambda>(s, ts, v). (st_metric s, ts)) (window_join db sel lo hi))))"
    using sorted_sort_key [of "\<lambda>(s, ts, v). (st_metric s, ts)" "window_join db sel lo hi"]
    by (simp add: comp_def case_prod_unfold)
  then show ?thesis unfolding selector_rows_def by (rule sorted_filter)
qed

lemma run_selector_rows:
  assumes "run_selector_query Q sel lo hi = Inr rows" "reads_back Q lo" "reads_back Q hi"
  shows "rows = selector_rows (qe_db Q) sel lo hi"
  using assms by (auto simp: run_selector_query_def run_stmt_def reads_back_def split: option.splits)

text \<open>
  (C11) A selector query returns exactly the samples in the window whose series PromQL selects, each as
  often as it is stored, by metric name and time: \<open>=\<close> and \<open>!=\<close> in SQL and the regular expressions in
  Rust together are the matchers, except for an \<open>=\<close> against the empty string and for matchers on the
  metric name other than \<open>=\<close>.
\<close>

theorem selector_returns_matching:
  assumes "run_selector_query Q sel lo hi = Inr rows" "reads_back Q lo" "reads_back Q hi"
    "db_wf (qe_db Q)" "matchers_handled sel"
  shows "mset rows = mset (matching_rows (qe_db Q) sel lo hi) \<and>
    sorted (map (\<lambda>r. (row_metric r, row_ts r)) rows)"
  unfolding run_selector_rows [OF assms(1-3)]
  using selector_rows_mset [OF assms(4,5)] selector_rows_sorted by simp

lemma find_filter: "(\<And>x. P x \<Longrightarrow> R x) \<Longrightarrow> find P (filter R xs) = find P xs"
  by (induction xs) auto

lemma concat_map_filter: "(\<And>x. \<not> R x \<Longrightarrow> f x = []) \<Longrightarrow> concat (map f (filter R xs)) = concat (map f xs)"
  by (induction xs) auto

text \<open>
  A matcher on the metric name other than \<open>=\<close> has no effect: a selector answers what it answers with
  all its \<open>!=\<close>, \<open>=~\<close> and \<open>!~\<close> matchers on \<open>__name__\<close> removed, so \<open>{__name__=~"up.*"}\<close> selects every series.
\<close>

definition name_matcher :: "matcher \<Rightarrow> bool" where
  "name_matcher m \<longleftrightarrow> mt_name m = ''__name__'' \<and> (case mt_op m of MEqual \<Rightarrow> False | _ \<Rightarrow> True)"

theorem name_matchers_ignored:
  "run_selector_query Q sel lo hi =
     run_selector_query Q (sel\<lparr>vsel_matchers := filter (\<lambda>m. \<not> name_matcher m) (vsel_matchers sel)\<rparr>) lo hi"
proof -
  let ?sel = "sel\<lparr>vsel_matchers := filter (\<lambda>m. \<not> name_matcher m) (vsel_matchers sel)\<rparr>"
  let ?named = "\<lambda>m. mt_name m = ''__name__'' \<and> (case mt_op m of MEqual \<Rightarrow> True | _ \<Rightarrow> False)"
  have ms: "vsel_matchers ?sel = filter (\<lambda>m. \<not> name_matcher m) (vsel_matchers sel)" "vsel_name ?sel = vsel_name sel"
    by simp_all
  have "find ?named (filter (\<lambda>m. \<not> name_matcher m) (vsel_matchers sel)) = find ?named (vsel_matchers sel)"
    by (rule find_filter) (auto simp: name_matcher_def split: match_op.splits)
  then have n: "effective_metric_name ?sel = effective_metric_name sel"
    unfolding effective_metric_name_def ms by (simp only:)
  have c: "selector_conds ?sel = selector_conds sel"
    unfolding selector_conds_def n ms
    by (rule arg_cong [where f = "(@) _"], rule concat_map_filter) (auto simp: name_matcher_def)
  have f: "label_filters_for_selector ?sel = label_filters_for_selector sel"
    unfolding label_filters_for_selector_def ms filter_filter
    by (rule filter_cong) (auto simp: name_matcher_def)
  have "selector_rows db ?sel = selector_rows db sel" for db
    by (intro ext) (simp only: selector_rows_def window_join_def where_holds_def regex_passes_def c f)
  then show ?thesis by (simp only: run_selector_query_def)
qed

text \<open>
  A label matched against the empty string is not handled as documented: \<open>{k=""}\<close> should accept
  series without the label, and \<open>match_label\<close> does, but the SQL predicate is then \<open>NULL\<close>, so when no
  stored series has the label the query returns nothing.
\<close>

theorem empty_matcher_finds_nothing:
  assumes "m \<in> set (vsel_matchers sel)" "mt_op m = MEqual" "mt_value m = []" "mt_name m \<noteq> ''__name__''"
    "\<forall>s \<in> set (db_series (qe_db Q)). mt_name m \<notin> fst ` set (st_labels s)"
    "run_selector_query Q sel lo hi = Inr rows"
  shows "(\<forall>s \<in> set (db_series (qe_db Q)). match_label (st_labels s) m) \<and> rows = []"
proof
  have none: "map_of (st_labels s) (mt_name m) = None" if "s \<in> set (db_series (qe_db Q))" for s
    using assms(5) that by (simp add: map_of_eq_None_iff)
  then show "\<forall>s \<in> set (db_series (qe_db Q)). match_label (st_labels s) m"
    using assms(2,3) by (simp add: match_label_def)
  have "LabelIs (mt_name m) [] \<in> set (selector_conds sel)"
    using assms(1-4) by (force simp: selector_conds_def)
  then have "\<not> where_holds sel s" if "s \<in> set (db_series (qe_db Q))" for s
    using none [OF that] unfolding where_holds_def list_all_iff by force
  then have "window_join (qe_db Q) sel a b = []" for a b
    by (auto simp: window_join_def filter_empty_conv)
  then show "rows = []"
    using assms(6) by (auto simp: run_selector_query_def run_stmt_def selector_rows_def split: option.splits)
qed

text \<open>A series id picks one row of a table whose ids are distinct.\<close>

lemma filter_one_id:
  "distinct (map st_id xs) \<Longrightarrow> s \<in> set xs \<Longrightarrow>
     filter (\<lambda>x. st_id x = st_id s \<and> R x) xs = (if R s then [s] else [])"
proof (induction xs)
  case (Cons x xs)
  show ?case
  proof (cases "s = x")
    case True
    have "st_id x \<notin> st_id ` set xs" using Cons.prems(1) by simp
    then have "\<forall>y \<in> set xs. st_id y \<noteq> st_id x" by (metis imageI)
    then have "filter (\<lambda>y. st_id y = st_id s \<and> R y) xs = []"
      using True by (simp add: filter_empty_conv)
    with True show ?thesis by simp
  next
    case False
    then have "s \<in> set xs" "st_id x \<noteq> st_id s" using Cons.prems by auto
    with Cons show ?thesis by simp
  qed
qed simp

section \<open>One point per series, the latest\<close>

abbreviation "row_key r \<equiv> series_key (row_metric r) (row_labels r)"

definition point_of_row :: "selector_row \<Rightarrow> instant_point" where
  "point_of_row r = \<lparr>ip_metric = row_metric r, ip_labels = row_labels r, ip_ts = row_ts r, ip_value = row_value r\<rparr>"

definition latest_of :: "selector_row list \<Rightarrow> (string, selector_row) btree" where
  "latest_of rows = foldl (\<lambda>m r. latest_insert r m) [] rows"

lemma latest_of_snoc: "latest_of (rows @ [r]) = latest_insert r (latest_of rows)"
  by (simp add: latest_of_def)

lemma latest_of_wf: "bt_wf (latest_of rows)"
proof (induction rows rule: rev_induct)
  case Nil
  then show ?case by (simp add: latest_of_def)
next
  case (snoc r rows)
  then show ?case
    by (auto simp: latest_of_snoc latest_insert_def Let_def bt_wf_insert split: option.splits)
qed

lemma latest_of_lookup:
  "(map_of (latest_of rows) k = None \<longleftrightarrow> k \<notin> row_key ` set rows) \<and>
   (\<forall>r. map_of (latest_of rows) k = Some r \<longrightarrow>
      r \<in> set rows \<and> row_key r = k \<and> (\<forall>r' \<in> set rows. row_key r' = k \<longrightarrow> row_ts r' \<le> row_ts r))"
proof (induction rows rule: rev_induct)
  case Nil
  then show ?case by (simp add: latest_of_def)
next
  case (snoc x rows)
  show ?case
  proof (cases "row_key x = k")
    case False
    then have "map_of (latest_of (rows @ [x])) k = map_of (latest_of rows) k"
      by (auto simp: latest_of_snoc latest_insert_def Let_def map_of_bt_insert latest_of_wf split: option.splits)
    with snoc False show ?thesis by auto
  next
    case True
    then show ?thesis
      using snoc
      by (cases "map_of (latest_of rows) k")
        (auto simp: latest_of_snoc latest_insert_def Let_def map_of_bt_insert latest_of_wf image_iff)
  qed
qed

lemma instant_selector_rows:
  assumes "instant_selector Q sel t = Inr pts"
  obtains rows where "run_selector_query Q sel (i64_wrap (t - lookback_us)) t = Inr rows"
    "pts = map (point_of_row \<circ> snd) (latest_of rows)"
  using assms
  by (auto simp: instant_selector_def latest_of_def point_of_row_def comp_def case_prod_unfold split: sum.splits)

text \<open>
  (C30) An instant query answers one point for each series that has a sample in the five minutes up to
  its time, by series key; the point is a sample of that series and none in the window is later.
\<close>

theorem instant_selector_latest:
  assumes "instant_selector Q sel t = Inr pts"
  shows "\<exists>rows. run_selector_query Q sel (i64_wrap (t - lookback_us)) t = Inr rows \<and>
    map (\<lambda>p. series_key (ip_metric p) (ip_labels p)) pts = sorted_list_of_set (row_key ` set rows) \<and>
    (\<forall>p \<in> set pts. \<exists>r \<in> set rows. p = point_of_row r \<and>
       (\<forall>r' \<in> set rows. row_key r' = row_key r \<longrightarrow> row_ts r' \<le> row_ts r))"
proof -
  from assms obtain rows where r: "run_selector_query Q sel (i64_wrap (t - lookback_us)) t = Inr rows"
    and p: "pts = map (point_of_row \<circ> snd) (latest_of rows)" by (rule instant_selector_rows)
  have mem: "x \<in> set rows \<and> row_key x = k \<and> (\<forall>r' \<in> set rows. row_key r' = k \<longrightarrow> row_ts r' \<le> row_ts x)"
    if "(k, x) \<in> set (latest_of rows)" for k x
    using that latest_of_lookup [of rows k] by (simp add: bt_wf_mem [OF latest_of_wf])
  have "map (\<lambda>p. series_key (ip_metric p) (ip_labels p)) pts = map fst (latest_of rows)"
    unfolding p map_map by (rule map_cong) (auto simp: point_of_row_def dest: mem)
  also have "\<dots> = sorted_list_of_set (row_key ` set rows)"
  proof (rule sorted_distinct_set_unique)
    show "set (map fst (latest_of rows)) = set (sorted_list_of_set (row_key ` set rows))"
    proof (rule set_eqI)
      fix k
      have "k \<in> set (map fst (latest_of rows)) \<longleftrightarrow> map_of (latest_of rows) k \<noteq> None"
        by (simp add: map_of_eq_None_iff)
      then show "k \<in> set (map fst (latest_of rows)) \<longleftrightarrow> k \<in> set (sorted_list_of_set (row_key ` set rows))"
        using latest_of_lookup [of rows k] by simp
    qed
  qed (use latest_of_wf [of rows] in \<open>simp_all add: bt_wf_def strict_sorted_iff\<close>)
  finally show ?thesis using r mem unfolding p by fastforce
qed

lemma mset_concat_cong:
  assumes "mset xs = mset ys" "\<And>x. mset (f x) = mset (g x)"
  shows "mset (concat (map f xs)) = mset (concat (map g ys))"
proof -
  have "mset (concat (map f xs)) = \<Sum>\<^sub># (image_mset (\<lambda>x. mset (f x)) (mset xs))"
    by (simp add: mset_concat sum_mset_sum_list [symmetric] comp_def)
  also have "\<dots> = \<Sum>\<^sub># (image_mset (\<lambda>x. mset (g x)) (mset ys))" by (simp add: assms)
  also have "\<dots> = mset (concat (map g ys))" by (simp add: mset_concat sum_mset_sum_list [symmetric] comp_def)
  finally show ?thesis .
qed

section \<open>Range vectors\<close>

definition series_of_rows :: "selector_row list \<Rightarrow> string \<times> labels \<times> (int \<times> f64) list" where
  "series_of_rows rs = (row_metric (hd rs), row_labels (hd rs), map (\<lambda>r. (row_ts r, row_value r)) rs)"

lemma group_rows_eq:
  "group_rows_by_series rows = map (\<lambda>(k, rs). (k, series_of_rows rs)) (bt_group (\<lambda>r. row_key r) (\<lambda>r. r) rows)"
proof -
  have "bt_wf (group_rows_by_series rows) \<and>
    map_of (group_rows_by_series rows) k = map_option series_of_rows (map_of (bt_group (\<lambda>r. row_key r) (\<lambda>r. r) rows) k)" for k
  proof (induction rows arbitrary: k rule: rev_induct)
    case Nil
    then show ?case by (simp add: group_rows_by_series_def bt_group_def)
  next
    case (snoc x rows)
    have step: "group_rows_by_series (rows @ [x]) = group_row x (group_rows_by_series rows)"
      by (simp add: group_rows_by_series_def)
    have "filter (\<lambda>r. row_key r = row_key x) rows = [] \<or>
      hd (filter (\<lambda>r. row_key r = row_key x) rows @ [x]) = hd (filter (\<lambda>r. row_key r = row_key x) rows)"
      by (cases "filter (\<lambda>r. row_key r = row_key x) rows") auto
    then show ?case
      using snoc [of k] snoc [of "row_key x"]
      by (auto simp: step group_row_def bt_wf_upd map_of_bt_upd bt_group_lookup Let_def series_of_rows_def)
  qed
  then show ?thesis
    by (intro bt_ext) (auto simp: bt_wf_map_snd bt_wf_group fun_eq_iff map_of_bt_map_snd)
qed

definition rows_of_series :: "range_points \<Rightarrow> selector_row list" where
  "rows_of_series s = map (\<lambda>(ts, v). \<lparr>row_metric = rp_metric s, row_labels = rp_labels s, row_ts = ts, row_value = v\<rparr>) (rp_points s)"

definition keys_identify :: "selector_row list \<Rightarrow> bool" where
  "keys_identify rows \<longleftrightarrow> (\<forall>r \<in> set rows. \<forall>r' \<in> set rows. row_key r = row_key r' \<longrightarrow>
     row_metric r = row_metric r' \<and> row_labels r = row_labels r')"

lemma sorted_by_time:
  assumes "sorted (map (\<lambda>r. (row_metric r, row_ts r)) rs)" "\<forall>r \<in> set rs. row_metric r = m"
  shows "sorted (map row_ts rs)"
  using assms by (induction rs) (auto simp: less_eq_prod_def)

abbreviation "rows_by_key rows \<equiv> bt_group (\<lambda>r. row_key r) (\<lambda>r. r) rows"

definition regrouped :: "selector_row list \<Rightarrow> range_points" where
  "regrouped rs = \<lparr>rp_metric = row_metric (hd rs), rp_labels = row_labels (hd rs),
     rp_points = map (\<lambda>r. (row_ts r, row_value r)) rs\<rparr>"

lemma range_selector_groups:
  assumes "range_selector Q sel lo hi = Inr out" "run_selector_query Q sel lo hi = Inr rows"
  shows "out = map (\<lambda>g. regrouped (snd g)) (rows_by_key rows)"
  using assms by (auto simp: range_selector_def group_rows_eq series_of_rows_def regrouped_def case_prod_unfold)

lemma rows_by_key_mem:
  assumes "(k, rs) \<in> set (rows_by_key rows)"
  shows "rs = filter (\<lambda>r. row_key r = k) rows" and "row_key (hd rs) = k"
    and "keys_identify rows \<Longrightarrow> r \<in> set rs \<Longrightarrow> row_metric r = row_metric (hd rs) \<and> row_labels r = row_labels (hd rs)"
proof -
  show rs: "rs = filter (\<lambda>r. row_key r = k) rows" using assms by (simp add: bt_group_mem)
  have "hd rs \<in> set rs" using bt_group_nonempty [OF assms] by simp
  then have h: "hd rs \<in> set rows" "row_key (hd rs) = k" using rs by auto
  then show "row_key (hd rs) = k" by simp
  show "row_metric r = row_metric (hd rs) \<and> row_labels r = row_labels (hd rs)"
    if "keys_identify rows" "r \<in> set rs"
    using that(2) h rs that(1) [unfolded keys_identify_def] by auto
qed

lemma rows_of_regrouped:
  assumes "\<forall>r \<in> set rs. row_metric r = row_metric (hd rs) \<and> row_labels r = row_labels (hd rs)"
  shows "rows_of_series (regrouped rs) = rs"
proof -
  have "rows_of_series (regrouped rs) = map (\<lambda>r. \<lparr>row_metric = row_metric (hd rs), row_labels = row_labels (hd rs),
      row_ts = row_ts r, row_value = row_value r\<rparr>) rs"
    by (simp add: rows_of_series_def regrouped_def comp_def)
  also have "\<dots> = rs" by (rule map_idI) (use assms in simp)
  finally show ?thesis .
qed

lemma regrouped_rows:
  assumes "keys_identify rows"
  shows "mset (concat (map rows_of_series (map (\<lambda>g. regrouped (snd g)) (rows_by_key rows)))) = mset rows"
proof -
  have "map rows_of_series (map (\<lambda>g. regrouped (snd g)) (rows_by_key rows)) = map snd (rows_by_key rows)"
    unfolding map_map by (rule map_cong) (auto intro!: rows_of_regrouped dest: rows_by_key_mem(3) [OF _ assms])
  then show ?thesis using bt_group_partition [of "\<lambda>r. row_key r" "\<lambda>r. r" rows] by (simp only: list.map_ident)
qed

lemma regrouped_distinct: "series_distinct (map (\<lambda>g. regrouped (snd g)) (rows_by_key rows))"
proof -
  have "map (\<lambda>s. series_key (rp_metric s) (rp_labels s)) (map (\<lambda>g. regrouped (snd g)) (rows_by_key rows)) = map fst (rows_by_key rows)"
    unfolding map_map by (rule map_cong) (auto simp: regrouped_def dest: rows_by_key_mem(2))
  then show ?thesis
    using bt_wf_distinct [OF bt_wf_group, of "\<lambda>r. row_key r" "\<lambda>r. r" rows] by (simp only: series_distinct_def)
qed

lemma regrouped_sorted:
  assumes "run_selector_query Q sel lo hi = Inr rows" "keys_identify rows" "(k, rs) \<in> set (rows_by_key rows)"
  shows "sorted (map fst (rp_points (regrouped rs)))"
proof -
  have "sorted (map (\<lambda>r. (row_metric r, row_ts r)) rows)"
    using assms(1) selector_rows_sorted by (auto simp: run_selector_query_def run_stmt_def split: option.splits)
  then have "sorted (map (\<lambda>r. (row_metric r, row_ts r)) rs)"
    using rows_by_key_mem(1) [OF assms(3)] by (auto intro: sorted_filter)
  moreover have "\<forall>r \<in> set rs. row_metric r = row_metric (hd rs)" using rows_by_key_mem(3) [OF assms(3,2)] by blast
  ultimately show ?thesis using sorted_by_time by (simp add: regrouped_def comp_def)
qed

text \<open>
  A range query over a selector regroups the rows it read and nothing else: every row is in the
  output exactly once, under its own metric and labels, one series per key, points in time order, as
  long as the key tells the series apart.
\<close>

theorem range_selector_regroups:
  assumes "range_selector Q sel lo hi = Inr out" "run_selector_query Q sel lo hi = Inr rows" "keys_identify rows"
  shows "mset (concat (map rows_of_series out)) = mset rows \<and> series_distinct out \<and>
    (\<forall>s \<in> set out. sorted (map fst (rp_points s)))"
proof (intro conjI)
  note out = range_selector_groups [OF assms(1,2)]
  show "mset (concat (map rows_of_series out)) = mset rows"
    unfolding out by (rule regrouped_rows [OF assms(3)])
  show "series_distinct out" unfolding out by (rule regrouped_distinct)
  show "\<forall>s \<in> set out. sorted (map fst (rp_points s))"
    unfolding out by (auto intro: regrouped_sorted [OF assms(2,3)])
qed

section \<open>The series endpoint\<close>

text \<open>
  \<open>/api/v1/series\<close> applies the metric name and the regular expressions of a \<open>match[]\<close> selector, but
  never its \<open>=\<close> and \<open>!=\<close> label matchers: two selectors of one metric that differ only in those get the
  same answer.
\<close>

theorem series_ignores_equality:
  assumes "pe_parse (qe_prom Q) q = Inr (EVector sel)" "pe_parse (qe_prom Q) q' = Inr (EVector sel')"
    "effective_metric_name sel = effective_metric_name sel'"
    "label_filters_for_selector sel = label_filters_for_selector sel'"
    "form qs = [(''match[]'', q)]" "form qs' = [(''match[]'', q')]"
  shows "series_endpoint Q form (Some qs) = series_endpoint Q form (Some qs')"
  using assms
  by (simp add: series_endpoint_def parse_series_matches_def series_candidates_def regex_passes_def
      run_meta_def split: option.splits)

text \<open>
  Series keys are not injective: a comma in a label value makes two different series share the
  key that the range evaluators group by and the series endpoint removes duplicates by.
\<close>

theorem series_key_collision:
  "series_key m [(a, x @ '','' @ b @ ''='' @ y)] = series_key m [(a, x), (b, y)]"
  by (simp add: series_key_def)

section \<open>Witnesses\<close>

definition demo_prom :: prom_env where
  "demo_prom =
     \<lparr>pe_rfc3339 = (\<lambda>_. None), pe_micros_ok = (\<lambda>_. True), pe_ts_text = (\<lambda>us. replicate (nat us) CHR ''t''),
      pe_read_ts = (\<lambda>s. Some (int (length s))), pe_f64_text = (\<lambda>_. []), pe_powf = (\<lambda>_ _. NaN),
      pe_parse = (\<lambda>s. Inr (EVector \<lparr>vsel_name = Some ''up'',
         vsel_matchers = [\<lparr>mt_op = MEqual, mt_name = ''job'', mt_value = s\<rparr>]\<rparr>)), pe_now = 0\<rparr>"

definition demo_db :: database where
  "demo_db =
     \<lparr>db_series = [\<lparr>st_id = 1, st_metric = ''up'', st_labels = [(''job'', ''a'')]\<rparr>,
                   \<lparr>st_id = 2, st_metric = ''up'', st_labels = [(''job'', ''b'')]\<rparr>],
      db_samples = [(1, 10, Num 1), (1, 20, Num 2), (2, 20, Num 5)]\<rparr>"

definition demo_env :: query_env where
  "demo_env = \<lparr>qe_prom = demo_prom, qe_db = demo_db, qe_fault = (\<lambda>_. None), qe_agg = apply_agg,
     qe_cmp = (\<lambda>op a b. comparison_passes a b op), qe_le = f64_le, qe_try_cast = f64_of_string\<rparr>"

definition demo_selector :: vector_selector where
  "demo_selector = \<lparr>vsel_name = Some ''up'', vsel_matchers = [\<lparr>mt_op = MNotEqual, mt_name = ''job'', mt_value = ''b''\<rparr>]\<rparr>"

lemma demo_reads_back: "0 \<le> us \<Longrightarrow> reads_back demo_env us"
  by (simp add: reads_back_def demo_env_def demo_prom_def us_to_ts_lit_def)

lemma demo_run_stmt: "0 \<le> lo \<Longrightarrow> 0 \<le> hi \<Longrightarrow> run_stmt demo_env tag lo hi f = Inr (f lo hi)"
  by (simp add: run_stmt_def demo_env_def demo_prom_def us_to_ts_lit_def)

lemma demo_db_wf: "db_wf (qe_db demo_env)"
  by (simp add: db_wf_def demo_env_def demo_db_def bt_wf_def)

lemma demo_selector_ok: "matchers_handled demo_selector"
  by (simp add: matchers_handled_def demo_selector_def)

lemma demo_selector_rows:
  "run_selector_query demo_env demo_selector 0 20 =
     Inr [\<lparr>row_metric = ''up'', row_labels = [(''job'', ''a'')], row_ts = 10, row_value = Num 1\<rparr>,
          \<lparr>row_metric = ''up'', row_labels = [(''job'', ''a'')], row_ts = 20, row_value = Num 2\<rparr>]"
  unfolding run_selector_query_def by (simp add: demo_run_stmt) code_simp

theorem selector_returns_matching_witness:
  "\<exists>rows. run_selector_query demo_env demo_selector 0 20 = Inr rows \<and> length rows = 2 \<and>
     mset rows = mset (matching_rows (qe_db demo_env) demo_selector 0 20) \<and>
     sorted (map (\<lambda>r. (row_metric r, row_ts r)) rows)"
  using selector_returns_matching [OF demo_selector_rows demo_reads_back demo_reads_back demo_db_wf demo_selector_ok]
    demo_selector_rows by simp

theorem empty_matcher_finds_nothing_witness:
  "\<exists>rows. run_selector_query demo_env
     \<lparr>vsel_name = None, vsel_matchers = [\<lparr>mt_op = MEqual, mt_name = ''env'', mt_value = []\<rparr>]\<rparr> 0 20 = Inr rows \<and> rows = []"
proof -
  let ?m = "\<lparr>mt_op = MEqual, mt_name = ''env'', mt_value = []\<rparr>"
  let ?sel = "\<lparr>vsel_name = None, vsel_matchers = [?m]\<rparr>"
  have "run_selector_query demo_env ?sel 0 20 = Inr (selector_rows (qe_db demo_env) ?sel 0 20)"
    by (simp add: run_selector_query_def demo_run_stmt)
  moreover have "\<forall>s \<in> set (db_series (qe_db demo_env)). mt_name ?m \<notin> fst ` set (st_labels s)"
    by (simp add: demo_env_def demo_db_def)
  ultimately show ?thesis
    using empty_matcher_finds_nothing [of ?m ?sel demo_env 0 20] by simp
qed

theorem instant_selector_latest_witness:
  "\<exists>rows. run_selector_query demo_env demo_selector (i64_wrap (lookback_us - lookback_us)) lookback_us = Inr rows \<and>
    map (\<lambda>p. series_key (ip_metric p) (ip_labels p))
      [\<lparr>ip_metric = ''up'', ip_labels = [(''job'', ''a'')], ip_ts = 20, ip_value = Num 2\<rparr>] =
      sorted_list_of_set (row_key ` set rows)"
proof -
  have "run_selector_query demo_env demo_selector (i64_wrap (lookback_us - lookback_us)) lookback_us =
     Inr [\<lparr>row_metric = ''up'', row_labels = [(''job'', ''a'')], row_ts = 10, row_value = Num 1\<rparr>,
          \<lparr>row_metric = ''up'', row_labels = [(''job'', ''a'')], row_ts = 20, row_value = Num 2\<rparr>]"
    unfolding run_selector_query_def by (subst demo_run_stmt) (simp_all add: lookback_us_def i64_wrap_def, code_simp)
  then have "instant_selector demo_env demo_selector lookback_us =
      Inr [\<lparr>ip_metric = ''up'', ip_labels = [(''job'', ''a'')], ip_ts = 20, ip_value = Num 2\<rparr>]"
    by (simp add: instant_selector_def latest_insert_def bt_insert_def)
  from instant_selector_latest [OF this] show ?thesis by blast
qed

theorem range_selector_regroups_witness:
  "\<exists>out rows. range_selector demo_env demo_selector 0 20 = Inr out \<and>
     run_selector_query demo_env demo_selector 0 20 = Inr rows \<and> length rows = 2 \<and>
     mset (concat (map rows_of_series out)) = mset rows \<and> series_distinct out"
proof -
  have "range_selector demo_env demo_selector 0 20 =
      Inr [\<lparr>rp_metric = ''up'', rp_labels = [(''job'', ''a'')], rp_points = [(10, Num 1), (20, Num 2)]\<rparr>]"
    by (simp add: range_selector_def demo_selector_rows group_rows_by_series_def group_row_def)
  from range_selector_regroups [OF this demo_selector_rows] this show ?thesis
    by (simp add: demo_selector_rows keys_identify_def)
qed

theorem series_ignores_equality_witness:
  "series_endpoint demo_env (\<lambda>s. [(''match[]'', s)]) (Some ''a'') = series_endpoint demo_env (\<lambda>s. [(''match[]'', s)]) (Some ''nope'')"
  by (rule series_ignores_equality [of _ "''a''"
        "\<lparr>vsel_name = Some ''up'', vsel_matchers = [\<lparr>mt_op = MEqual, mt_name = ''job'', mt_value = ''a''\<rparr>]\<rparr>" "''nope''"
        "\<lparr>vsel_name = Some ''up'', vsel_matchers = [\<lparr>mt_op = MEqual, mt_name = ''job'', mt_value = ''nope''\<rparr>]\<rparr>"])
    (simp_all add: demo_env_def demo_prom_def effective_metric_name_def label_filters_for_selector_def)

end
