(* ===== verification/Write_Read.thy ===== *)
theory Write_Read
  imports Durability Selector_Props
begin

text \<open>
  The write path and the read path together: what the flusher commits
  (\<open>src/src/ingest/flush.rs\<close>) is what the selector statement (\<open>src/src/prometheus.rs\<close>) reads, so a
  sample that was acknowledged and flushed is answered by the queries that select it.
\<close>

section \<open>The warehouse as the tables of a query\<close>

definition database_of :: "warehouse \<Rightarrow> database" where
  "database_of wh =
     \<lparr>db_series = map (\<lambda>(sid, metric, lbls). \<lparr>st_id = sid, st_metric = metric, st_labels = lbls\<rparr>) (warehouse_series wh),
      db_samples = concat (map (batch_rows \<circ> snd) (wh_samples wh))\<rparr>"

lemma mset_db_samples: "mset (db_samples (database_of wh)) = warehouse_rows wh"
  by (simp add: database_of_def warehouse_rows_def)

text \<open>
  While the process lives the series table has one row per series id, with the metric and the labels
  \<open>D\<close> the id stands for, and the buffer knows exactly those ids.
\<close>

definition store_inv :: "externals \<Rightarrow> (int \<Rightarrow> string \<times> labels) \<Rightarrow> service \<Rightarrow> bool" where
  "store_inv X D st \<longleftrightarrow>
     buffer_inv X (sv_buffer st) \<and>
     (\<forall>r \<in> set (warehouse_series (sv_tables st)). D (fst r) = snd r) \<and>
     distinct (map fst (warehouse_series (sv_tables st))) \<and>
     bf_known (sv_buffer st) = fst ` set (warehouse_series (sv_tables st)) \<and>
     fst ` set_mset (warehouse_rows (sv_tables st)) \<subseteq> bf_known (sv_buffer st) \<and>
     (\<forall>p \<in> set (bf_new_series (sv_buffer st)). D (fst p) = (nse_metric (snd p), nse_labels (snd p)))"

definition described :: "(int \<Rightarrow> string \<times> labels) \<Rightarrow> validated_sample \<Rightarrow> bool" where
  "described D s \<longleftrightarrow> D (vs_series_id s) = (vs_metric s, vs_labels s)"

lemma insert_one_series:
  assumes "described D s" "bt_wf (bf_new_series b)"
    "\<forall>p \<in> set (bf_new_series b). D (fst p) = (nse_metric (snd p), nse_labels (snd p))"
  shows "\<forall>p \<in> set (bf_new_series (insert_one X s b)). D (fst p) = (nse_metric (snd p), nse_labels (snd p))"
  using assms ball_bt_upd [of "bf_new_series b" "\<lambda>k e. D k = (nse_metric e, nse_labels e)" "vs_series_id s"
      "\<lambda>_. \<lparr>nse_series_id = vs_series_id s, nse_metric = vs_metric s, nse_labels = vs_labels s\<rparr>"]
  by (simp add: insert_one_def Let_def bt_insert_def described_def)

lemma store_inv_insert:
  assumes "store_inv X D st" "\<forall>s \<in> set ss. described D s"
    "sv_tables st' = sv_tables st" "sv_buffer st' = insert_batch X n ss (sv_buffer st)"
  shows "store_inv X D st'"
proof -
  let ?ok = "\<lambda>b. \<forall>p \<in> set (bf_new_series b). D (fst p) = (nse_metric (snd p), nse_labels (snd p))"
  have "buffer_inv X b \<Longrightarrow> ?ok b \<Longrightarrow> ?ok (fold (insert_one X) ss b)" for b
    using assms(2)
  proof (induction ss arbitrary: b)
    case (Cons s ss)
    have "bt_wf (bf_new_series b)" using Cons.prems(1) by (simp add: buffer_inv_def registry_wf_def)
    then have "?ok (insert_one X s b)" using Cons.prems by (intro insert_one_series) simp_all
    then show ?case using Cons.IH [of "insert_one X s b"] Cons.prems buffer_inv_insert_one [of X b s] by simp
  qed simp
  from this [of "if bf_max_seq (sv_buffer st) < n then (sv_buffer st)\<lparr>bf_max_seq := n\<rparr> else sv_buffer st"]
  have "?ok (insert_batch X n ss (sv_buffer st))"
    using assms(1) by (simp add: insert_batch_def store_inv_def)
  then show ?thesis using assms(1) unfolding store_inv_def assms(3,4) by auto
qed

lemma store_inv_flush:
  assumes "store_inv X D st" "flush_once io st = (Inr b, st')"
  shows "store_inv X D st'"
proof (cases rule: flush_once_cases [where st = st and io = io])
  case acked
  let ?sn = "fst (take_snapshot (sv_buffer st))"
  let ?new = "bf_new_series (sv_buffer st)"
  have tables: "sv_tables st' = snd (flush io ?sn (sv_tables st))"
    and buf: "sv_buffer st' = snd (take_snapshot (sv_buffer st))"
    using acked(4) assms(2) by auto
  have bi: "buffer_inv X (sv_buffer st)" using assms(1) by (simp add: store_inv_def)
  have rows: "warehouse_rows (sv_tables st') = warehouse_rows (sv_tables st) + buffer_rows (sv_buffer st)"
    using acked(2) unfolding tables flush_rows by (auto simp: samples_acked_def buffer_rows_def)
  have ser: "warehouse_series (sv_tables st') = warehouse_series (sv_tables st) @ registered ?new"
    using acked(2,3) unfolding tables flush_series_rows by (auto simp: series_acked_def registered_def)
  have reg: "map fst (registered ?new) = map fst ?new"
    by (simp add: registered_def comp_def case_prod_unfold)
  have ids: "fst ` set ?new = fst ` set_mset (buffer_rows (sv_buffer st)) - bf_known (sv_buffer st)"
    "distinct (map fst ?new)"
    using bi by (simp_all add: buffer_inv_def registry_wf_def bt_wf_distinct)
  have known: "bf_known (sv_buffer st') = bf_known (sv_buffer st) \<union> fst ` set ?new" by (simp add: buf)
  have "distinct (map fst (warehouse_series (sv_tables st')))"
    using assms(1) ids unfolding ser map_append reg store_inv_def by (auto simp: distinct_append)
  moreover have "\<forall>r \<in> set (warehouse_series (sv_tables st')). D (fst r) = snd r"
    using assms(1) unfolding ser store_inv_def by (auto simp: registered_def)
  moreover have "bf_known (sv_buffer st') = fst ` set (warehouse_series (sv_tables st'))"
    using assms(1) unfolding ser known set_append image_Un fst_registered store_inv_def by simp
  moreover have "fst ` set_mset (warehouse_rows (sv_tables st')) \<subseteq> bf_known (sv_buffer st')"
    using assms(1) ids(1) unfolding known rows store_inv_def by auto
  ultimately show ?thesis
    using buffer_inv_take [of X "sv_buffer st"] by (simp add: store_inv_def) (simp add: buf take_snapshot_def)
qed (use assms in auto)

lemma store_inv_step:
  assumes "live_step X p st = (r, st')" "store_inv X D st"
    "flush_error_free (case r of Inl e \<Rightarrow> [e] | Inr _ \<Rightarrow> [])"
    "\<forall>s \<in> set (case r of Inl _ \<Rightarrow> [] | Inr ss \<Rightarrow> ss). described D s"
  shows "store_inv X D st'"
proof (cases p)
  case (Ingest io ss)
  obtain q t where a: "append_validated X io ss st = (q, t)" by (cases "append_validated X io ss st")
  show ?thesis
  proof (cases q)
    case (Inl e)
    then show ?thesis
      using assms(1,2) a Ingest append_validated_error [of X io ss st e t] by (auto simp: store_inv_def)
  next
    case (Inr n)
    then have "sv_tables t = sv_tables st" "sv_buffer t = insert_batch X n ss (sv_buffer st)"
      using a append_wal_frame [of X io ss st] by (auto simp: append_validated_def split: prod.splits sum.splits)
    with Inr show ?thesis using assms a Ingest by (auto intro: store_inv_insert)
  qed
next
  case (Flush io)
  obtain q t where f: "flush_once io st = (q, t)" by (cases "flush_once io st")
  show ?thesis
  proof (cases q)
    case (Inl e)
    then have "\<exists>e'. e = FlushFailed e'"
      using f by (cases rule: flush_once_cases [where st = st and io = io]) auto
    then show ?thesis using assms(1,3) Flush f Inl by (auto simp: flush_error_free_def)
  next
    case (Inr b)
    then show ?thesis using assms(1,2) Flush f by (auto intro: store_inv_flush)
  qed
qed

lemma store_inv_run:
  "live_run X ps st = (acked, errs, st') \<Longrightarrow> store_inv X D st \<Longrightarrow> flush_error_free errs \<Longrightarrow>
     \<forall>s \<in> set acked. described D s \<Longrightarrow> store_inv X D st'"
proof (induction ps arbitrary: st acked errs)
  case (Cons p ps)
  obtain r t where s: "live_step X p st = (r, t)" by (cases "live_step X p st")
  obtain ok es u where run: "live_run X ps t = (ok, es, u)" by (cases "live_run X ps t") auto
  have acked: "acked = (case r of Inl _ \<Rightarrow> [] | Inr ss \<Rightarrow> ss) @ ok"
    and errs: "errs = (case r of Inl e \<Rightarrow> [e] | Inr _ \<Rightarrow> []) @ es" and u: "st' = u"
    using Cons.prems(1) by (auto simp: s run split: sum.splits)
  have "store_inv X D t"
    using Cons.prems(2-4) by (intro store_inv_step [OF s]) (auto simp: acked errs flush_error_free_def)
  then show ?case
    using Cons.IH [of t ok es] run Cons.prems(3,4) by (simp add: acked errs u flush_error_free_def)
qed simp

section \<open>Queries over the committed tables\<close>

definition row_answer :: "(int \<Rightarrow> string \<times> labels) \<Rightarrow> row \<Rightarrow> selector_row" where
  "row_answer D r = \<lparr>row_metric = fst (D (fst r)), row_labels = snd (D (fst r)),
     row_ts = fst (snd r), row_value = snd (snd r)\<rparr>"

definition row_selected :: "(int \<Rightarrow> string \<times> labels) \<Rightarrow> vector_selector \<Rightarrow> int \<Rightarrow> int \<Rightarrow> row \<Rightarrow> bool" where
  "row_selected D sel lo hi r \<longleftrightarrow>
     selects sel (fst (D (fst r))) (snd (D (fst r))) \<and> lo \<le> fst (snd r) \<and> fst (snd r) \<le> hi"

lemma matching_rows_warehouse:
  assumes "store_inv X D st"
  shows "mset (matching_rows (database_of (sv_tables st)) sel lo hi) =
    image_mset (row_answer D) (filter_mset (row_selected D sel lo hi) (warehouse_rows (sv_tables st)))"
proof -
  let ?db = "database_of (sv_tables st)"
  have ids: "distinct (map st_id (db_series ?db))"
    using assms by (simp add: store_inv_def database_of_def comp_def case_prod_unfold)
  have row: "map (\<lambda>s. \<lparr>row_metric = st_metric s, row_labels = st_labels s, row_ts = ts, row_value = v\<rparr>)
      (filter (\<lambda>s. st_id s = sid \<and> selects sel (st_metric s) (st_labels s) \<and> lo \<le> ts \<and> ts \<le> hi) (db_series ?db)) =
    map (row_answer D) (filter (row_selected D sel lo hi) [(sid, ts, v)])"
    if "(sid, ts, v) \<in> set (db_samples ?db)" for sid ts v
  proof -
    have "(sid, ts, v) \<in># warehouse_rows (sv_tables st)"
      using that mset_db_samples [of "sv_tables st"] by (metis set_mset_mset)
    then have "sid \<in> fst ` set (warehouse_series (sv_tables st))"
      using assms unfolding store_inv_def by force
    then obtain m ls where m: "(sid, m, ls) \<in> set (warehouse_series (sv_tables st))" by force
    let ?s = "\<lparr>st_id = sid, st_metric = m, st_labels = ls\<rparr>"
    have "D (fst (sid, m, ls)) = snd (sid, m, ls)" using assms m unfolding store_inv_def by blast
    moreover have "?s \<in> set (db_series ?db)" using m by (force simp: database_of_def)
    ultimately show ?thesis
      using filter_one_id [OF ids, of ?s "\<lambda>s. selects sel (st_metric s) (st_labels s) \<and> lo \<le> ts \<and> ts \<le> hi"]
      by (simp add: row_answer_def row_selected_def)
  qed
  have "concat (map (\<lambda>r. map f (filter P [r])) xs) = map f (filter P xs)" for f :: "row \<Rightarrow> selector_row" and P xs
    by (induction xs) auto
  moreover have "matching_rows ?db sel lo hi =
      concat (map (\<lambda>r. map (row_answer D) (filter (row_selected D sel lo hi) [r])) (db_samples ?db))"
    unfolding matching_rows_def
  proof (intro arg_cong [where f = concat] map_cong refl)
    fix r assume mem: "r \<in> set (db_samples ?db)"
    obtain sid ts v where r: "r = (sid, ts, v)" by (cases r)
    show "(case r of (sid, ts, v) \<Rightarrow>
        map (\<lambda>s. \<lparr>row_metric = st_metric s, row_labels = st_labels s, row_ts = ts, row_value = v\<rparr>)
          (filter (\<lambda>s. st_id s = sid \<and> selects sel (st_metric s) (st_labels s) \<and> lo \<le> ts \<and> ts \<le> hi) (db_series ?db))) =
      map (row_answer D) (filter (row_selected D sel lo hi) [r])"
      using row mem unfolding r prod.case by blast
  qed
  ultimately show ?thesis by (simp add: mset_db_samples)
qed

text \<open>Acknowledged samples: an id stands for one metric and one set of labels, in key order.\<close>

definition ids_consistent :: "validated_sample list \<Rightarrow> bool" where
  "ids_consistent ss \<longleftrightarrow>
     (\<forall>s \<in> set ss. bt_wf (vs_labels s) \<and>
        (\<forall>t \<in> set ss. vs_series_id t = vs_series_id s \<longrightarrow> vs_metric t = vs_metric s \<and> vs_labels t = vs_labels s))"

definition meaning :: "validated_sample list \<Rightarrow> int \<Rightarrow> string \<times> labels" where
  "meaning ss sid =
     (case find (\<lambda>s. vs_series_id s = sid) ss of Some s \<Rightarrow> (vs_metric s, vs_labels s) | None \<Rightarrow> ([], []))"

lemma find_some: "find P xs = Some x \<Longrightarrow> x \<in> set xs \<and> P x"
  by (induction xs) (auto split: if_splits)

lemma consistentD:
  assumes "ids_consistent ss" "s \<in> set ss"
  shows "bt_wf (vs_labels s)"
    and "t \<in> set ss \<Longrightarrow> vs_series_id t = vs_series_id s \<Longrightarrow> (vs_metric t, vs_labels t) = (vs_metric s, vs_labels s)"
  using assms unfolding ids_consistent_def by blast+

lemma meaning_described:
  assumes "ids_consistent ss" "s \<in> set ss"
  shows "described (meaning ss) s"
proof (cases "find (\<lambda>t. vs_series_id t = vs_series_id s) ss")
  case None
  then show ?thesis using assms(2) unfolding find_None_iff by blast
next
  case (Some t)
  from find_some [OF this] have "t \<in> set ss" "vs_series_id t = vs_series_id s" by simp_all
  from consistentD(2) [OF assms this] Some show ?thesis by (simp add: described_def meaning_def)
qed

lemma meaning_wf:
  assumes "ids_consistent ss"
  shows "bt_wf (snd (meaning ss sid))"
proof (cases "find (\<lambda>s. vs_series_id s = sid) ss")
  case None
  then show ?thesis by (simp add: meaning_def bt_wf_def)
next
  case (Some t)
  with find_some [OF this] show ?thesis using consistentD(1) [OF assms, of t] by (simp add: meaning_def)
qed

lemma store_inv_fresh:
  "app_open X cf ok q c \<lparr>wh_samples = [], wh_series = []\<rparr> [] = Inr st \<Longrightarrow> store_inv X D st"
proof -
  assume a: "app_open X cf ok q c \<lparr>wh_samples = [], wh_series = []\<rparr> [] = Inr st"
  from app_open_fresh [OF this] have f: "buffer_inv X (sv_buffer st)" "service_rows st = {#}"
    "warehouse_series (sv_tables st) = []" "bf_known (sv_buffer st) = {}" by auto
  then have "warehouse_rows (sv_tables st) = {#}" "buffer_rows (sv_buffer st) = {#}" by (simp_all add: service_rows_def)
  with f show ?thesis by (auto simp: store_inv_def buffer_inv_def)
qed

lemma answer_of_sample:
  assumes "described D s"
  shows "row_answer D (row_of s) = \<lparr>row_metric = vs_metric s, row_labels = vs_labels s, row_ts = vs_ts_us s, row_value = vs_value s\<rparr>"
    and "row_selected D sel lo hi (row_of s) \<longleftrightarrow>
      selects sel (vs_metric s) (vs_labels s) \<and> lo \<le> vs_ts_us s \<and> vs_ts_us s \<le> hi"
  using assms by (simp_all add: row_answer_def row_selected_def row_of_def described_def)

lemma acked_ids:
  assumes "app_open X cf ok q c \<lparr>wh_samples = [], wh_series = []\<rparr> [] = Inr st0"
    "live_run X ps st0 = (acked, errs, st)" "flush_error_free errs" "ids_consistent acked"
  shows "distinct (map st_id (db_series (database_of (sv_tables st))))"
proof -
  have "described (meaning acked) s" if "s \<in> set acked" for s using that by (rule meaning_described [OF assms(4)])
  then have "store_inv X (meaning acked) st"
    by (intro store_inv_run [OF assms(2) store_inv_fresh [OF assms(1)] assms(3)]) blast
  then have "distinct (map fst (warehouse_series (sv_tables st)))" by (simp add: store_inv_def)
  then show ?thesis by (simp add: database_of_def comp_def case_prod_unfold)
qed

text \<open>The tables after such a history, and what a selector reads in them.\<close>

lemma acked_selected:
  assumes "app_open X cf ok q c \<lparr>wh_samples = [], wh_series = []\<rparr> [] = Inr st0"
    "live_run X ps st0 = (acked, errs, st)" "flush_error_free errs" "is_empty (sv_buffer st)"
    "ids_consistent acked" "matchers_handled sel"
  shows "db_wf (database_of (sv_tables st))"
    and "mset (selector_rows (database_of (sv_tables st)) sel lo hi) =
      mset (map (\<lambda>s. \<lparr>row_metric = vs_metric s, row_labels = vs_labels s, row_ts = vs_ts_us s, row_value = vs_value s\<rparr>)
        (filter (\<lambda>s. selects sel (vs_metric s) (vs_labels s) \<and> lo \<le> vs_ts_us s \<and> vs_ts_us s \<le> hi) acked))"
proof -
  let ?D = "meaning acked" and ?db = "database_of (sv_tables st)"
  have d: "described ?D s" if "s \<in> set acked" for s using that by (rule meaning_described [OF assms(5)])
  have "buffer_inv X (sv_buffer st0)" "service_rows st0 = {#}" using app_open_fresh [OF assms(1)] by auto
  from live_run_rows [OF this(1) assms(2,3)] this(2)
  have all: "service_rows st = mset (map row_of acked)" and bi: "buffer_inv X (sv_buffer st)" by auto
  have "warehouse_rows (sv_tables st) = mset (map row_of acked)"
    using all assms(4) buffer_empty_iff [OF bi] by (simp add: service_rows_def)
  moreover have inv: "store_inv X ?D st"
    using d by (intro store_inv_run [OF assms(2) store_inv_fresh [OF assms(1)] assms(3)]) blast
  ultimately have rows: "mset (matching_rows ?db sel lo hi) =
      mset (map (row_answer ?D) (filter (row_selected ?D sel lo hi) (map row_of acked)))"
    using matching_rows_warehouse [OF inv] by simp
  have "bt_wf ls" if "(sid, m, ls) \<in> set (warehouse_series (sv_tables st))" for sid m ls
  proof -
    have "?D (fst (sid, m, ls)) = snd (sid, m, ls)" using inv that unfolding store_inv_def by blast
    then show ?thesis using meaning_wf [OF assms(5), of sid] by simp
  qed
  then show wf: "db_wf ?db" by (auto simp: db_wf_def database_of_def)
  have "mset (selector_rows ?db sel lo hi) = mset (matching_rows ?db sel lo hi)"
    by (rule selector_rows_mset [OF wf assms(6)])
  also have "\<dots> = mset (map (\<lambda>s. row_answer ?D (row_of s)) (filter (\<lambda>s. row_selected ?D sel lo hi (row_of s)) acked))"
    unfolding rows by (simp add: filter_map comp_def)
  also have "filter (\<lambda>s. row_selected ?D sel lo hi (row_of s)) acked =
      filter (\<lambda>s. selects sel (vs_metric s) (vs_labels s) \<and> lo \<le> vs_ts_us s \<and> vs_ts_us s \<le> hi) acked"
    by (rule filter_cong) (simp_all add: answer_of_sample d)
  also have "map (\<lambda>s. row_answer ?D (row_of s)) (filter (\<lambda>s. selects sel (vs_metric s) (vs_labels s) \<and> lo \<le> vs_ts_us s \<and> vs_ts_us s \<le> hi) acked) =
      map (\<lambda>s. \<lparr>row_metric = vs_metric s, row_labels = vs_labels s, row_ts = vs_ts_us s, row_value = vs_value s\<rparr>)
        (filter (\<lambda>s. selects sel (vs_metric s) (vs_labels s) \<and> lo \<le> vs_ts_us s \<and> vs_ts_us s \<le> hi) acked)"
    by (rule map_cong) (simp_all add: answer_of_sample d)
  finally show "mset (selector_rows ?db sel lo hi) =
      mset (map (\<lambda>s. \<lparr>row_metric = vs_metric s, row_labels = vs_labels s, row_ts = vs_ts_us s, row_value = vs_value s\<rparr>)
        (filter (\<lambda>s. selects sel (vs_metric s) (vs_labels s) \<and> lo \<le> vs_ts_us s \<and> vs_ts_us s \<le> hi) acked))" .
qed

text \<open>
  From ingest to query: start on an empty warehouse, ingest and flush in any order, with failing
  appends in between but no failing flush, until the buffer is empty. A selector statement over the
  tables then returns exactly the acknowledged samples that lie in its window and that PromQL's
  matchers select, each once, under its own metric, labels, time and value.
\<close>

theorem acked_samples_queried:
  assumes "app_open X cf ok q c \<lparr>wh_samples = [], wh_series = []\<rparr> [] = Inr st0"
    "live_run X ps st0 = (acked, errs, st)" "flush_error_free errs" "is_empty (sv_buffer st)"
    "ids_consistent acked" "matchers_handled sel"
    "qe_db Q = database_of (sv_tables st)" "reads_back Q lo" "reads_back Q hi"
    "run_selector_query Q sel lo hi = Inr rows"
  shows "mset rows = mset (map (\<lambda>s. \<lparr>row_metric = vs_metric s, row_labels = vs_labels s, row_ts = vs_ts_us s, row_value = vs_value s\<rparr>)
    (filter (\<lambda>s. selects sel (vs_metric s) (vs_labels s) \<and> lo \<le> vs_ts_us s \<and> vs_ts_us s \<le> hi) acked))"
  using acked_selected(2) [OF assms(1-6)] run_selector_rows [OF assms(10,8,9)] by (simp add: assms(7))

text \<open>A server that ingests one batch and flushes it; the query has no matcher but the metric name.\<close>

lemma demo_flushed:
  obtains st where "live_run demo_codec [Ingest IoOk demo_batch, Flush \<lparr>fio_samples = Committed 1, fio_series = Committed 1\<rparr>]
      (fresh_service default_rotation_bytes) = (demo_batch, [], st)" "is_empty (sv_buffer st)"
proof -
  let ?io = "\<lparr>fio_samples = Committed 1, fio_series = Committed 1\<rparr>"
  obtain st where a: "append_validated demo_codec IoOk demo_batch (fresh_service default_rotation_bytes) = (Inr 1, st)"
    by (rule demo_history)
  obtain b u where f: "flush_once ?io st = (Inr b, u)" "is_empty (sv_buffer u)"
    by (cases rule: flush_once_cases [where st = st and io = ?io])
      (auto simp: samples_acked_def series_acked_def take_snapshot_def is_empty_def)
  have "live_run demo_codec [Ingest IoOk demo_batch, Flush ?io] (fresh_service default_rotation_bytes) = (demo_batch, [], u)"
    using a f(1) by simp
  with f(2) that show thesis by blast
qed

theorem acked_samples_queried_witness:
  "\<exists>st Q rows. live_run demo_codec [Ingest IoOk demo_batch, Flush \<lparr>fio_samples = Committed 1, fio_series = Committed 1\<rparr>]
       (fresh_service default_rotation_bytes) = (demo_batch, [], st) \<and>
     qe_db Q = database_of (sv_tables st) \<and>
     run_selector_query Q \<lparr>vsel_name = Some ''up'', vsel_matchers = []\<rparr> 0 2000000 = Inr rows \<and>
     mset rows = {#\<lparr>row_metric = ''up'', row_labels = [], row_ts = 1000000, row_value = Num 1\<rparr>#}"
proof -
  let ?sel = "\<lparr>vsel_name = Some ''up'', vsel_matchers = []\<rparr>"
  obtain st where st: "live_run demo_codec [Ingest IoOk demo_batch, Flush \<lparr>fio_samples = Committed 1, fio_series = Committed 1\<rparr>]
      (fresh_service default_rotation_bytes) = (demo_batch, [], st)" "is_empty (sv_buffer st)"
    by (rule demo_flushed)
  let ?Q = "demo_env\<lparr>qe_db := database_of (sv_tables st)\<rparr>"
  have rb: "reads_back ?Q us" if "0 \<le> us" for us using demo_reads_back [OF that] by (simp add: reads_back_def)
  have run: "run_selector_query ?Q ?sel 0 2000000 = Inr (selector_rows (qe_db ?Q) ?sel 0 2000000)"
    by (simp add: run_selector_query_def run_stmt_def demo_env_def demo_prom_def us_to_ts_lit_def)
  have "ids_consistent demo_batch" "flush_error_free []" "matchers_handled ?sel"
    by (simp_all add: ids_consistent_def demo_batch_def bt_wf_def flush_error_free_def matchers_handled_def)
  from acked_samples_queried [OF fresh_open st(1) this(2) st(2) this(1,3) _ rb rb run]
  have "mset (selector_rows (qe_db ?Q) ?sel 0 2000000) =
      {#\<lparr>row_metric = ''up'', row_labels = [], row_ts = 1000000, row_value = Num 1\<rparr>#}"
    by (simp add: demo_batch_def selects_def effective_metric_name_def)
  with st(1) run show ?thesis by (intro exI [of _ st] exI [of _ ?Q]) auto
qed

end
