(* ===== verification/Rangefn.thy ===== *)
theory Rangefn
  imports Selector
begin

text \<open>
  \<open>rate\<close>, \<open>irate\<close>, \<open>increase\<close> and \<open>delta\<close> (\<open>src/src/prometheus.rs\<close>): the chain of common table
  expressions that yields one value per series, for one instant and for every evaluation time of a
  range query, and the two evaluators on top of it.
\<close>

section \<open>One value per series\<close>

text \<open>\<open>base\<close>: the series id, the timestamp in microseconds and \<open>value + 0.0\<close>.\<close>

definition base_rows :: "(series_tuple \<times> int \<times> f64) list \<Rightarrow> (int \<times> int \<times> f64) list" where
  "base_rows join = map (\<lambda>(s, ts, v). (st_id s, ts, f64_add v (Num 0))) join"

text \<open>\<open>PARTITION BY series_id ORDER BY ts_us\<close>.\<close>

definition by_series_time :: "(int \<times> int \<times> f64) list \<Rightarrow> (int \<times> (int \<times> f64) list) list" where
  "by_series_time base = map (\<lambda>(sid, pts). (sid, sort_key fst pts)) (bt_group fst snd base)"

text \<open>The reset-adjusted differences: 0 for the first row, whose \<open>LAG\<close> is \<open>NULL\<close>.\<close>

definition reset_delta :: "query_env \<Rightarrow> f64 \<Rightarrow> f64 \<Rightarrow> f64" where
  "reset_delta Q prev v = (if qe_cmp Q Ge v prev then f64_sub v prev else v)"

fun adjusted :: "query_env \<Rightarrow> f64 option \<Rightarrow> f64 list \<Rightarrow> f64 list" where
  "adjusted Q prev [] = []"
| "adjusted Q prev (v # vs) =
     (case prev of None \<Rightarrow> Num 0 | Some p \<Rightarrow> reset_delta Q p v) # adjusted Q (Some v) vs"

definition total_delta :: "query_env \<Rightarrow> (int \<times> f64) list \<Rightarrow> f64" where
  "total_delta Q pts = qe_agg Q Sum (adjusted Q None (map snd pts))"

definition per_second :: "f64 \<Rightarrow> int \<Rightarrow> f64" where
  "per_second x span_us = f64_div (f64_mul x (Num 1000000)) (f64_of_int span_us)"

text \<open>The row that \<open>ROW_NUMBER() OVER (... ORDER BY ts_us DESC)\<close> numbers 1, by its place in time order.\<close>

definition newest :: "(int \<times> f64) list \<Rightarrow> nat" where
  "newest pts = length (takeWhile (\<lambda>p. fst p < fst (last pts)) pts)"

fun rangefn_value :: "query_env \<Rightarrow> range_fn_op \<Rightarrow> (int \<times> f64) list \<Rightarrow> f64 option" where
  "rangefn_value Q Rate pts =
     (if 2 \<le> length pts \<and> fst (hd pts) < fst (last pts)
      then Some (per_second (total_delta Q pts) (fst (last pts) - fst (hd pts))) else None)"
| "rangefn_value Q Increase pts =
     (if 2 \<le> length pts \<and> fst (hd pts) < fst (last pts) then Some (total_delta Q pts) else None)"
| "rangefn_value Q Irate pts =
     (let i = newest pts in
      if 2 \<le> length pts \<and> 0 < i
      then Some (per_second (reset_delta Q (snd (pts ! (i - 1))) (snd (pts ! i)))
                   (fst (pts ! i) - fst (pts ! (i - 1)))) else None)"
| "rangefn_value Q Delta pts =
     (if 2 \<le> length pts then Some (f64_sub (snd (pts ! newest pts)) (snd (hd pts))) else None)"

definition per_series :: "query_env \<Rightarrow> range_fn_op \<Rightarrow> (int \<times> int \<times> f64) list \<Rightarrow> (int \<times> f64) list" where
  "per_series Q op base =
     List.map_filter (\<lambda>(sid, pts). map_option (\<lambda>v. (sid, v)) (rangefn_value Q op pts)) (by_series_time base)"

text \<open>\<open>JOIN series s ON r.series_id = s.series_id\<close>.\<close>

definition join_series :: "database \<Rightarrow> (int \<times> 'b) list \<Rightarrow> (series_tuple \<times> 'b) list" where
  "join_series db rows =
     concat (map (\<lambda>(sid, b). map (\<lambda>s. (s, b)) (filter (\<lambda>s. st_id s = sid) (db_series db))) rows)"

section \<open>At one instant\<close>

definition instant_rates :: "query_env \<Rightarrow> vector_selector \<Rightarrow> range_fn_op \<Rightarrow> int \<Rightarrow> int \<Rightarrow> (int \<times> f64) list" where
  "instant_rates Q sel op lo hi = per_series Q op (base_rows (window_join (qe_db Q) sel lo hi))"

definition decode_instant :: "vector_selector \<Rightarrow> int \<Rightarrow> (series_tuple \<times> f64) list \<Rightarrow> instant_point list" where
  "decode_instant sel time_us rows =
     map (\<lambda>(s, v). \<lparr>ip_metric = st_metric s, ip_labels = labels_to_btree (st_labels s), ip_ts = time_us, ip_value = v\<rparr>)
       (filter (\<lambda>(s, v). regex_passes sel (labels_to_btree (st_labels s))) rows)"

definition instant_range_fn_via_sql ::
    "query_env \<Rightarrow> vector_selector \<Rightarrow> int \<Rightarrow> range_fn_op \<Rightarrow> int \<Rightarrow> prom_error + instant_point list" where
  "instant_range_fn_via_sql Q sel range_us op time_us =
     run_stmt Q ''range_fn'' (i64_wrap (time_us - range_us)) time_us
       (\<lambda>lo hi. decode_instant sel time_us
          (filter (\<lambda>(s, v). is_finite v) (join_series (qe_db Q) (instant_rates Q sel op lo hi))))"

section \<open>Over a range\<close>

definition max_range_evals :: nat where
  "max_range_evals = 11000"

text \<open>The loop that lists the evaluation times; \<open>k\<close> of them are already pushed.\<close>

function eval_loop :: "int \<Rightarrow> int \<Rightarrow> int \<Rightarrow> nat \<Rightarrow> int list option" where
  "eval_loop t end_us step_us k =
     (if t \<le> end_us then
        (if max_range_evals < k + 1 then None
         else map_option (\<lambda>es. t # es) (eval_loop (i64_sat (t + step_us)) end_us step_us (k + 1)))
      else Some [])"
  by pat_completeness auto

termination
  by (relation "measure (\<lambda>(t, e, s, k). max_range_evals + 1 - k)") auto

declare eval_loop.simps [simp del]

definition too_many_evals :: prom_error where
  "too_many_evals = bad_data ''range query produces > 11000 eval points; pick a larger step''"

text \<open>
  The times, then the statement over the samples from the first window to \<open>end_us\<close>; a time's window is
  \<open>(t - range_us, t]\<close>.
\<close>

definition eval_window :: "int \<Rightarrow> int \<Rightarrow> (int \<times> int \<times> f64) list \<Rightarrow> (int \<times> int \<times> f64) list" where
  "eval_window range_us t base = filter (\<lambda>(sid, ts, v). t - range_us < ts \<and> ts \<le> t) base"

definition range_rates :: "query_env \<Rightarrow> vector_selector \<Rightarrow> int \<Rightarrow> range_fn_op \<Rightarrow> int list \<Rightarrow> int \<Rightarrow> int \<Rightarrow>
    (int \<times> int \<times> f64) list" where
  "range_rates Q sel range_us op evals lo hi =
     concat (map (\<lambda>t. map (\<lambda>(sid, v). (t, sid, v))
         (per_series Q op (eval_window range_us t (base_rows (window_join (qe_db Q) sel lo hi))))) evals)"

definition with_evals :: "query_env \<Rightarrow> string \<Rightarrow> int \<Rightarrow> int \<Rightarrow> int \<Rightarrow> int \<Rightarrow>
    (int list \<Rightarrow> int \<Rightarrow> int \<Rightarrow> 'r list) \<Rightarrow> prom_error + 'r list" where
  "with_evals Q tag range_us start_us end_us step_us f =
     (case eval_loop start_us end_us step_us 0 of
        None \<Rightarrow> Inl too_many_evals
      | Some evals \<Rightarrow>
          if evals = [] then Inr []
          else run_stmt Q tag (i64_sat (start_us - range_us)) end_us (f evals))"

text \<open>Rows sorted by metric name and time, then collected per series key.\<close>

definition collect_series :: "selector_row list \<Rightarrow> range_points list" where
  "collect_series rows =
     map (\<lambda>(k, metric, lbls, pts). \<lparr>rp_metric = metric, rp_labels = lbls, rp_points = pts\<rparr>)
       (group_rows_by_series rows)"

definition timed_join :: "database \<Rightarrow> (int \<times> int \<times> f64) list \<Rightarrow> (series_tuple \<times> int \<times> f64) list" where
  "timed_join db rows = join_series db (map (\<lambda>(t, sid, v). (sid, (t, v))) rows)"

definition decode_range :: "vector_selector \<Rightarrow> (series_tuple \<times> int \<times> f64) list \<Rightarrow> range_points list" where
  "decode_range sel rows =
     collect_series
       (filter (\<lambda>r. regex_passes sel (row_labels r))
         (map (\<lambda>(s, t, v). \<lparr>row_metric = st_metric s, row_labels = labels_to_btree (st_labels s), row_ts = t, row_value = v\<rparr>)
           (sort_key (\<lambda>(s, t, v). (st_metric s, t)) rows)))"

definition range_range_fn_via_sql :: "query_env \<Rightarrow> vector_selector \<Rightarrow> int \<Rightarrow> range_fn_op \<Rightarrow> int \<Rightarrow> int \<Rightarrow> int \<Rightarrow>
    prom_error + range_points list" where
  "range_range_fn_via_sql Q sel range_us op start_us end_us step_us =
     with_evals Q ''range range_fn'' range_us start_us end_us step_us
       (\<lambda>evals lo hi. decode_range sel
          (filter (\<lambda>(s, t, v). is_finite v) (timed_join (qe_db Q) (range_rates Q sel range_us op evals lo hi))))"

end
