(* ===== verification/Pushdown_Agg.thy ===== *)
theory Pushdown_Agg
  imports Rangefn "HOL-Library.Option_ord"
begin

text \<open>
  Aggregations that run as one SQL statement (\<open>src/src/prometheus.rs\<close>): \<open>sum\<close>, \<open>avg\<close>, \<open>min\<close>,
  \<open>max\<close> and \<open>count\<close> over a selector or over \<open>rate\<close> and its kin, at one instant and over a range, for
  \<open>by (...)\<close>, \<open>without (...)\<close> and no modifier.

  The statements share their parts, and the definitions do too: a source of rows (the latest sample
  of each series, all samples, or the values of a range function), a grouping (by the labels kept, or
  by the text of all other labels), and the decoding of the result. Where SQL leaves the order of the
  result rows open, they come in the order of their groups.
\<close>

section \<open>Sources\<close>

text \<open>
  \<open>ROW_NUMBER() OVER (PARTITION BY series_id ORDER BY timestamp DESC) = 1\<close>: the latest sample of each
  series.
\<close>

definition latest_samples :: "database \<Rightarrow> vector_selector \<Rightarrow> int \<Rightarrow> int \<Rightarrow> (int \<times> f64) list" where
  "latest_samples db sel lo hi =
     map (\<lambda>(sid, rows). (sid, snd (hd (sort_key (\<lambda>(ts, v). - ts) rows))))
       (bt_group (\<lambda>(s, ts, v). st_id s) (\<lambda>(s, ts, v). (ts, v)) (window_join db sel lo hi))"

section \<open>Group keys\<close>

text \<open>\<open>element_at(s.labels, 'k')[1]\<close> for every \<open>k\<close>, and the labels a group is decoded to.\<close>

definition key_values :: "string list \<Rightarrow> series_tuple \<Rightarrow> string option list" where
  "key_values ks s = map (map_of (st_labels s)) ks"

definition key_labels :: "string list \<Rightarrow> string option list \<Rightarrow> labels" where
  "key_labels ks vs =
     bt_collect (concat (map (\<lambda>(k, v). case v of Some w \<Rightarrow> [(k, w)] | None \<Rightarrow> []) (zip ks vs)))"

text \<open>
  \<open>gk_pairs\<close> and \<open>gk\<close>: the labels of a series but the excluded ones, as one text sorted by name. The
  inner query is a list of series ids with labels; an id none of whose labels is left has no row, so
  it has no key, whatever the \<open>COALESCE\<close>.
\<close>

definition group_key :: "(int \<times> (string \<times> string) list) list \<Rightarrow> string list \<Rightarrow> int \<Rightarrow> string option" where
  "group_key rows excluded sid =
     (let pairs = filter (\<lambda>(k, v). k \<notin> set excluded) (concat (map snd (filter (\<lambda>r. fst r = sid) rows))) in
      if pairs = [] then None
      else Some (join_with '','' (map (\<lambda>(k, v). k @ ''='' @ v) (sort_key fst pairs))))"

text \<open>\<open>JOIN gk ON r.series_id = gk.series_id\<close>.\<close>

definition join_gk :: "database \<Rightarrow> string list \<Rightarrow> (int \<times> 'b) list \<Rightarrow> (string \<times> int \<times> 'b) list" where
  "join_gk db excluded rows =
     List.map_filter (\<lambda>(sid, b).
       map_option (\<lambda>g. (g, sid, b))
         (group_key (map (\<lambda>s. (st_id s, st_labels s)) (db_series db)) excluded sid)) rows"

definition drop_labels :: "string list \<Rightarrow> labels \<Rightarrow> labels" where
  "drop_labels excluded lbls = filter (\<lambda>(k, v). k \<notin> set excluded) lbls"

text \<open>The series a group stands for, and the labels it is shown with.\<close>

definition rep_labels :: "database \<Rightarrow> string list \<Rightarrow> int list \<Rightarrow> labels list" where
  "rep_labels db excluded sids =
     map (\<lambda>s. drop_labels excluded (labels_to_btree (st_labels s)))
       (filter (\<lambda>s. st_id s = min_list sids) (db_series db))"

section \<open>The aggregate of a group\<close>

text \<open>\<open>COUNT(*)\<close> of no row is 0; the others are \<open>NULL\<close>.\<close>

definition agg_call_sql :: "query_env \<Rightarrow> agg_op \<Rightarrow> f64 list \<Rightarrow> f64 option" where
  "agg_call_sql Q op vs =
     (if op = Count then Some (f64_of_int (int (length vs)))
      else if vs = [] then None else Some (qe_agg Q op vs))"

definition kept_agg :: "query_env \<Rightarrow> (f64 \<Rightarrow> bool) \<Rightarrow> agg_op \<Rightarrow> f64 list \<Rightarrow> f64 option" where
  "kept_agg Q keep op vs =
     (case agg_call_sql Q op vs of Some v \<Rightarrow> if keep v then Some v else None | None \<Rightarrow> None)"

definition nameless :: "labels \<Rightarrow> int \<Rightarrow> f64 \<Rightarrow> instant_point" where
  "nameless lbls ts v = \<lparr>ip_metric = [], ip_labels = lbls, ip_ts = ts, ip_value = v\<rparr>"

section \<open>At one instant\<close>

text \<open>Without \<open>GROUP BY\<close> there is one group, of all rows, even if there is none.\<close>

definition group_by_keys :: "string list \<Rightarrow> (series_tuple \<times> f64) list \<Rightarrow> (string option list \<times> f64 list) list" where
  "group_by_keys ks rows =
     (if ks = [] then [([], map snd rows)] else bt_group (\<lambda>(s, v). key_values ks s) snd rows)"

definition instant_by :: "query_env \<Rightarrow> (f64 \<Rightarrow> bool) \<Rightarrow> agg_op \<Rightarrow> string list \<Rightarrow> int \<Rightarrow> (int \<times> f64) list \<Rightarrow>
    instant_point list" where
  "instant_by Q keep op ks time_us rows =
     List.map_filter (\<lambda>(key, vs). map_option (nameless (key_labels ks key) time_us) (kept_agg Q keep op vs))
       (group_by_keys ks (join_series (qe_db Q) rows))"

definition instant_without :: "query_env \<Rightarrow> (f64 \<Rightarrow> bool) \<Rightarrow> agg_op \<Rightarrow> string list \<Rightarrow> int \<Rightarrow> (int \<times> f64) list \<Rightarrow>
    instant_point list" where
  "instant_without Q keep op excluded time_us rows =
     concat (map (\<lambda>(g, ms).
         case kept_agg Q keep op (map snd ms) of
           None \<Rightarrow> []
         | Some v \<Rightarrow> map (\<lambda>lbls. nameless lbls time_us v) (rep_labels (qe_db Q) excluded (map fst ms)))
       (bt_group fst snd (join_gk (qe_db Q) excluded rows)))"

definition instant_aggregate_without_via_sql ::
    "query_env \<Rightarrow> vector_selector \<Rightarrow> agg_op \<Rightarrow> string list \<Rightarrow> int \<Rightarrow> prom_error + instant_point list" where
  "instant_aggregate_without_via_sql Q sel op excluded time_us =
     run_stmt Q ''aggregate-without'' (i64_wrap (time_us - lookback_us)) time_us
       (\<lambda>lo hi. instant_without Q (\<lambda>_. True) op excluded time_us (latest_samples (qe_db Q) sel lo hi))"

definition instant_aggregate_via_sql ::
    "query_env \<Rightarrow> vector_selector \<Rightarrow> agg_op \<Rightarrow> label_modifier option \<Rightarrow> int \<Rightarrow> prom_error + instant_point list" where
  "instant_aggregate_via_sql Q sel op modi time_us =
     (case modifier_excluded_keys modi of
        Some excluded \<Rightarrow> instant_aggregate_without_via_sql Q sel op excluded time_us
      | None \<Rightarrow>
          run_stmt Q ''aggregate'' (i64_wrap (time_us - lookback_us)) time_us
            (\<lambda>lo hi. instant_by Q (\<lambda>_. True) op (aggregate_group_keys modi) time_us
                        (latest_samples (qe_db Q) sel lo hi)))"

definition instant_aggregate_over_rangefn_without_via_sql ::
    "query_env \<Rightarrow> vector_selector \<Rightarrow> int \<Rightarrow> range_fn_op \<Rightarrow> agg_op \<Rightarrow> string list \<Rightarrow> int \<Rightarrow>
       prom_error + instant_point list" where
  "instant_aggregate_over_rangefn_without_via_sql Q sel range_us fn_op op excluded time_us =
     run_stmt Q ''agg-over-rate-without'' (i64_wrap (time_us - range_us)) time_us
       (\<lambda>lo hi. instant_without Q is_finite op excluded time_us (instant_rates Q sel fn_op lo hi))"

definition instant_aggregate_over_rangefn_via_sql ::
    "query_env \<Rightarrow> vector_selector \<Rightarrow> int \<Rightarrow> range_fn_op \<Rightarrow> agg_op \<Rightarrow> label_modifier option \<Rightarrow> int \<Rightarrow>
       prom_error + instant_point list" where
  "instant_aggregate_over_rangefn_via_sql Q sel range_us fn_op op modi time_us =
     (case modifier_excluded_keys modi of
        Some excluded \<Rightarrow> instant_aggregate_over_rangefn_without_via_sql Q sel range_us fn_op op excluded time_us
      | None \<Rightarrow>
          run_stmt Q ''agg-over-rate'' (i64_wrap (time_us - range_us)) time_us
            (\<lambda>lo hi. instant_by Q is_finite op (aggregate_group_keys modi) time_us
                        (instant_rates Q sel fn_op lo hi)))"

section \<open>Over a range\<close>

text \<open>\<open>GROUP BY t, labels ORDER BY labels, t\<close>, then one series per set of labels.\<close>

definition collect_groups :: "(labels \<times> int \<times> f64) list \<Rightarrow> range_points list" where
  "collect_groups rows =
     map (\<lambda>(lbls, pts). \<lparr>rp_metric = [], rp_labels = lbls, rp_points = pts\<rparr>) (bt_group fst snd rows)"

definition range_by :: "query_env \<Rightarrow> (f64 \<Rightarrow> bool) \<Rightarrow> agg_op \<Rightarrow> string list \<Rightarrow>
    (series_tuple \<times> int \<times> f64) list \<Rightarrow> range_points list" where
  "range_by Q keep op ks rows =
     collect_groups
       (List.map_filter (\<lambda>((key, t), vs). map_option (\<lambda>v. (key_labels ks key, t, v)) (kept_agg Q keep op vs))
         (bt_group (\<lambda>(s, t, v). (key_values ks s, t)) (\<lambda>(s, t, v). v) rows))"

definition range_without :: "query_env \<Rightarrow> (f64 \<Rightarrow> bool) \<Rightarrow> agg_op \<Rightarrow> string list \<Rightarrow>
    (int \<times> int \<times> f64) list \<Rightarrow> range_points list" where
  "range_without Q keep op excluded rows =
     collect_groups
       (concat (map (\<lambda>((t, g), ms).
           case kept_agg Q keep op (map snd ms) of
             None \<Rightarrow> []
           | Some v \<Rightarrow> map (\<lambda>lbls. (lbls, t, v)) (rep_labels (qe_db Q) excluded (map fst ms)))
         (bt_group (\<lambda>(g, sid, t, v). (t, g)) (\<lambda>(g, sid, t, v). (sid, v)) (join_gk (qe_db Q) excluded rows))))"

definition range_aggregate_without_via_sql ::
    "query_env \<Rightarrow> vector_selector \<Rightarrow> agg_op \<Rightarrow> string list \<Rightarrow> int \<Rightarrow> int \<Rightarrow> prom_error + range_points list" where
  "range_aggregate_without_via_sql Q sel op excluded start_us end_us =
     run_stmt Q ''range aggregate-without'' start_us end_us
       (\<lambda>lo hi. range_without Q (\<lambda>_. True) op excluded
          (map (\<lambda>(s, t, v). (st_id s, t, v)) (window_join (qe_db Q) sel lo hi)))"

definition range_aggregate_via_sql ::
    "query_env \<Rightarrow> vector_selector \<Rightarrow> agg_op \<Rightarrow> label_modifier option \<Rightarrow> int \<Rightarrow> int \<Rightarrow> prom_error + range_points list" where
  "range_aggregate_via_sql Q sel op modi start_us end_us =
     (case modifier_excluded_keys modi of
        Some excluded \<Rightarrow> range_aggregate_without_via_sql Q sel op excluded start_us end_us
      | None \<Rightarrow>
          run_stmt Q ''range aggregate'' start_us end_us
            (\<lambda>lo hi. range_by Q (\<lambda>_. True) op (aggregate_group_keys modi) (window_join (qe_db Q) sel lo hi)))"

definition range_aggregate_over_rangefn_without_via_sql ::
    "query_env \<Rightarrow> vector_selector \<Rightarrow> int \<Rightarrow> range_fn_op \<Rightarrow> agg_op \<Rightarrow> string list \<Rightarrow> int \<Rightarrow> int \<Rightarrow> int \<Rightarrow>
       prom_error + range_points list" where
  "range_aggregate_over_rangefn_without_via_sql Q sel range_us fn_op op excluded start_us end_us step_us =
     with_evals Q ''range agg-over-rate-without'' range_us start_us end_us step_us
       (\<lambda>evals lo hi. range_without Q is_finite op excluded
          (map (\<lambda>(t, sid, v). (sid, t, v)) (range_rates Q sel range_us fn_op evals lo hi)))"

definition range_aggregate_over_rangefn_via_sql ::
    "query_env \<Rightarrow> vector_selector \<Rightarrow> int \<Rightarrow> range_fn_op \<Rightarrow> agg_op \<Rightarrow> label_modifier option \<Rightarrow> int \<Rightarrow> int \<Rightarrow> int \<Rightarrow>
       prom_error + range_points list" where
  "range_aggregate_over_rangefn_via_sql Q sel range_us fn_op op modi start_us end_us step_us =
     (case modifier_excluded_keys modi of
        Some excluded \<Rightarrow>
          range_aggregate_over_rangefn_without_via_sql Q sel range_us fn_op op excluded start_us end_us step_us
      | None \<Rightarrow>
          with_evals Q ''range agg-over-rate'' range_us start_us end_us step_us
            (\<lambda>evals lo hi. range_by Q is_finite op (aggregate_group_keys modi)
               (timed_join (qe_db Q) (range_rates Q sel range_us fn_op evals lo hi))))"

end
