(* ===== verification/Pushdown_Topk.thy ===== *)
theory Pushdown_Topk
  imports Pushdown_Agg
begin

text \<open>
  \<open>topk\<close> and \<open>bottomk\<close> as one SQL statement (\<open>src/src/prometheus.rs\<close>): \<open>ROW_NUMBER()\<close> within each
  group, cut at \<open>n\<close>, over a selector or over a range function, at one instant and over a range. The
  rows that survive keep their name and labels; the regex matchers are applied to them afterwards.
\<close>

section \<open>Ranking\<close>

text \<open>\<open>ORDER BY value DESC\<close> for \<open>topk\<close>, \<open>ASC\<close> for \<open>bottomk\<close>.\<close>

definition rank_cmp :: "query_env \<Rightarrow> bool \<Rightarrow> f64 \<Rightarrow> f64 \<Rightarrow> ordering" where
  "rank_cmp Q tp a b = (if (if tp then qe_le Q b a else qe_le Q a b) then Less else Greater)"

definition rank_cut :: "query_env \<Rightarrow> nat \<Rightarrow> bool \<Rightarrow> ('a \<Rightarrow> f64) \<Rightarrow> ('k::linorder \<times> 'a) list \<Rightarrow> 'a list" where
  "rank_cut Q n tp val rows =
     concat (map (\<lambda>(k, ms). take n (sort_by (\<lambda>a b. rank_cmp Q tp (val a) (val b)) ms)) (bt_group fst snd rows))"

text \<open>\<open>PARTITION BY\<close> the kept labels, or the text of all other labels.\<close>

definition rank_by :: "query_env \<Rightarrow> nat \<Rightarrow> bool \<Rightarrow> string list \<Rightarrow> (int \<times> f64) list \<Rightarrow> (int \<times> f64) list" where
  "rank_by Q n tp ks rows =
     rank_cut Q n tp snd (map (\<lambda>(s, v). (key_values ks s, (st_id s, v))) (join_series (qe_db Q) rows))"

definition rank_without :: "query_env \<Rightarrow> nat \<Rightarrow> bool \<Rightarrow> string list \<Rightarrow> (int \<times> f64) list \<Rightarrow> (int \<times> f64) list" where
  "rank_without Q n tp excluded rows = rank_cut Q n tp snd (join_gk (qe_db Q) excluded rows)"

definition range_rank_by :: "query_env \<Rightarrow> nat \<Rightarrow> bool \<Rightarrow> string list \<Rightarrow> (series_tuple \<times> int \<times> f64) list \<Rightarrow>
    (int \<times> int \<times> f64) list" where
  "range_rank_by Q n tp ks rows =
     rank_cut Q n tp (\<lambda>(sid, t, v). v) (map (\<lambda>(s, t, v). ((t, key_values ks s), (st_id s, t, v))) rows)"

definition range_rank_without :: "query_env \<Rightarrow> nat \<Rightarrow> bool \<Rightarrow> string list \<Rightarrow> (int \<times> int \<times> f64) list \<Rightarrow>
    (int \<times> int \<times> f64) list" where
  "range_rank_without Q n tp excluded rows =
     rank_cut Q n tp (\<lambda>(sid, t, v). v)
       (map (\<lambda>(g, sid, t, v). ((t, g), (sid, t, v))) (join_gk (qe_db Q) excluded rows))"

section \<open>At one instant\<close>

definition instant_topk_without_via_sql ::
    "query_env \<Rightarrow> vector_selector \<Rightarrow> nat \<Rightarrow> bool \<Rightarrow> string list \<Rightarrow> int \<Rightarrow> prom_error + instant_point list" where
  "instant_topk_without_via_sql Q sel n tp excluded time_us =
     run_stmt Q ''topk-without'' (i64_wrap (time_us - lookback_us)) time_us
       (\<lambda>lo hi. decode_instant sel time_us
          (join_series (qe_db Q) (rank_without Q n tp excluded (latest_samples (qe_db Q) sel lo hi))))"

definition instant_topk_via_sql ::
    "query_env \<Rightarrow> vector_selector \<Rightarrow> nat \<Rightarrow> bool \<Rightarrow> label_modifier option \<Rightarrow> int \<Rightarrow> prom_error + instant_point list" where
  "instant_topk_via_sql Q sel n tp modi time_us =
     (if n = 0 then Inr []
      else
        (case modifier_excluded_keys modi of
           Some excluded \<Rightarrow> instant_topk_without_via_sql Q sel n tp excluded time_us
         | None \<Rightarrow>
             run_stmt Q ''topk'' (i64_wrap (time_us - lookback_us)) time_us
               (\<lambda>lo hi. decode_instant sel time_us
                  (join_series (qe_db Q)
                    (rank_by Q n tp (aggregate_group_keys modi) (latest_samples (qe_db Q) sel lo hi))))))"

definition instant_topk_over_rangefn_without_via_sql ::
    "query_env \<Rightarrow> vector_selector \<Rightarrow> int \<Rightarrow> range_fn_op \<Rightarrow> nat \<Rightarrow> bool \<Rightarrow> string list \<Rightarrow> int \<Rightarrow>
       prom_error + instant_point list" where
  "instant_topk_over_rangefn_without_via_sql Q sel range_us fn_op n tp excluded time_us =
     run_stmt Q ''topk-over-rate-without'' (i64_wrap (time_us - range_us)) time_us
       (\<lambda>lo hi. decode_instant sel time_us
          (filter (\<lambda>(s, v). is_finite v)
            (join_series (qe_db Q) (rank_without Q n tp excluded (instant_rates Q sel fn_op lo hi)))))"

definition instant_topk_over_rangefn_via_sql ::
    "query_env \<Rightarrow> vector_selector \<Rightarrow> int \<Rightarrow> range_fn_op \<Rightarrow> nat \<Rightarrow> bool \<Rightarrow> label_modifier option \<Rightarrow> int \<Rightarrow>
       prom_error + instant_point list" where
  "instant_topk_over_rangefn_via_sql Q sel range_us fn_op n tp modi time_us =
     (if n = 0 then Inr []
      else
        (case modifier_excluded_keys modi of
           Some excluded \<Rightarrow>
             instant_topk_over_rangefn_without_via_sql Q sel range_us fn_op n tp excluded time_us
         | None \<Rightarrow>
             run_stmt Q ''topk-over-rate'' (i64_wrap (time_us - range_us)) time_us
               (\<lambda>lo hi. decode_instant sel time_us
                  (filter (\<lambda>(s, v). is_finite v)
                    (join_series (qe_db Q)
                      (rank_by Q n tp (aggregate_group_keys modi) (instant_rates Q sel fn_op lo hi)))))))"

section \<open>Over a range\<close>

definition range_topk_without_via_sql ::
    "query_env \<Rightarrow> vector_selector \<Rightarrow> nat \<Rightarrow> bool \<Rightarrow> string list \<Rightarrow> int \<Rightarrow> int \<Rightarrow> prom_error + range_points list" where
  "range_topk_without_via_sql Q sel n tp excluded start_us end_us =
     run_stmt Q ''range topk-without'' start_us end_us
       (\<lambda>lo hi. decode_range sel
          (join_series (qe_db Q)
            (range_rank_without Q n tp excluded
              (map (\<lambda>(s, t, v). (st_id s, t, v)) (window_join (qe_db Q) sel lo hi)))))"

definition range_topk_via_sql ::
    "query_env \<Rightarrow> vector_selector \<Rightarrow> nat \<Rightarrow> bool \<Rightarrow> label_modifier option \<Rightarrow> int \<Rightarrow> int \<Rightarrow>
       prom_error + range_points list" where
  "range_topk_via_sql Q sel n tp modi start_us end_us =
     (if n = 0 then Inr []
      else
        (case modifier_excluded_keys modi of
           Some excluded \<Rightarrow> range_topk_without_via_sql Q sel n tp excluded start_us end_us
         | None \<Rightarrow>
             run_stmt Q ''range topk'' start_us end_us
               (\<lambda>lo hi. decode_range sel
                  (join_series (qe_db Q)
                    (range_rank_by Q n tp (aggregate_group_keys modi) (window_join (qe_db Q) sel lo hi))))))"

definition range_topk_over_rangefn_without_via_sql ::
    "query_env \<Rightarrow> vector_selector \<Rightarrow> int \<Rightarrow> range_fn_op \<Rightarrow> nat \<Rightarrow> bool \<Rightarrow> string list \<Rightarrow> int \<Rightarrow> int \<Rightarrow> int \<Rightarrow>
       prom_error + range_points list" where
  "range_topk_over_rangefn_without_via_sql Q sel range_us fn_op n tp excluded start_us end_us step_us =
     with_evals Q ''range topk-over-rate-without'' range_us start_us end_us step_us
       (\<lambda>evals lo hi. decode_range sel
          (filter (\<lambda>(s, t, v). is_finite v)
            (join_series (qe_db Q)
              (range_rank_without Q n tp excluded
                (map (\<lambda>(t, sid, v). (sid, t, v)) (range_rates Q sel range_us fn_op evals lo hi))))))"

definition range_topk_over_rangefn_via_sql ::
    "query_env \<Rightarrow> vector_selector \<Rightarrow> int \<Rightarrow> range_fn_op \<Rightarrow> nat \<Rightarrow> bool \<Rightarrow> label_modifier option \<Rightarrow> int \<Rightarrow> int \<Rightarrow> int \<Rightarrow>
       prom_error + range_points list" where
  "range_topk_over_rangefn_via_sql Q sel range_us fn_op n tp modi start_us end_us step_us =
     (if n = 0 then Inr []
      else
        (case modifier_excluded_keys modi of
           Some excluded \<Rightarrow>
             range_topk_over_rangefn_without_via_sql Q sel range_us fn_op n tp excluded start_us end_us step_us
         | None \<Rightarrow>
             with_evals Q ''range topk-over-rate'' range_us start_us end_us step_us
               (\<lambda>evals lo hi. decode_range sel
                  (filter (\<lambda>(s, t, v). is_finite v)
                    (join_series (qe_db Q)
                      (range_rank_by Q n tp (aggregate_group_keys modi)
                        (timed_join (qe_db Q) (range_rates Q sel range_us fn_op evals lo hi))))))))"

end
