(* ===== verification/Pushdown_Binary.thy ===== *)
theory Pushdown_Binary
  imports Pushdown_Agg
begin

text \<open>
  Binary operators as one SQL statement (\<open>src/src/prometheus.rs\<close>): a scalar and a selector, and two
  selectors joined on the text of their labels, at one instant and over a range.
\<close>

section \<open>The operator in SQL\<close>

text \<open>
  \<open>binop_value_sql\<close>: comparisons are the engine's, arithmetic is that of \<open>f64\<close>, and a comparison
  without \<open>bool\<close> never gets here.
\<close>

definition binop_value_sql :: "query_env \<Rightarrow> bin_op \<Rightarrow> bool \<Rightarrow> f64 \<Rightarrow> f64 \<Rightarrow> f64" where
  "binop_value_sql Q op return_bool a b =
     (if is_comparison op then (if return_bool then f64_of_bool (qe_cmp Q op a b) else Num 0)
      else apply_bin_value (pe_powf (qe_prom Q)) a b op)"

text \<open>The value of a row, if the \<open>WHERE\<close> clause keeps it.\<close>

definition sql_bin_row :: "query_env \<Rightarrow> bin_op \<Rightarrow> bool \<Rightarrow> f64 \<Rightarrow> f64 \<Rightarrow> f64 \<Rightarrow> f64 option" where
  "sql_bin_row Q op return_bool a b kept =
     (if is_filter op return_bool then (if qe_cmp Q op a b then Some kept else None)
      else Some (binop_value_sql Q op return_bool a b))"

text \<open>\<open>SELECT s.metric_name\<close> for a filter, \<open>SELECT ''\<close> for everything else.\<close>

definition result_name :: "bin_op \<Rightarrow> bool \<Rightarrow> string \<Rightarrow> string" where
  "result_name op return_bool metric = (if is_filter op return_bool then metric else [])"

definition decode_bin_instant :: "(labels \<Rightarrow> bool) \<Rightarrow> (string \<Rightarrow> string) \<Rightarrow> int \<Rightarrow> (series_tuple \<times> f64) list \<Rightarrow>
    instant_point list" where
  "decode_bin_instant passes name time_us rows =
     map (\<lambda>(s, v). \<lparr>ip_metric = name (st_metric s), ip_labels = labels_to_btree (st_labels s),
                    ip_ts = time_us, ip_value = v\<rparr>)
       (filter (\<lambda>(s, v). passes (labels_to_btree (st_labels s))) rows)"

text \<open>The rows are ordered by the name in the table, also when the result drops it.\<close>

definition decode_bin_range :: "(labels \<Rightarrow> bool) \<Rightarrow> (string \<Rightarrow> string) \<Rightarrow> (series_tuple \<times> int \<times> f64) list \<Rightarrow>
    range_points list" where
  "decode_bin_range passes name rows =
     collect_series
       (filter (\<lambda>r. passes (row_labels r))
         (map (\<lambda>(s, t, v). \<lparr>row_metric = name (st_metric s), row_labels = labels_to_btree (st_labels s),
                            row_ts = t, row_value = v\<rparr>)
           (sort_key (\<lambda>(s, t, v). (st_metric s, t)) rows)))"

section \<open>Scalar and selector\<close>

definition scalar_row :: "query_env \<Rightarrow> f64 \<Rightarrow> bin_op \<Rightarrow> bool \<Rightarrow> bool \<Rightarrow> f64 \<Rightarrow> f64 option" where
  "scalar_row Q scalar op return_bool scalar_on_left v =
     (let (a, b) = (if scalar_on_left then (scalar, v) else (v, scalar)) in
      sql_bin_row Q op return_bool a b v)"

definition scalar_vector_instant_via_sql ::
    "query_env \<Rightarrow> f64 \<Rightarrow> vector_selector \<Rightarrow> bin_op \<Rightarrow> bool \<Rightarrow> bool \<Rightarrow> int \<Rightarrow> prom_error + instant_point list" where
  "scalar_vector_instant_via_sql Q scalar sel op return_bool scalar_on_left time_us =
     run_stmt Q ''scalar-vector'' (i64_wrap (time_us - lookback_us)) time_us
       (\<lambda>lo hi. decode_bin_instant (regex_passes sel) (result_name op return_bool) time_us
          (List.map_filter (\<lambda>(s, v). map_option (\<lambda>w. (s, w)) (scalar_row Q scalar op return_bool scalar_on_left v))
            (join_series (qe_db Q) (latest_samples (qe_db Q) sel lo hi))))"

definition scalar_vector_range_via_sql ::
    "query_env \<Rightarrow> f64 \<Rightarrow> vector_selector \<Rightarrow> bin_op \<Rightarrow> bool \<Rightarrow> bool \<Rightarrow> int \<Rightarrow> int \<Rightarrow>
       prom_error + range_points list" where
  "scalar_vector_range_via_sql Q scalar sel op return_bool scalar_on_left start_us end_us =
     run_stmt Q ''scalar-vector range'' start_us end_us
       (\<lambda>lo hi. decode_bin_range (regex_passes sel) (result_name op return_bool)
          (List.map_filter (\<lambda>(s, t, v).
              map_option (\<lambda>w. (s, t, w)) (scalar_row Q scalar op return_bool scalar_on_left v))
            (window_join (qe_db Q) sel lo hi)))"

section \<open>Selector and selector\<close>

text \<open>The regex matchers of both selectors are applied to the labels of the left side.\<close>

definition both_pass :: "vector_selector \<Rightarrow> vector_selector \<Rightarrow> labels \<Rightarrow> bool" where
  "both_pass lsel rsel lbls \<longleftrightarrow> regex_passes lsel lbls \<and> regex_passes rsel lbls"

text \<open>One side: the latest value, or all values, of each series, with \<open>+ 0.0\<close>, and the key of its labels.\<close>

definition vector_side :: "database \<Rightarrow> vector_selector \<Rightarrow> int \<Rightarrow> int \<Rightarrow> (string \<times> int \<times> f64) list" where
  "vector_side db sel lo hi =
     join_gk db [] (map (\<lambda>(sid, v). (sid, f64_add v (Num 0))) (latest_samples db sel lo hi))"

definition vector_side_range :: "database \<Rightarrow> vector_selector \<Rightarrow> int \<Rightarrow> int \<Rightarrow> (string \<times> int \<times> int \<times> f64) list" where
  "vector_side_range db sel lo hi =
     join_gk db [] (map (\<lambda>(s, t, v). (st_id s, t, f64_add v (Num 0))) (window_join db sel lo hi))"

definition joined :: "(string \<times> int \<times> f64) list \<Rightarrow> (string \<times> int \<times> f64) list \<Rightarrow> (int \<times> f64 \<times> f64) list" where
  "joined ls rs =
     concat (map (\<lambda>(g, sid, lv). map (\<lambda>(_, _, rv). (sid, lv, rv)) (filter (\<lambda>r. fst r = g) rs)) ls)"

definition joined_range :: "(string \<times> int \<times> int \<times> f64) list \<Rightarrow> (string \<times> int \<times> int \<times> f64) list \<Rightarrow>
    (int \<times> int \<times> f64 \<times> f64) list" where
  "joined_range ls rs =
     concat (map (\<lambda>(g, sid, t, lv).
       map (\<lambda>(_, _, _, rv). (sid, t, lv, rv)) (filter (\<lambda>(g', _, t', _). g' = g \<and> t' = t) rs)) ls)"

definition vector_vector_instant_via_sql ::
    "query_env \<Rightarrow> vector_selector \<Rightarrow> vector_selector \<Rightarrow> bin_op \<Rightarrow> bool \<Rightarrow> int \<Rightarrow> prom_error + instant_point list" where
  "vector_vector_instant_via_sql Q lsel rsel op return_bool time_us =
     run_stmt Q ''vec-vec'' (i64_wrap (time_us - lookback_us)) time_us
       (\<lambda>lo hi. decode_bin_instant (both_pass lsel rsel) (result_name op return_bool) time_us
          (List.map_filter (\<lambda>(s, lv, rv). map_option (\<lambda>w. (s, w)) (sql_bin_row Q op return_bool lv rv lv))
            (join_series (qe_db Q)
              (joined (vector_side (qe_db Q) lsel lo hi) (vector_side (qe_db Q) rsel lo hi)))))"

definition vector_vector_range_via_sql ::
    "query_env \<Rightarrow> vector_selector \<Rightarrow> vector_selector \<Rightarrow> bin_op \<Rightarrow> bool \<Rightarrow> int \<Rightarrow> int \<Rightarrow>
       prom_error + range_points list" where
  "vector_vector_range_via_sql Q lsel rsel op return_bool start_us end_us =
     run_stmt Q ''vec-vec range'' start_us end_us
       (\<lambda>lo hi. decode_bin_range (both_pass lsel rsel) (result_name op return_bool)
          (List.map_filter (\<lambda>(s, t, lv, rv). map_option (\<lambda>w. (s, t, w)) (sql_bin_row Q op return_bool lv rv lv))
            (join_series (qe_db Q)
              (joined_range (vector_side_range (qe_db Q) lsel lo hi) (vector_side_range (qe_db Q) rsel lo hi)))))"

end
