(* ===== verification/Pushdown_Hist.thy ===== *)
theory Pushdown_Hist
  imports Pushdown_Topk Histogram
begin

text \<open>
  \<open>histogram_quantile\<close> over a range function as one SQL statement (\<open>src/src/prometheus.rs\<close>): the
  bucket bounds from the \<open>le\<close> labels, the buckets of each group in order of their bounds, the first
  that reaches \<open>q * total\<close>, and the interpolation inside it.
\<close>

section \<open>Buckets\<close>

text \<open>\<open>TRY_CAST(CASE ... END AS DOUBLE)\<close>; casting \<open>'Infinity'\<close> and \<open>'-Infinity'\<close> gives the infinities.\<close>

definition le_sql :: "query_env \<Rightarrow> string \<Rightarrow> f64 option" where
  "le_sql Q s =
     (let l = to_ascii_lowercase s in
      if l = ''+inf'' \<or> l = ''inf'' then Some PInf
      else if l = ''-inf'' then Some NInf
      else qe_try_cast Q s)"

record bucket =
  bk_sid :: int
  bk_labels :: "(string \<times> string) list"
  bk_cum :: f64
  bk_le :: f64

definition filtered_buckets :: "query_env \<Rightarrow> (series_tuple \<times> f64) list \<Rightarrow> bucket list" where
  "filtered_buckets Q rows =
     List.map_filter (\<lambda>(s, v).
       case map_of (st_labels s) ''le'' of
         None \<Rightarrow> None
       | Some l \<Rightarrow>
           map_option (\<lambda>le. \<lparr>bk_sid = st_id s, bk_labels = st_labels s, bk_cum = v, bk_le = le\<rparr>) (le_sql Q l)) rows"

text \<open>\<open>COALESCE(gk.group_key, '')\<close> after a \<open>LEFT JOIN\<close>.\<close>

definition annotated :: "bucket list \<Rightarrow> (string \<times> bucket) list" where
  "annotated bs =
     map (\<lambda>b. (case group_key (map (\<lambda>b. (bk_sid b, bk_labels b)) bs) [''le''] (bk_sid b) of
                 Some g \<Rightarrow> g | None \<Rightarrow> [], b)) bs"

section \<open>One group\<close>

text \<open>
  \<open>ranked\<close> and \<open>crossing\<close>: down the buckets in order of \<open>le\<close>, with the previous bound and count, to
  the first whose count reaches the target.
\<close>

definition quantile_case :: "query_env \<Rightarrow> f64 \<Rightarrow> f64 \<Rightarrow> (f64 \<times> f64) option \<Rightarrow> f64 \<Rightarrow> f64 \<Rightarrow> f64" where
  "quantile_case Q q tot prev le cum =
     (let prev_le = (case prev of Some (l, c) \<Rightarrow> l | None \<Rightarrow> Num 0);
          prev_cum = (case prev of Some (l, c) \<Rightarrow> c | None \<Rightarrow> Num 0) in
      if qe_cmp Q Eq le PInf then prev_le
      else if qe_cmp Q Le (f64_sub cum prev_cum) (Num 0) then le
      else f64_add prev_le
             (f64_mul (f64_div (f64_sub (f64_mul q tot) prev_cum) (f64_sub cum prev_cum)) (f64_sub le prev_le)))"

fun crossing_value :: "query_env \<Rightarrow> f64 \<Rightarrow> f64 \<Rightarrow> (f64 \<times> f64) option \<Rightarrow> (f64 \<times> f64) list \<Rightarrow> f64 option" where
  "crossing_value Q q tot prev [] = None"
| "crossing_value Q q tot prev ((le, cum) # bs) =
     (if qe_cmp Q Gt tot (Num 0) \<and> qe_cmp Q Ge cum (f64_mul q tot)
      then Some (quantile_case Q q tot prev le cum)
      else crossing_value Q q tot (Some (le, cum)) bs)"

definition quantile_sql :: "query_env \<Rightarrow> f64 \<Rightarrow> (f64 \<times> f64) list \<Rightarrow> f64 option" where
  "quantile_sql Q q bs =
     crossing_value Q q (qe_agg Q Max (map snd bs)) None (sort_by (\<lambda>a b. rank_cmp Q False (fst a) (fst b)) bs)"

section \<open>At one instant\<close>

definition finite_opt :: "f64 option \<Rightarrow> f64 option" where
  "finite_opt x = (case x of Some v \<Rightarrow> if is_finite v then Some v else None | None \<Rightarrow> None)"

definition rep_bucket_labels :: "database \<Rightarrow> int list \<Rightarrow> labels list" where
  "rep_bucket_labels db sids =
     map (\<lambda>s. bt_remove ''le'' (labels_to_btree (st_labels s))) (filter (\<lambda>s. st_id s = min_list sids) (db_series db))"

definition instant_quantiles :: "query_env \<Rightarrow> f64 \<Rightarrow> int \<Rightarrow> (int \<times> f64) list \<Rightarrow> instant_point list" where
  "instant_quantiles Q q time_us rates =
     concat (map (\<lambda>(g, bs).
         case finite_opt (quantile_sql Q q (map (\<lambda>b. (bk_le b, bk_cum b)) bs)) of
           None \<Rightarrow> []
         | Some v \<Rightarrow> map (\<lambda>lbls. nameless lbls time_us v) (rep_bucket_labels (qe_db Q) (map bk_sid bs)))
       (bt_group fst snd (annotated (filtered_buckets Q (join_series (qe_db Q) rates)))))"

definition instant_histogram_quantile_via_sql ::
    "query_env \<Rightarrow> vector_selector \<Rightarrow> int \<Rightarrow> range_fn_op \<Rightarrow> f64 \<Rightarrow> int \<Rightarrow> prom_error + instant_point list" where
  "instant_histogram_quantile_via_sql Q sel range_us fn_op q time_us =
     run_stmt Q ''hist_quantile'' (i64_wrap (time_us - range_us)) time_us
       (\<lambda>lo hi. instant_quantiles Q q time_us (instant_rates Q sel fn_op lo hi))"

section \<open>Over a range\<close>

text \<open>
  Every partition is by time too, but for \<open>rep\<close>: a group's labels are those of its least series id
  over all times. \<open>ORDER BY eval_us\<close>.
\<close>

definition eval_buckets :: "query_env \<Rightarrow> (int \<times> int \<times> f64) list \<Rightarrow> int \<Rightarrow> (string \<times> bucket) list" where
  "eval_buckets Q rates t =
     annotated (filtered_buckets Q
       (join_series (qe_db Q) (map snd (filter (\<lambda>r. fst r = t) rates))))"

definition range_quantiles :: "query_env \<Rightarrow> f64 \<Rightarrow> int list \<Rightarrow> (int \<times> int \<times> f64) list \<Rightarrow> range_points list" where
  "range_quantiles Q q evals rates =
     (let all = concat (map (eval_buckets Q rates) evals) in
      collect_groups (concat (map (\<lambda>t.
          concat (map (\<lambda>(g, bs).
              case finite_opt (quantile_sql Q q (map (\<lambda>b. (bk_le b, bk_cum b)) bs)) of
                None \<Rightarrow> []
              | Some v \<Rightarrow>
                  map (\<lambda>lbls. (lbls, t, v))
                    (rep_bucket_labels (qe_db Q) (map (bk_sid \<circ> snd) (filter (\<lambda>x. fst x = g) all))))
            (bt_group fst snd (eval_buckets Q rates t)))) evals)))"

definition range_histogram_quantile_via_sql ::
    "query_env \<Rightarrow> vector_selector \<Rightarrow> int \<Rightarrow> range_fn_op \<Rightarrow> f64 \<Rightarrow> int \<Rightarrow> int \<Rightarrow> int \<Rightarrow>
       prom_error + range_points list" where
  "range_histogram_quantile_via_sql Q sel range_us fn_op q start_us end_us step_us =
     with_evals Q ''range hist_quantile'' range_us start_us end_us step_us
       (\<lambda>evals lo hi. range_quantiles Q q evals (range_rates Q sel range_us fn_op evals lo hi))"

end
