(* ===== verification/Evaluate.thy ===== *)
theory Evaluate
  imports Pushdown_Topk Pushdown_Binary Pushdown_Hist
begin

text \<open>
  The evaluators of \<open>src/src/prometheus.rs\<close>: a query is classified by \<open>detect_query_kind\<close>, sent to
  the one SQL statement that computes it if there is one, and otherwise its parts are evaluated and
  combined in Rust; and the two query endpoints on top of them.
\<close>

section \<open>What can be pushed into SQL\<close>

text \<open>The sources of rows a statement can start from: a selector, or a range function of one.\<close>

datatype push_source = FromSelector vector_selector | FromRangeFn vector_selector int range_fn_op

definition rangefn_source :: "expr \<Rightarrow> push_source option" where
  "rangefn_source inner =
     (case detect_query_kind inner of
        Some (KRangeFn sel range_us op) \<Rightarrow> Some (FromRangeFn sel range_us op)
      | _ \<Rightarrow> None)"

definition push_down :: "label_modifier option \<Rightarrow> expr \<Rightarrow> push_source option" where
  "push_down modi inner =
     (if aggregate_can_push_down modi
      then (case pure_selector inner of Some sel \<Rightarrow> Some (FromSelector sel) | None \<Rightarrow> rangefn_source inner)
      else None)"

definition push_quantile :: "f64 \<Rightarrow> expr \<Rightarrow> push_source option" where
  "push_quantile q inner =
     (if is_finite q \<and> f64_gt q (Num 0) \<and> f64_lt q (Num 1) then rangefn_source inner else None)"

section \<open>Instant queries\<close>

datatype 'v side = Scalar f64 | Vector 'v

text \<open>How \<open>binary_instant_eval\<close> and \<open>binary_range_eval\<close> combine two evaluated sides.\<close>

definition combine_instant :: "query_env \<Rightarrow> bin_op \<Rightarrow> bool \<Rightarrow> instant_point list side \<Rightarrow> instant_point list side \<Rightarrow>
    instant_point list" where
  "combine_instant Q op return_bool l r =
     (case (l, r) of
        (Scalar s, Vector pts) \<Rightarrow> apply_scalar_vector_instant (pe_powf (qe_prom Q)) s pts op return_bool True
      | (Vector pts, Scalar s) \<Rightarrow> apply_scalar_vector_instant (pe_powf (qe_prom Q)) s pts op return_bool False
      | (Vector ls, Vector rs) \<Rightarrow> apply_vector_vector_instant (pe_powf (qe_prom Q)) ls rs op return_bool
      | (Scalar _, Scalar _) \<Rightarrow> [])"

definition combine_range :: "query_env \<Rightarrow> bin_op \<Rightarrow> bool \<Rightarrow> range_points list side \<Rightarrow> range_points list side \<Rightarrow>
    range_points list" where
  "combine_range Q op return_bool l r =
     (case (l, r) of
        (Scalar s, Vector ss) \<Rightarrow> apply_scalar_vector_range (pe_powf (qe_prom Q)) s ss op return_bool True
      | (Vector ss, Scalar s) \<Rightarrow> apply_scalar_vector_range (pe_powf (qe_prom Q)) s ss op return_bool False
      | (Vector ls, Vector rs) \<Rightarrow> apply_vector_vector_range (pe_powf (qe_prom Q)) ls rs op return_bool
      | (Scalar _, Scalar _) \<Rightarrow> [])"

lemma binary_parts_smaller:
  assumes "detect_query_kind e = Some (KBinary op l r b)"
  shows "3 * max (size l) (size r) + 2 < 3 * size e"
  using detect_query_kind_smaller [OF assms, of l] detect_query_kind_smaller [OF assms, of r] by simp

function evaluate_instant :: "query_env \<Rightarrow> expr \<Rightarrow> int \<Rightarrow> prom_error + instant_point list"
  and binary_instant_eval ::
    "query_env \<Rightarrow> expr \<Rightarrow> expr \<Rightarrow> bin_op \<Rightarrow> bool \<Rightarrow> int \<Rightarrow> prom_error + instant_point list"
  and eval_side_instant :: "query_env \<Rightarrow> expr \<Rightarrow> int \<Rightarrow> prom_error + instant_point list side" where
  "evaluate_instant Q e time_us =
     (case detect_query_kind e of
        None \<Rightarrow> Inr []
      | Some (KSelector sel) \<Rightarrow> instant_selector Q sel time_us
      | Some (KRangeFn sel range_us op) \<Rightarrow> instant_range_fn_via_sql Q sel range_us op time_us
      | Some (KAggregate op modi inner) \<Rightarrow>
          (case push_down modi inner of
             Some (FromSelector sel) \<Rightarrow> instant_aggregate_via_sql Q sel op modi time_us
           | Some (FromRangeFn sel range_us fn_op) \<Rightarrow>
               instant_aggregate_over_rangefn_via_sql Q sel range_us fn_op op modi time_us
           | None \<Rightarrow>
               (case evaluate_instant Q inner time_us of
                  Inl err \<Rightarrow> Inl err
                | Inr pts \<Rightarrow> Inr (aggregate_instant_points pts op modi time_us)))
      | Some (KHistogramQuantile q inner) \<Rightarrow>
          (case push_quantile q inner of
             Some (FromRangeFn sel range_us fn_op) \<Rightarrow>
               instant_histogram_quantile_via_sql Q sel range_us fn_op q time_us
           | _ \<Rightarrow>
               (case evaluate_instant Q inner time_us of
                  Inl err \<Rightarrow> Inl err
                | Inr pts \<Rightarrow> Inr (histogram_quantile_instant pts q time_us)))
      | Some (KTopK n tp modi inner) \<Rightarrow>
          (case push_down modi inner of
             Some (FromSelector sel) \<Rightarrow> instant_topk_via_sql Q sel n tp modi time_us
           | Some (FromRangeFn sel range_us fn_op) \<Rightarrow>
               instant_topk_over_rangefn_via_sql Q sel range_us fn_op n tp modi time_us
           | None \<Rightarrow>
               (case evaluate_instant Q inner time_us of
                  Inl err \<Rightarrow> Inl err
                | Inr pts \<Rightarrow> Inr (topk_instant_points pts n tp modi)))
      | Some (KBinary op lhs rhs return_bool) \<Rightarrow> binary_instant_eval Q lhs rhs op return_bool time_us)"
| "binary_instant_eval Q lhs rhs op return_bool time_us =
     (case scalar_vector_pair lhs rhs of
        Some (scalar, sel, scalar_on_left) \<Rightarrow>
          scalar_vector_instant_via_sql Q scalar sel op return_bool scalar_on_left time_us
      | None \<Rightarrow>
          (case (pure_selector lhs, pure_selector rhs) of
             (Some lsel, Some rsel) \<Rightarrow> vector_vector_instant_via_sql Q lsel rsel op return_bool time_us
           | _ \<Rightarrow>
               (case eval_side_instant Q lhs time_us of
                  Inl err \<Rightarrow> Inl err
                | Inr l \<Rightarrow>
                    (case eval_side_instant Q rhs time_us of
                       Inl err \<Rightarrow> Inl err
                     | Inr r \<Rightarrow> Inr (combine_instant Q op return_bool l r)))))"
| "eval_side_instant Q e time_us =
     (case e of
        ENumber v \<Rightarrow> Inr (Scalar v)
      | _ \<Rightarrow> map_sum (\<lambda>err. err) Vector (evaluate_instant Q e time_us))"
  by pat_completeness auto

termination
proof (relation "measure (case_sum (\<lambda>(Q, e, t). 3 * size e)
    (case_sum (\<lambda>(Q, l, r, op, b, t). 3 * max (size l) (size r) + 2) (\<lambda>(Q, e, t). 3 * size e + 1)))",
    goal_cases)
qed (auto dest: detect_query_kind_smaller binary_parts_smaller)

declare evaluate_instant.simps [simp del] binary_instant_eval.simps [simp del] eval_side_instant.simps [simp del]

section \<open>Range queries\<close>

function evaluate_range :: "query_env \<Rightarrow> expr \<Rightarrow> int \<Rightarrow> int \<Rightarrow> int \<Rightarrow> prom_error + range_points list"
  and binary_range_eval ::
    "query_env \<Rightarrow> expr \<Rightarrow> expr \<Rightarrow> bin_op \<Rightarrow> bool \<Rightarrow> int \<Rightarrow> int \<Rightarrow> int \<Rightarrow> prom_error + range_points list"
  and eval_side_range :: "query_env \<Rightarrow> expr \<Rightarrow> int \<Rightarrow> int \<Rightarrow> int \<Rightarrow> prom_error + range_points list side" where
  "evaluate_range Q e start_us end_us step_us =
     (case detect_query_kind e of
        None \<Rightarrow> Inr []
      | Some (KSelector sel) \<Rightarrow> range_selector Q sel start_us end_us
      | Some (KRangeFn sel range_us op) \<Rightarrow>
          range_range_fn_via_sql Q sel range_us op start_us end_us step_us
      | Some (KAggregate op modi inner) \<Rightarrow>
          (case push_down modi inner of
             Some (FromSelector sel) \<Rightarrow> range_aggregate_via_sql Q sel op modi start_us end_us
           | Some (FromRangeFn sel range_us fn_op) \<Rightarrow>
               range_aggregate_over_rangefn_via_sql Q sel range_us fn_op op modi start_us end_us step_us
           | None \<Rightarrow>
               (case evaluate_range Q inner start_us end_us step_us of
                  Inl err \<Rightarrow> Inl err
                | Inr ss \<Rightarrow> Inr (aggregate_range_points ss op modi)))
      | Some (KHistogramQuantile q inner) \<Rightarrow>
          (case push_quantile q inner of
             Some (FromRangeFn sel range_us fn_op) \<Rightarrow>
               range_histogram_quantile_via_sql Q sel range_us fn_op q start_us end_us step_us
           | _ \<Rightarrow>
               (case evaluate_range Q inner start_us end_us step_us of
                  Inl err \<Rightarrow> Inl err
                | Inr ss \<Rightarrow> Inr (histogram_quantile_range ss q)))
      | Some (KTopK n tp modi inner) \<Rightarrow>
          (case push_down modi inner of
             Some (FromSelector sel) \<Rightarrow> range_topk_via_sql Q sel n tp modi start_us end_us
           | Some (FromRangeFn sel range_us fn_op) \<Rightarrow>
               range_topk_over_rangefn_via_sql Q sel range_us fn_op n tp modi start_us end_us step_us
           | None \<Rightarrow>
               (case evaluate_range Q inner start_us end_us step_us of
                  Inl err \<Rightarrow> Inl err
                | Inr ss \<Rightarrow> Inr (topk_range_points ss n tp modi)))
      | Some (KBinary op lhs rhs return_bool) \<Rightarrow>
          binary_range_eval Q lhs rhs op return_bool start_us end_us step_us)"
| "binary_range_eval Q lhs rhs op return_bool start_us end_us step_us =
     (case scalar_vector_pair lhs rhs of
        Some (scalar, sel, scalar_on_left) \<Rightarrow>
          scalar_vector_range_via_sql Q scalar sel op return_bool scalar_on_left start_us end_us
      | None \<Rightarrow>
          (case (pure_selector lhs, pure_selector rhs) of
             (Some lsel, Some rsel) \<Rightarrow> vector_vector_range_via_sql Q lsel rsel op return_bool start_us end_us
           | _ \<Rightarrow>
               (case eval_side_range Q lhs start_us end_us step_us of
                  Inl err \<Rightarrow> Inl err
                | Inr l \<Rightarrow>
                    (case eval_side_range Q rhs start_us end_us step_us of
                       Inl err \<Rightarrow> Inl err
                     | Inr r \<Rightarrow> Inr (combine_range Q op return_bool l r)))))"
| "eval_side_range Q e start_us end_us step_us =
     (case e of
        ENumber v \<Rightarrow> Inr (Scalar v)
      | _ \<Rightarrow> map_sum (\<lambda>err. err) Vector (evaluate_range Q e start_us end_us step_us))"
  by pat_completeness auto

termination
proof (relation "measure (case_sum (\<lambda>(Q, e, a). 3 * size e)
    (case_sum (\<lambda>(Q, l, r, op, b, a). 3 * max (size l) (size r) + 2) (\<lambda>(Q, e, a). 3 * size e + 1)))",
    goal_cases)
qed (auto dest: detect_query_kind_smaller binary_parts_smaller)

declare evaluate_range.simps [simp del] binary_range_eval.simps [simp del] eval_side_range.simps [simp del]

section \<open>The query endpoints\<close>

record query_params =
  qp_query :: string
  qp_time :: "string option"

definition instant_query_inner :: "query_env \<Rightarrow> query_params \<Rightarrow> prom_error + json" where
  "instant_query_inner Q p =
     (case (case qp_time p of Some t \<Rightarrow> parse_timestamp (qe_prom Q) t | None \<Rightarrow> Inr (pe_now (qe_prom Q))) of
        Inl err \<Rightarrow> Inl err
      | Inr time_us \<Rightarrow>
          (case pe_parse (qe_prom Q) (qp_query p) of
             Inl msg \<Rightarrow> Inl (bad_data (''PromQL parse: '' @ msg))
           | Inr e \<Rightarrow>
               map_sum (\<lambda>err. err) (\<lambda>pts. success_vector (instant_points_to_json (qe_prom Q) pts))
                 (evaluate_instant Q e time_us)))"

record query_range_params =
  qr_query :: string
  qr_start :: string
  qr_end :: string
  qr_step :: string

definition range_query_inner :: "query_env \<Rightarrow> query_range_params \<Rightarrow> (prom_error + json) may_panic" where
  "range_query_inner Q p =
     (case parse_timestamp (qe_prom Q) (qr_start p) of
        Inl err \<Rightarrow> Returns (Inl err)
      | Inr start_us \<Rightarrow>
          (case parse_timestamp (qe_prom Q) (qr_end p) of
             Inl err \<Rightarrow> Returns (Inl err)
           | Inr end_us \<Rightarrow>
               (case parse_duration_us (qr_step p) of
                  Panicked \<Rightarrow> Panicked
                | Returns (Inl err) \<Rightarrow> Returns (Inl err)
                | Returns (Inr step_us) \<Rightarrow>
                    if step_us \<le> 0 then Returns (Inl (bad_data ''step must be positive''))
                    else Returns
                      (case pe_parse (qe_prom Q) (qr_query p) of
                         Inl msg \<Rightarrow> Inl (bad_data (''PromQL parse: '' @ msg))
                       | Inr e \<Rightarrow>
                           map_sum (\<lambda>err. err) (\<lambda>ss. success_matrix (range_points_to_json (qe_prom Q) ss))
                             (evaluate_range Q e start_us end_us step_us)))))"

end
