(* ===== verification/Rangefn_Props.thy ===== *)
theory Rangefn_Props
  imports Rangefn Selector_Props
begin

text \<open>
  The evaluation times of a range query, the windows its range functions see compared with those of
  an instant query, and what \<open>increase\<close> and \<open>rate\<close> are worth on counters that reset.
\<close>

section \<open>Evaluation times\<close>

definition eval_count :: "int \<Rightarrow> int \<Rightarrow> int \<Rightarrow> nat" where
  "eval_count start_us end_us step_us = (if start_us \<le> end_us then nat ((end_us - start_us) div step_us) + 1 else 0)"

lemma eval_count_step:
  assumes "0 < step_us" "t \<le> end_us"
  shows "eval_count t end_us step_us = Suc (eval_count (t + step_us) end_us step_us)"
proof (cases "t + step_us \<le> end_us")
  case True
  have "end_us - t = (end_us - (t + step_us)) + step_us" by simp
  then have "(end_us - t) div step_us = (end_us - (t + step_us)) div step_us + 1"
    using assms(1) by (metis div_add_self2 less_irrefl)
  moreover have "0 \<le> (end_us - (t + step_us)) div step_us" using assms True by (simp add: pos_imp_zdiv_nonneg_iff)
  ultimately show ?thesis using assms True by (simp add: eval_count_def)
next
  case False
  then have "(end_us - t) div step_us = 0" using assms by (simp add: div_pos_pos_trivial)
  then show ?thesis using assms False by (simp add: eval_count_def)
qed

lemma eval_loop_eq:
  assumes "0 < step_us" "end_us < i64_max" "i64_ok t" "i64_ok step_us" "k \<le> max_range_evals"
  shows "eval_loop t end_us step_us k =
    (if k + eval_count t end_us step_us \<le> max_range_evals
     then Some (map (\<lambda>i. t + int i * step_us) [0..<eval_count t end_us step_us]) else None)"
  using assms
proof (induction t end_us step_us k rule: eval_loop.induct)
  case (1 t end_us step_us k)
  show ?case
  proof (cases "t \<le> end_us")
    case False
    then show ?thesis using "1.prems" by (subst eval_loop.simps) (simp add: eval_count_def)
  next
    case le: True
    note step = eval_count_step [OF "1.prems"(1) le]
    show ?thesis
    proof (cases "max_range_evals < k + 1")
      case True
      then show ?thesis using le step by (subst eval_loop.simps) simp
    next
      case False
      have next_t: "i64_sat (t + step_us) = t + step_us \<or> end_us < i64_sat (t + step_us) \<and> end_us < t + step_us"
        using "1.prems"(1-4) by (auto simp: i64_sat_def i64_ok_def)
      have ih: "eval_loop (i64_sat (t + step_us)) end_us step_us (k + 1) =
        (if k + 1 + eval_count (i64_sat (t + step_us)) end_us step_us \<le> max_range_evals
         then Some (map (\<lambda>i. i64_sat (t + step_us) + int i * step_us)
           [0..<eval_count (i64_sat (t + step_us)) end_us step_us]) else None)"
        using "1.IH" [OF le False "1.prems"(1,2) i64_sat_ok "1.prems"(4)] False by simp
      have cnt: "eval_count (i64_sat (t + step_us)) end_us step_us = eval_count (t + step_us) end_us step_us"
        using next_t by (auto simp: eval_count_def)
      have rest: "map (\<lambda>i. i64_sat (t + step_us) + int i * step_us) [0..<eval_count (t + step_us) end_us step_us] =
        map (\<lambda>i. t + int (Suc i) * step_us) [0..<eval_count (t + step_us) end_us step_us]"
        using next_t by (auto simp: eval_count_def algebra_simps)
      have "map (\<lambda>i. t + int i * step_us) [0..<eval_count t end_us step_us] =
        t # map (\<lambda>i. t + int (Suc i) * step_us) [0..<eval_count (t + step_us) end_us step_us]"
        unfolding step by (simp add: upt_conv_Cons map_Suc_upt [symmetric] comp_def del: upt_Suc)
      then show ?thesis
        using le False ih cnt rest step by (subst eval_loop.simps) simp
    qed
  qed
qed

text \<open>
  (C25) The loop that lists the evaluation times of a range query always ends. With a positive step and
  an end below the largest \<open>i64\<close>, it lists \<open>start\<close>, \<open>start + step\<close>, and so on up to \<open>end\<close>, when these
  are at most 11000 times, and refuses the query otherwise; no time wraps around.
\<close>

theorem eval_times:
  assumes "0 < step_us" "end_us < i64_max" "i64_ok start_us" "i64_ok step_us"
  shows "eval_loop start_us end_us step_us 0 =
    (if eval_count start_us end_us step_us \<le> 11000
     then Some (map (\<lambda>i. start_us + int i * step_us) [0..<eval_count start_us end_us step_us]) else None)"
  using eval_loop_eq [OF assms, of 0] by (simp add: max_range_evals_def)

theorem eval_times_witness:
  "eval_loop 0 60 15 0 = Some [0, 15, 30, 45, 60] \<and> eval_count 0 60 15 = 5"
  using eval_times [of 15 60 0]
  by (simp add: eval_count_def i64_max_def i64_min_def i64_ok_def upt_rec numeral_eq_Suc)

section \<open>Windows\<close>

lemma eval_window_base:
  assumes "lo \<le> t - range_us + 1" "t \<le> hi"
  shows "eval_window range_us t (base_rows (window_join db sel lo hi)) =
    base_rows (window_join db sel (t - range_us + 1) t)"
proof -
  have one: "filter (\<lambda>(sid, ts, v). t - range_us < ts \<and> ts \<le> t)
      (map (\<lambda>s. (st_id s, ts, f64_add v (Num 0))) (filter (\<lambda>s. st_id s = sid \<and> where_holds sel s \<and> lo \<le> ts \<and> ts \<le> hi) ss)) =
    map (\<lambda>s. (st_id s, ts, f64_add v (Num 0)))
      (filter (\<lambda>s. st_id s = sid \<and> where_holds sel s \<and> t - range_us + 1 \<le> ts \<and> ts \<le> t) ss)"
    for sid ts v and ss :: "series_tuple list"
    using assms by (induction ss) auto
  show ?thesis
    unfolding eval_window_def base_rows_def window_join_def map_concat filter_concat map_map
    by (intro arg_cong [where f = concat] map_cong refl) (use one in \<open>auto simp: comp_def\<close>)
qed

lemma window_join_shrink:
  assumes none: "\<forall>x \<in> set (window_join db sel lo hi). fst (snd x) \<noteq> lo"
  shows "window_join db sel lo hi = window_join db sel (lo + 1) hi"
proof -
  have "st_id s = sid \<and> where_holds sel s \<and> lo \<le> ts \<and> ts \<le> hi \<longleftrightarrow>
      st_id s = sid \<and> where_holds sel s \<and> lo + 1 \<le> ts \<and> ts \<le> hi"
    if "(sid, ts, v) \<in> set (db_samples db)" "s \<in> set (db_series db)" for sid ts v s
  proof -
    have "ts \<noteq> lo" if "st_id s = sid \<and> where_holds sel s \<and> lo \<le> ts \<and> ts \<le> hi"
    proof -
      have "s \<in> set (filter (\<lambda>s. st_id s = sid \<and> where_holds sel s \<and> lo \<le> ts \<and> ts \<le> hi) (db_series db))"
        using that \<open>s \<in> _\<close> by simp
      with \<open>(sid, ts, v) \<in> _\<close> have "(s, ts, v) \<in> set (window_join db sel lo hi)"
        unfolding window_join_def set_concat set_map by (intro UN_I [OF imageI]) auto
      with none have "fst (snd (s, ts, v)) \<noteq> lo" by (rule bspec)
      then show ?thesis by simp
    qed
    moreover have "lo \<le> ts \<and> ts \<noteq> lo \<longleftrightarrow> lo + 1 \<le> ts" by auto
    ultimately show ?thesis by blast
  qed
  then have flt: "filter (\<lambda>s. st_id s = sid \<and> where_holds sel s \<and> lo \<le> ts \<and> ts \<le> hi) (db_series db) =
      filter (\<lambda>s. st_id s = sid \<and> where_holds sel s \<and> lo + 1 \<le> ts \<and> ts \<le> hi) (db_series db)"
    if "(sid, ts, v) \<in> set (db_samples db)" for sid ts v
    using that by (intro filter_cong) blast+
  show ?thesis
    unfolding window_join_def
    by (intro arg_cong [where f = concat] map_cong refl) (clarify, rule arg_cong [where f = "map _"], erule flt)
qed

text \<open>
  A range query looks at one microsecond less than the instant query of the same function: at an
  evaluation time \<open>t\<close> it computes what the instant query computes over \<open>[t - range + 1, t]\<close>, so the
  two agree at \<open>t\<close> exactly when no sample lies at \<open>t - range\<close>.
\<close>

theorem range_window_half_open:
  assumes "lo \<le> t - range_us + 1" "t \<le> hi"
  shows "range_rates Q sel range_us op [t] lo hi =
      map (\<lambda>(sid, v). (t, sid, v)) (instant_rates Q sel op (t - range_us + 1) t) \<and>
    ((\<forall>x \<in> set (window_join (qe_db Q) sel (t - range_us) t). fst (snd x) \<noteq> t - range_us) \<longrightarrow>
      range_rates Q sel range_us op [t] lo hi =
        map (\<lambda>(sid, v). (t, sid, v)) (instant_rates Q sel op (t - range_us) t))"
proof (intro conjI impI)
  show eq: "range_rates Q sel range_us op [t] lo hi =
      map (\<lambda>(sid, v). (t, sid, v)) (instant_rates Q sel op (t - range_us + 1) t)"
    by (simp add: range_rates_def instant_rates_def eval_window_base [OF assms])
  assume "\<forall>x \<in> set (window_join (qe_db Q) sel (t - range_us) t). fst (snd x) \<noteq> t - range_us"
  from window_join_shrink [OF this] show "range_rates Q sel range_us op [t] lo hi =
      map (\<lambda>(sid, v). (t, sid, v)) (instant_rates Q sel op (t - range_us) t)"
    unfolding eq instant_rates_def by simp
qed

lemma demo_window:
  "window_join (qe_db demo_env) demo_selector 10 20 =
    [(\<lparr>st_id = 1, st_metric = ''up'', st_labels = [(''job'', ''a'')]\<rparr>, 10, Num 1),
     (\<lparr>st_id = 1, st_metric = ''up'', st_labels = [(''job'', ''a'')]\<rparr>, 20, Num 2)]"
  by (simp add: window_join_def demo_env_def demo_db_def where_holds_def selector_conds_def demo_selector_def
      effective_metric_name_def)

lemma demo_window_later:
  "window_join (qe_db demo_env) demo_selector 11 20 =
    [(\<lparr>st_id = 1, st_metric = ''up'', st_labels = [(''job'', ''a'')]\<rparr>, 20, Num 2)]"
  by (simp add: window_join_def demo_env_def demo_db_def where_holds_def selector_conds_def demo_selector_def
      effective_metric_name_def)

theorem range_window_half_open_witness:
  "range_rates demo_env demo_selector 10 Increase [20] 0 20 = [] \<and>
   instant_rates demo_env demo_selector Increase 10 20 \<noteq> []"
proof
  have "range_rates demo_env demo_selector 10 Increase [20] 0 20 =
      map (\<lambda>(sid, v). (20, sid, v)) (instant_rates demo_env demo_selector Increase 11 20)"
    using range_window_half_open [of 0 20 10 20 demo_env demo_selector Increase] by simp
  also have "instant_rates demo_env demo_selector Increase 11 20 = []"
    by (simp add: instant_rates_def demo_window_later base_rows_def per_series_def by_series_time_def
        bt_group_def bt_push_def List.map_filter_simps)
  finally show "range_rates demo_env demo_selector 10 Increase [20] 0 20 = []" by simp
  show "instant_rates demo_env demo_selector Increase 10 20 \<noteq> []"
    by (simp add: instant_rates_def demo_window base_rows_def per_series_def by_series_time_def
        bt_group_def bt_push_def List.map_filter_simps)
qed

section \<open>Counters\<close>

text \<open>
  Prometheus's \<open>increase\<close> on a window of counter values: the last minus the first, plus the value
  before every reset.
\<close>

fun resets :: "int list \<Rightarrow> int" where
  "resets (a # b # ns) = (if b < a then a else 0) + resets (b # ns)"
| "resets _ = 0"

definition counter_increase :: "int list \<Rightarrow> int" where
  "counter_increase ns = last ns - hd ns + resets ns"

fun int_deltas :: "int option \<Rightarrow> int list \<Rightarrow> int list" where
  "int_deltas prev [] = []"
| "int_deltas prev (n # ns) =
     (case prev of None \<Rightarrow> 0 | Some p \<Rightarrow> if p \<le> n then n - p else n) # int_deltas (Some n) ns"

lemma sum_deltas_prev: "sum_list (int_deltas (Some p) ns) = last (p # ns) - p + resets (p # ns)"
  by (induction ns arbitrary: p) auto

lemma sum_deltas: "ns \<noteq> [] \<Longrightarrow> sum_list (int_deltas None ns) = counter_increase ns"
  by (cases ns) (simp_all add: sum_deltas_prev counter_increase_def)

text \<open>What the engine promises on counters: exact sums below \<open>2 ^ 53\<close>, and the order of the integers.\<close>

abbreviation "int_f64 n \<equiv> Num (of_int n)"

definition exact_on_counters :: "query_env \<Rightarrow> bool" where
  "exact_on_counters Q \<longleftrightarrow>
     (\<forall>ns. ns \<noteq> [] \<longrightarrow> (\<forall>n \<in> set ns. 0 \<le> n) \<longrightarrow> sum_list ns \<le> 2 ^ 53 \<longrightarrow>
        qe_agg Q Sum (map int_f64 ns) = int_f64 (sum_list ns)) \<and>
     (\<forall>a b. qe_cmp Q Ge (int_f64 a) (int_f64 b) \<longleftrightarrow> b \<le> a)"

lemma adjusted_ints:
  assumes "exact_on_counters Q" "\<forall>n \<in> set ns. 0 \<le> n \<and> n \<le> 2 ^ 53" "\<forall>p. prev = Some p \<longrightarrow> 0 \<le> p \<and> p \<le> 2 ^ 53"
  shows "adjusted Q (map_option int_f64 prev) (map int_f64 ns) = map int_f64 (int_deltas prev ns)"
  using assms(2,3)
proof (induction ns arbitrary: prev)
  case Nil
  then show ?case by simp
next
  case (Cons n ns)
  have "reset_delta Q (int_f64 p) (int_f64 n) = int_f64 (if p \<le> n then n - p else n)" if "prev = Some p" for p
  proof -
    have "f64_sub (int_f64 n) (int_f64 p) = int_f64 (n - p)" if "p \<le> n"
    proof -
      have "rnd (of_int (n - p)) = Num (of_int (n - p))"
        using Cons.prems that \<open>prev = Some p\<close> by (intro rnd_int) auto
      then show ?thesis by (cases "p = 0") (auto simp: f64_sub_def)
    qed
    then show ?thesis using assms(1) by (simp add: reset_delta_def exact_on_counters_def)
  qed
  moreover have "adjusted Q (Some (int_f64 n)) (map int_f64 ns) = map int_f64 (int_deltas (Some n) ns)"
    using Cons.IH [of "Some n"] Cons.prems by simp
  ultimately show ?case by (cases prev) simp_all
qed

lemma int_deltas_nonneg:
  "\<forall>n \<in> set ns. 0 \<le> n \<Longrightarrow> \<forall>d \<in> set (int_deltas prev ns). 0 \<le> d"
  by (induction prev ns rule: int_deltas.induct) (auto split: option.splits)

text \<open>
  (C29) On a counter, \<open>increase\<close> is exactly Prometheus's: the last value minus the first plus the value
  before each reset, so it is never negative; and \<open>rate\<close> is the increase per second between the first
  and the last sample. Values and total are whole numbers below \<open>2 ^ 53\<close>.
\<close>

theorem increase_of_counter:
  assumes "exact_on_counters Q" "map snd pts = map int_f64 ns" "\<forall>n \<in> set ns. 0 \<le> n \<and> n \<le> 2 ^ 53"
    "counter_increase ns \<le> 2 ^ 53" "2 \<le> length pts" "fst (hd pts) < fst (last pts)"
  shows "rangefn_value Q Increase pts = Some (int_f64 (counter_increase ns)) \<and> 0 \<le> counter_increase ns \<and>
    rangefn_value Q Rate pts =
      Some (per_second (int_f64 (counter_increase ns)) (fst (last pts) - fst (hd pts)))"
proof -
  have ne: "ns \<noteq> []" using assms(2,5) by auto
  have adj: "adjusted Q None (map snd pts) = map int_f64 (int_deltas None ns)"
    using adjusted_ints [OF assms(1,3), of None] assms(2) by simp
  have nn: "\<forall>d \<in> set (int_deltas None ns). 0 \<le> d" using assms(3) by (intro int_deltas_nonneg) auto
  have ne': "int_deltas None ns \<noteq> []" using ne by (cases ns) auto
  have "total_delta Q pts = int_f64 (counter_increase ns)"
    unfolding total_delta_def adj using assms(1,4) nn ne' sum_deltas [OF ne] by (simp add: exact_on_counters_def)
  moreover have "0 \<le> counter_increase ns"
    unfolding sum_deltas [OF ne, symmetric] using nn by (simp add: sum_list_nonneg)
  ultimately show ?thesis using assms(5,6) by simp
qed

lemma f64_add_ints:
  assumes "0 \<le> a" "0 \<le> b" "a + b \<le> 2 ^ 53"
  shows "f64_add (int_f64 a) (int_f64 b) = int_f64 (a + b)"
proof -
  have "rnd (of_int (a + b)) = Num (of_int (a + b))" using assms by (intro rnd_int) simp
  then show ?thesis by simp
qed

lemma fold_add_ints:
  "0 \<le> a \<Longrightarrow> \<forall>n \<in> set ns. 0 \<le> n \<Longrightarrow> a + sum_list ns \<le> 2 ^ 53 \<Longrightarrow>
     foldl f64_add (int_f64 a) (map int_f64 ns) = int_f64 (a + sum_list ns)"
proof (induction ns arbitrary: a)
  case Nil
  then show ?case by simp
next
  case (Cons n ns)
  have "0 \<le> sum_list ns" using Cons.prems(2) by (simp add: sum_list_nonneg)
  then have "f64_add (int_f64 a) (int_f64 n) = int_f64 (a + n)"
    using Cons.prems by (intro f64_add_ints) auto
  then show ?case using Cons.IH [of "a + n"] Cons.prems by (simp add: add.assoc)
qed

lemma demo_exact: "exact_on_counters demo_env"
  unfolding exact_on_counters_def
proof (intro conjI allI impI)
  fix ns :: "int list" assume a: "ns \<noteq> []" "\<forall>n \<in> set ns. 0 \<le> n" "sum_list ns \<le> 2 ^ 53"
  obtain n ms where ns: "ns = n # ms" using a(1) by (cases ns) auto
  have "0 \<le> sum_list ms" using a(2) by (simp add: ns sum_list_nonneg)
  then have "rnd (of_int n) = int_f64 n" using a by (intro rnd_int) (simp add: ns)
  then have "f64_add NZero (int_f64 n) = int_f64 n" by simp
  then show "qe_agg demo_env Sum (map int_f64 ns) = int_f64 (sum_list ns)"
    using fold_add_ints [of n ms] a by (simp add: demo_env_def f64_sum_def ns)
next
  fix a b :: int
  show "qe_cmp demo_env Ge (int_f64 a) (int_f64 b) \<longleftrightarrow> b \<le> a"
    by (simp add: demo_env_def f64_ge_def f64_le_def) auto
qed

theorem increase_of_counter_witness:
  "rangefn_value demo_env Increase [(0, Num 7), (15, Num 9), (30, Num 2), (45, Num 5)] = Some (Num 7)"
proof -
  have "rangefn_value demo_env Increase [(0, Num 7), (15, Num 9), (30, Num 2), (45, Num 5)] =
      Some (int_f64 (counter_increase [7, 9, 2, 5]))"
    using increase_of_counter [OF demo_exact, of "[(0, Num 7), (15, Num 9), (30, Num 2), (45, Num 5)]" "[7, 9, 2, 5]"]
    by (simp add: counter_increase_def)
  then show ?thesis by (simp add: counter_increase_def)
qed

end
