(* ===== verification/Evaluate_Props.thy ===== *)
theory Evaluate_Props
  imports Evaluate Rangefn_Props
begin

text \<open>
  What holds of every query: it is answered if the engine answers, and its result is well formed
  whatever the path it was computed on.
\<close>

section \<open>Answers\<close>

text \<open>An engine that runs every statement and reads back every timestamp it is given.\<close>

definition engine_answers :: "query_env \<Rightarrow> bool" where
  "engine_answers Q \<longleftrightarrow> (\<forall>tag. qe_fault Q tag = None) \<and>
     (\<forall>us. pe_read_ts (qe_prom Q) (us_to_ts_lit (qe_prom Q) us) \<noteq> None)"

lemma run_stmt_answers [simp]: "engine_answers Q \<Longrightarrow> \<not> isl (run_stmt Q tag lo hi f)"
  unfolding engine_answers_def run_stmt_def by (auto split: option.splits) (metis option.distinct(1))

lemma isl_case: "isl (case r of Inl e \<Rightarrow> Inl e | Inr x \<Rightarrow> Inr (f x)) \<longleftrightarrow> isl r"
  by (cases r) simp_all

lemma isl_map_sum: "isl (map_sum f g r) \<longleftrightarrow> isl r"
  by (cases r) simp_all

named_theorems answer_defs

lemmas instant_answers [answer_defs] =
  run_selector_query_def instant_range_fn_via_sql_def
  instant_aggregate_via_sql_def instant_aggregate_without_via_sql_def
  instant_aggregate_over_rangefn_via_sql_def instant_aggregate_over_rangefn_without_via_sql_def
  instant_topk_via_sql_def instant_topk_without_via_sql_def
  instant_topk_over_rangefn_via_sql_def instant_topk_over_rangefn_without_via_sql_def
  instant_histogram_quantile_via_sql_def scalar_vector_instant_via_sql_def vector_vector_instant_via_sql_def

lemma instant_selector_answers: "engine_answers Q \<Longrightarrow> \<not> isl (instant_selector Q sel t)"
  by (simp add: instant_selector_def isl_case run_selector_query_def)

lemma evaluate_instant_answers:
  assumes "engine_answers Q"
  shows "\<not> isl (evaluate_instant Q e t)"
    and "\<not> isl (binary_instant_eval Q lhs rhs op return_bool t)"
    and "\<not> isl (eval_side_instant Q e t)"
  using assms
proof (induction Q e t and Q lhs rhs op return_bool t and Q e t
    rule: evaluate_instant_binary_instant_eval_eval_side_instant.induct)
  case (1 Q e t)
  then show ?case
    by (subst evaluate_instant.simps)
      (auto simp: instant_selector_answers answer_defs isl_case
        split: option.splits query_kind.splits push_source.splits)
next
  case (2 Q lhs rhs op return_bool t)
  then show ?case
    by (subst binary_instant_eval.simps)
      (cases "scalar_vector_pair lhs rhs"; cases "pure_selector lhs"; cases "pure_selector rhs";
        auto simp: answer_defs split: sum.splits; blast?)
next
  case (3 Q e t)
  then show ?case
    by (subst eval_side_instant.simps) (auto simp: isl_map_sum split: expr.splits)
qed

text \<open>Over a range, the statements with evaluation times also refuse more than 11000 of them.\<close>

definition refuses_only :: "prom_error + 'a \<Rightarrow> bool" where
  "refuses_only r \<longleftrightarrow> (\<forall>err. r = Inl err \<longrightarrow> err = too_many_evals)"

lemma refuses_only_Inr [simp]: "refuses_only (Inr x)"
  by (simp add: refuses_only_def)

lemma refuses_only_Inl [simp]: "refuses_only (Inl err) \<longleftrightarrow> err = too_many_evals"
  by (simp add: refuses_only_def)

lemma refuses_only_not_isl: "\<not> isl r \<Longrightarrow> refuses_only r"
  by (cases r) simp_all

lemma refuses_only_run [simp]: "engine_answers Q \<Longrightarrow> refuses_only (run_stmt Q tag lo hi f)"
  by (intro refuses_only_not_isl run_stmt_answers)

lemma refuses_only_map [simp]:
  "refuses_only (map_sum (\<lambda>err. err) g r) \<longleftrightarrow> refuses_only r"
  "refuses_only (case r of Inl err \<Rightarrow> Inl err | Inr x \<Rightarrow> Inr (h x)) \<longleftrightarrow> refuses_only r"
  by (cases r; simp add: refuses_only_def)+

lemma refuses_only_both:
  "refuses_only l \<Longrightarrow> refuses_only r \<Longrightarrow>
     refuses_only (case l of Inl err \<Rightarrow> Inl err | Inr x \<Rightarrow> (case r of Inl err \<Rightarrow> Inl err | Inr y \<Rightarrow> Inr (h x y)))"
  by (cases l; cases r; simp add: refuses_only_def)

lemma refuses_only_evals [simp]: "engine_answers Q \<Longrightarrow> refuses_only (with_evals Q tag r s e step f)"
  by (cases "eval_loop s e step 0") (simp_all add: with_evals_def)

lemmas range_answers [answer_defs] =
  range_range_fn_via_sql_def range_aggregate_via_sql_def range_aggregate_without_via_sql_def
  range_aggregate_over_rangefn_via_sql_def range_aggregate_over_rangefn_without_via_sql_def
  range_topk_via_sql_def range_topk_without_via_sql_def
  range_topk_over_rangefn_via_sql_def range_topk_over_rangefn_without_via_sql_def
  range_histogram_quantile_via_sql_def scalar_vector_range_via_sql_def vector_vector_range_via_sql_def

lemma range_selector_answers: "engine_answers Q \<Longrightarrow> refuses_only (range_selector Q sel lo hi)"
  by (simp add: range_selector_def run_selector_query_def)

lemma evaluate_range_answers:
  assumes "engine_answers Q"
  shows "refuses_only (evaluate_range Q e s f step)"
    and "refuses_only (binary_range_eval Q lhs rhs op return_bool s f step)"
    and "refuses_only (eval_side_range Q e s f step)"
  using assms
proof (induction Q e s f step and Q lhs rhs op return_bool s f step and Q e s f step
    rule: evaluate_range_binary_range_eval_eval_side_range.induct)
  case (1 Q e s f step)
  then show ?case
    by (subst evaluate_range.simps)
      (simp add: range_selector_answers answer_defs split: option.split query_kind.split push_source.split)
next
  case (2 Q lhs rhs op return_bool s f step)
  show ?case
  proof (cases "scalar_vector_pair lhs rhs = None \<and> (pure_selector lhs = None \<or> pure_selector rhs = None)")
    case True
    have "refuses_only (eval_side_range Q lhs s f step)"
      using "2.IH"(1) [OF _ refl] "2.IH"(3) [OF _ refl] True "2.prems" by (cases "pure_selector lhs") auto
    moreover have "refuses_only (eval_side_range Q rhs s f step)" if "eval_side_range Q lhs s f step = Inr l" for l
      using "2.IH"(2) [OF _ refl] "2.IH"(4) [OF _ refl] True that "2.prems" by (cases "pure_selector lhs") auto
    ultimately show ?thesis using True
      by (subst binary_range_eval.simps)
        (cases "pure_selector lhs"; cases "eval_side_range Q lhs s f step"; simp add: refuses_only_both)
  next
    case False
    then show ?thesis using "2.prems"
      by (subst binary_range_eval.simps) (auto simp: answer_defs split: option.split)
  qed
next
  case (3 Q e s f step)
  then show ?case by (subst eval_side_range.simps) (auto split: expr.splits)
qed

text \<open>
  (C24) Every instant query is answered: with an engine that runs its statements, a query that parses,
  at a time that reads, gets a \<open>success\<close> vector, however deep the expression is; only bad parameters
  are errors, and those are answered with status 400.
\<close>

theorem instant_query_answered:
  assumes "engine_answers Q"
  shows "(\<exists>pts. instant_query_inner Q p = Inr (success_vector (instant_points_to_json (qe_prom Q) pts))) \<or>
    (\<exists>err. instant_query_inner Q p = Inl err \<and> pr_status err = BadRequest400 \<and>
       ((\<exists>s. qp_time p = Some s \<and> parse_timestamp (qe_prom Q) s = Inl err) \<or>
        (\<exists>msg. pe_parse (qe_prom Q) (qp_query p) = Inl msg)))"
proof -
  have "\<exists>pts. evaluate_instant Q e t = Inr pts" for e t
    using evaluate_instant_answers(1) [OF assms, of e t] by (cases "evaluate_instant Q e t") simp_all
  moreover have "pr_status err = BadRequest400" if "parse_timestamp (qe_prom Q) s = Inl err" for s err
    using that by (auto simp: parse_timestamp_def bad_data_def split: option.splits)
  ultimately show ?thesis
    unfolding instant_query_inner_def
    by (cases "qp_time p"; cases "pe_parse (qe_prom Q) (qp_query p)")
      (auto simp: bad_data_def split: sum.splits, (metis map_sum.simps(2) sum.distinct(1))+)
qed

text \<open>
  (C33) A range query is answered with a \<open>success\<close> matrix, or with an error of status 400, for bad
  parameters or more than 11000 evaluation times, or, only when the engine fails a statement or does not
  read back a timestamp, with an error of status 500; the one other outcome is the panic of a step that
  ends in a character of several bytes.
\<close>

theorem range_query_answered:
  "(\<exists>ss. range_query_inner Q p = Returns (Inr (success_matrix (range_points_to_json (qe_prom Q) ss)))) \<or>
    (\<exists>err. range_query_inner Q p = Returns (Inl err) \<and> pr_status err = BadRequest400) \<or>
    (\<exists>err. range_query_inner Q p = Returns (Inl err) \<and> pr_status err = InternalServerError500 \<and> \<not> engine_answers Q) \<or>
    (range_query_inner Q p = Panicked \<and> parse_duration_us (qr_step p) = Panicked)"
proof -
  have ts: "pr_status err = BadRequest400" if "parse_timestamp (qe_prom Q) s = Inl err" for s err
    using that by (auto simp: parse_timestamp_def bad_data_def split: option.splits)
  have dur: "pr_status err = BadRequest400" if "parse_duration_us s = Returns (Inl err)" for s err
    using that by (auto simp: parse_duration_us_def bad_data_def Let_def split: option.splits if_splits)
  have ev: "pr_status err = BadRequest400 \<or> pr_status err = InternalServerError500 \<and> \<not> engine_answers Q"
    if "evaluate_range Q e a b c = Inl err" for e a b c err
    using evaluate_range_answers(1) [of Q e a b c] that
    by (cases "pr_status err") (auto simp: refuses_only_def too_many_evals_def bad_data_def)
  have out: "(\<exists>ss. map_sum (\<lambda>err. err) (\<lambda>ss. success_matrix (range_points_to_json (qe_prom Q) ss)) (evaluate_range Q e a b c) =
      Inr (success_matrix (range_points_to_json (qe_prom Q) ss))) \<or>
    (\<exists>err. map_sum (\<lambda>err. err) (\<lambda>ss. success_matrix (range_points_to_json (qe_prom Q) ss)) (evaluate_range Q e a b c) =
      Inl err \<and> pr_status err = BadRequest400) \<or>
    (\<exists>err. map_sum (\<lambda>err. err) (\<lambda>ss. success_matrix (range_points_to_json (qe_prom Q) ss)) (evaluate_range Q e a b c) =
      Inl err \<and> pr_status err = InternalServerError500 \<and> \<not> engine_answers Q)" for e a b c
    using ev [of e a b c] by (cases "evaluate_range Q e a b c") auto
  show ?thesis
    unfolding range_query_inner_def using out
    by (auto simp: bad_data_def dest: ts dur split: sum.split may_panic.split)
qed

lemma demo_answers: "engine_answers demo_env"
  by (simp add: engine_answers_def demo_env_def demo_prom_def)

theorem instant_query_answered_witness:
  "\<exists>pts. instant_query_inner demo_env \<lparr>qp_query = ''a'', qp_time = None\<rparr> =
     Inr (success_vector (instant_points_to_json demo_prom pts))"
  using instant_query_answered [OF demo_answers, of "\<lparr>qp_query = ''a'', qp_time = None\<rparr>"]
  by (auto simp: demo_env_def demo_prom_def)

theorem range_query_answered_witness:
  "range_query_inner demo_env \<lparr>qr_query = ''a'', qr_start = ''0'', qr_end = ''60'', qr_step = dec_of_nat 15\<rparr> \<noteq> Panicked"
  using range_query_answered [of demo_env "\<lparr>qr_query = ''a'', qr_start = ''0'', qr_end = ''60'', qr_step = dec_of_nat 15\<rparr>"]
  by (auto simp: demo_answers parse_duration_us_def f64_of_string_dec_of_nat)

end
