(* ===== verification/Pushdown_Agg_Props.thy ===== *)
theory Pushdown_Agg_Props
  imports Pushdown_Agg Selector_Props
begin

text \<open>
  The aggregation statements compared with the Rust path they replace: when the two agree, and where
  the statement answers something else.
\<close>

section \<open>Regular expressions\<close>

definition is_regex :: "match_op \<Rightarrow> bool" where
  "is_regex op = (case op of MRe _ \<Rightarrow> True | MNotRe _ \<Rightarrow> True | _ \<Rightarrow> False)"

definition without_regex :: "vector_selector \<Rightarrow> vector_selector" where
  "without_regex sel = sel\<lparr>vsel_matchers := filter (\<lambda>m. \<not> is_regex (mt_op m)) (vsel_matchers sel)\<rparr>"

lemma selector_conds_without_regex [simp]: "selector_conds (without_regex sel) = selector_conds sel"
proof -
  let ?name = "\<lambda>m. mt_name m = ''__name__'' \<and> (case mt_op m of MEqual \<Rightarrow> True | _ \<Rightarrow> False)"
  let ?cond = "\<lambda>m. if mt_name m = ''__name__'' then []
       else (case mt_op m of
               MEqual \<Rightarrow> [LabelIs (mt_name m) (mt_value m)]
             | MNotEqual \<Rightarrow> [LabelIsNot (mt_name m) (mt_value m)]
             | _ \<Rightarrow> [])"
  have n: "find ?name (filter (\<lambda>m. \<not> is_regex (mt_op m)) ms) = find ?name ms" for ms
    by (rule find_filter) (auto simp: is_regex_def split: match_op.splits)
  have c: "concat (map ?cond (filter (\<lambda>m. \<not> is_regex (mt_op m)) ms)) = concat (map ?cond ms)" for ms
    by (rule concat_map_filter) (auto simp: is_regex_def split: match_op.splits)
  have ms: "vsel_matchers (without_regex sel) = filter (\<lambda>m. \<not> is_regex (mt_op m)) (vsel_matchers sel)"
    "vsel_name (without_regex sel) = vsel_name sel"
    by (simp_all add: without_regex_def)
  show ?thesis unfolding selector_conds_def effective_metric_name_def ms n c ..
qed

lemma window_join_without_regex [simp]: "window_join db (without_regex sel) lo hi = window_join db sel lo hi"
  by (simp add: window_join_def where_holds_def)

lemma latest_samples_without_regex [simp]: "latest_samples db (without_regex sel) lo hi = latest_samples db sel lo hi"
  by (simp add: latest_samples_def)

lemma instant_rates_without_regex [simp]: "instant_rates Q (without_regex sel) op lo hi = instant_rates Q sel op lo hi"
  by (simp add: instant_rates_def)

lemma range_rates_without_regex [simp]:
  "range_rates Q (without_regex sel) r op evals lo hi = range_rates Q sel r op evals lo hi"
  by (simp add: range_rates_def)

text \<open>
  An aggregation over a selector or over a range function ignores the selector's regular
  expressions: it returns what it returns with the \<open>=~\<close> and \<open>!~\<close> matchers removed, at an instant and
  over a range, although the same selector without the aggregation is filtered by them.
\<close>

theorem aggregate_ignores_regex:
  "instant_aggregate_via_sql Q sel op modi t = instant_aggregate_via_sql Q (without_regex sel) op modi t \<and>
   range_aggregate_via_sql Q sel op modi lo hi = range_aggregate_via_sql Q (without_regex sel) op modi lo hi \<and>
   instant_aggregate_over_rangefn_via_sql Q sel r f op modi t =
     instant_aggregate_over_rangefn_via_sql Q (without_regex sel) r f op modi t \<and>
   range_aggregate_over_rangefn_via_sql Q sel r f op modi lo hi step =
     range_aggregate_over_rangefn_via_sql Q (without_regex sel) r f op modi lo hi step"
  unfolding instant_aggregate_via_sql_def range_aggregate_via_sql_def instant_aggregate_over_rangefn_via_sql_def
    range_aggregate_over_rangefn_via_sql_def instant_aggregate_without_via_sql_def range_aggregate_without_via_sql_def
    instant_aggregate_over_rangefn_without_via_sql_def range_aggregate_over_rangefn_without_via_sql_def
  by (simp cong: option.case_cong)

section \<open>Nothing to count\<close>

text \<open>
  With no sample in the window, \<open>count(metric)\<close> answers one point with the value 0, while
  aggregating the empty vector in Rust, as PromQL does, answers none; the other aggregations answer
  none on both paths.
\<close>

theorem count_of_nothing:
  assumes "qe_fault Q ''aggregate'' = None" "reads_back Q (i64_wrap (t - lookback_us))" "reads_back Q t"
    "window_join (qe_db Q) sel (i64_wrap (t - lookback_us)) t = []"
  shows "instant_aggregate_via_sql Q sel op None t = Inr (if op = Count then [nameless [] t (Num 0)] else []) \<and>
    aggregate_instant_points [] op None t = []"
  using assms
  by (simp add: instant_aggregate_via_sql_def modifier_excluded_keys_def aggregate_group_keys_def run_stmt_def
      reads_back_def latest_samples_def bt_group_def join_series_def instant_by_def group_by_keys_def
      kept_agg_def agg_call_sql_def key_labels_def bt_collect_def List.map_filter_simps
      aggregate_instant_points_def f64_of_int_def)

theorem count_of_nothing_witness:
  "instant_aggregate_via_sql demo_env \<lparr>vsel_name = Some ''down'', vsel_matchers = []\<rparr> Count None lookback_us =
     Inr [nameless [] lookback_us (Num 0)]"
proof -
  let ?sel = "\<lparr>vsel_name = Some ''down'', vsel_matchers = []\<rparr>"
  have "window_join (qe_db demo_env) ?sel lo hi = []" for lo hi
    by (simp add: window_join_def demo_env_def demo_db_def where_holds_def selector_conds_def
        effective_metric_name_def)
  moreover have "qe_fault demo_env ''aggregate'' = None" by (simp add: demo_env_def)
  moreover have "i64_wrap (lookback_us - lookback_us) = 0" by (simp add: i64_wrap_def)
  moreover have "0 \<le> lookback_us" by (simp add: lookback_us_def)
  ultimately show ?thesis
    using count_of_nothing [of demo_env lookback_us ?sel Count] by (simp add: demo_reads_back)
qed

section \<open>Series without labels\<close>

text \<open>Series ids are keys of the series table.\<close>

definition ids_unique :: "database \<Rightarrow> bool" where
  "ids_unique db \<longleftrightarrow> distinct (map st_id (db_series db))"

lemma ids_unique_filter:
  assumes "ids_unique db" "s \<in> set (db_series db)"
  shows "filter (\<lambda>s'. st_id s' = st_id s) (db_series db) = [s]"
  using filter_one_id [of "db_series db" s "\<lambda>_. True"] assms by (simp add: ids_unique_def)

lemma min_list_mem: "xs \<noteq> [] \<Longrightarrow> min_list xs \<in> set xs" for xs :: "int list"
  by (induction xs rule: min_list.induct) (auto simp: min_def split: list.splits)

lemma mem_bt_collect:
  assumes "bt_wf m" "(k, v) \<in> set m"
  shows "(k, v) \<in> set (bt_collect m)"
  using assms by (simp add: bt_collect_id)

lemma group_key_some:
  assumes "group_key (map (\<lambda>s. (st_id s, st_labels s)) (db_series db)) ex sid \<noteq> None"
  shows "\<exists>s \<in> set (db_series db). st_id s = sid \<and> (\<exists>(k, v) \<in> set (st_labels s). k \<notin> set ex)"
  using assms by (auto simp: group_key_def Let_def filter_empty_conv split: if_splits)

lemma join_gk_keyed:
  "x \<in> set (join_gk db ex rows) \<Longrightarrow>
     group_key (map (\<lambda>s. (st_id s, st_labels s)) (db_series db)) ex (fst (snd x)) \<noteq> None"
  by (auto simp: join_gk_def set_map_filter split: prod.splits)

lemma rep_labels_nonempty:
  assumes "ids_unique db" "db_wf db" "lbls \<in> set (rep_labels db ex sids)" "sids \<noteq> []"
    "\<forall>sid \<in> set sids. group_key (map (\<lambda>s. (st_id s, st_labels s)) (db_series db)) ex sid \<noteq> None"
  shows "lbls \<noteq> []"
proof -
  obtain s where s: "s \<in> set (db_series db)" "st_id s = min_list sids"
    and l: "lbls = drop_labels ex (labels_to_btree (st_labels s))"
    using assms(3) by (auto simp: rep_labels_def)
  have "group_key (map (\<lambda>s. (st_id s, st_labels s)) (db_series db)) ex (min_list sids) \<noteq> None"
    using assms(5) min_list_mem [OF assms(4)] by blast
  then obtain s' k v where s': "s' \<in> set (db_series db)" "st_id s' = min_list sids" "(k, v) \<in> set (st_labels s')" "k \<notin> set ex"
    using group_key_some by blast
  have "s' = s" using ids_unique_filter [OF assms(1) s(1)] ids_unique_filter [OF assms(1) s'(1)] s(2) s'(2) by simp
  with s' s assms(2) have "(k, v) \<in> set (labels_to_btree (st_labels s))"
    unfolding labels_to_btree_def db_wf_def by (intro mem_bt_collect) auto
  with s'(4) show ?thesis by (auto simp: l drop_labels_def filter_empty_conv)
qed

text \<open>
  \<open>without (...)\<close> drops the series none of whose labels is left: no point of its answer has an
  empty label set, for the inner join with the key table removes them in spite of the \<open>COALESCE\<close>; the
  same aggregation in Rust has a point for them.
\<close>

theorem without_drops_unlabelled:
  assumes "instant_aggregate_without_via_sql Q sel op ex t = Inr pts" "ids_unique (qe_db Q)" "db_wf (qe_db Q)"
    "x \<in> set inner" "retained_labels (ip_labels x) (Some (Exclude ex)) = []"
  shows "(\<forall>p \<in> set pts. ip_labels p \<noteq> []) \<and>
    (\<exists>p \<in> set (aggregate_instant_points inner op (Some (Exclude ex)) t). ip_labels p = [])"
proof
  let ?gk = "group_key (map (\<lambda>s. (st_id s, st_labels s)) (db_series (qe_db Q))) ex"
  have "ip_labels p \<noteq> []" if p: "p \<in> set (instant_without Q keep op ex t rows)" for p keep rows
  proof -
    obtain g ms v lbls where g: "(g, ms) \<in> set (bt_group fst snd (join_gk (qe_db Q) ex rows))"
      and l: "lbls \<in> set (rep_labels (qe_db Q) ex (map fst ms))" "p = nameless lbls t v"
      using p by (fastforce simp: instant_without_def split: option.splits)
    have "ms \<noteq> []" using g by (rule bt_group_nonempty)
    moreover have "\<forall>sid \<in> set (map fst ms). ?gk sid \<noteq> None"
      using g join_gk_keyed [of _ "qe_db Q" ex rows] by (fastforce simp: bt_group_mem)
    ultimately have "lbls \<noteq> []" using rep_labels_nonempty [OF assms(2,3) l(1)] by simp
    then show ?thesis by (simp add: l(2) nameless_def)
  qed
  then show "\<forall>p \<in> set pts. ip_labels p \<noteq> []"
    using assms(1) by (auto simp: instant_aggregate_without_via_sql_def run_stmt_def split: option.splits)
  have "[] \<in> fst ` set (bt_group (\<lambda>p. retained_labels (ip_labels p) (Some (Exclude ex))) ip_value inner)"
    using assms(4,5) by (force simp: bt_group_keys)
  then show "\<exists>p \<in> set (aggregate_instant_points inner op (Some (Exclude ex)) t). ip_labels p = []"
    by (force simp: aggregate_instant_points_def)
qed

theorem without_drops_unlabelled_witness:
  "\<exists>pts. instant_aggregate_without_via_sql demo_env demo_selector Sum [''job''] lookback_us = Inr pts \<and>
     (\<forall>p \<in> set pts. ip_labels p \<noteq> [])"
proof -
  let ?pts = "instant_without demo_env (\<lambda>_. True) Sum [''job''] lookback_us
      (latest_samples (qe_db demo_env) demo_selector 0 lookback_us)"
  let ?x = "nameless [(''job'', ''a'')] 20 (Num 2)"
  have "instant_aggregate_without_via_sql demo_env demo_selector Sum [''job''] lookback_us = Inr ?pts"
    unfolding instant_aggregate_without_via_sql_def
    by (subst demo_run_stmt) (simp_all add: lookback_us_def i64_wrap_def)
  moreover have "ids_unique (qe_db demo_env)" by (simp add: ids_unique_def demo_env_def demo_db_def)
  moreover have "retained_labels (ip_labels ?x) (Some (Exclude [''job''])) = []"
    by (simp add: retained_labels_def nameless_def)
  ultimately show ?thesis
    using without_drops_unlabelled [of demo_env demo_selector Sum "[''job'']" lookback_us ?pts ?x "[?x]"] demo_db_wf
    by simp
qed

end
