(* ===== verification/Pushdown_Groups.thy ===== *)
theory Pushdown_Groups
  imports Pushdown_Agg_Props
begin

text \<open>
  The groups of the aggregation and ranking statements: by the labels that a modifier keeps, which
  \<open>by (...)\<close> reads from the map of labels and \<open>without (...)\<close> from the text of the labels that are left.
\<close>

section \<open>Tables that tell their series apart\<close>

abbreviation "tuple_key s \<equiv> series_key (st_metric s) (st_labels s)"

text \<open>A table as the flusher fills it: ids and keys tell its series apart.\<close>

definition series_table_ok :: "database \<Rightarrow> bool" where
  "series_table_ok db \<longleftrightarrow> ids_unique db \<and> db_wf db \<and> inj_on tuple_key (set (db_series db))"

lemma inj_st_id: "ids_unique db \<Longrightarrow> inj_on st_id (set (db_series db))"
  by (simp add: ids_unique_def distinct_map)

lemma join_series_wf:
  assumes "db_wf db" "(s, b) \<in> set (join_series db rows)"
  shows "bt_wf (st_labels s)"
  using assms by (auto simp: join_series_def db_wf_def)

lemma join_series_from: "x \<in> set (join_series db rows) \<Longrightarrow> fst x \<in> set (db_series db)"
  by (auto simp: join_series_def)

lemma join_series_back:
  assumes "ids_unique db" "\<forall>x \<in> set ys. fst x \<in> set (db_series db)"
  shows "join_series db (map (\<lambda>(s, v). (st_id s, v)) ys) = ys"
  using assms(2) ids_unique_filter [OF assms(1)] by (induction ys) (auto simp: join_series_def)

text \<open>The series that the \<open>WHERE\<close> clause of a selector picks, and rows of theirs.\<close>

definition picked :: "database \<Rightarrow> vector_selector \<Rightarrow> series_tuple set" where
  "picked db sel = {s \<in> set (db_series db). where_holds sel s}"

lemma join_series_picked:
  assumes "ids_unique db" "fst ` set rows \<subseteq> st_id ` picked db sel"
  shows "map (\<lambda>(s, b). (st_id s, b)) (join_series db rows) = rows" "fst ` set (join_series db rows) \<subseteq> picked db sel"
proof -
  have "map (\<lambda>(s, b). (st_id s, b)) (join_series db rows) = rows \<and> fst ` set (join_series db rows) \<subseteq> picked db sel"
    using assms(2)
  proof (induction rows)
    case (Cons r rows)
    then obtain s where s: "s \<in> picked db sel" "st_id s = fst r" by auto
    then have "filter (\<lambda>s'. st_id s' = fst r) (db_series db) = [s]"
      using ids_unique_filter [OF assms(1), of s] by (simp add: picked_def)
    then have "join_series db (r # rows) = (s, snd r) # join_series db rows"
      by (simp add: join_series_def case_prod_unfold)
    with s Cons show ?case by simp
  qed (simp add: join_series_def)
  then show "map (\<lambda>(s, b). (st_id s, b)) (join_series db rows) = rows" "fst ` set (join_series db rows) \<subseteq> picked db sel"
    by simp_all
qed

section \<open>The labels that \<open>by\<close> keeps\<close>

definition keep_keys :: "string list \<Rightarrow> labels \<Rightarrow> labels" where
  "keep_keys ks lbls = filter (\<lambda>(k, v). k \<in> set ks) lbls"

lemma map_of_keep: "map_of (keep_keys ks lbls) k = (if k \<in> set ks then map_of lbls k else None)"
  unfolding keep_keys_def by (induction lbls) auto

lemma map_of_present:
  "map_of (concat (map (\<lambda>k. case g k of Some w \<Rightarrow> [(k, w)] | None \<Rightarrow> []) ks)) k =
     (if k \<in> set ks then g k else None)"
  by (induction ks) (auto split: option.splits)

lemma rev_concat_singletons:
  "rev (concat (map (\<lambda>k. case g k of Some w \<Rightarrow> [(k, w)] | None \<Rightarrow> []) ks)) =
     concat (map (\<lambda>k. case g k of Some w \<Rightarrow> [(k, w)] | None \<Rightarrow> []) (rev ks))"
  by (induction ks) (auto split: option.splits)

lemma key_labels_values:
  assumes "bt_wf (st_labels s)"
  shows "key_labels ks (key_values ks s) = keep_keys ks (st_labels s)"
proof -
  let ?g = "map_of (st_labels s)"
  have z: "concat (map (\<lambda>(k, v). case v of Some w \<Rightarrow> [(k, w)] | None \<Rightarrow> []) (zip ks (map ?g ks))) =
      concat (map (\<lambda>k. case ?g k of Some w \<Rightarrow> [(k, w)] | None \<Rightarrow> []) ks)"
    by (induction ks) auto
  show ?thesis
  proof (rule bt_ext)
    show "bt_wf (key_labels ks (key_values ks s))" by (simp add: key_labels_def bt_wf_collect)
    show "bt_wf (keep_keys ks (st_labels s))" unfolding keep_keys_def using assms by (rule bt_wf_filter)
    show "map_of (key_labels ks (key_values ks s)) = map_of (keep_keys ks (st_labels s))"
      unfolding key_labels_def key_values_def z
      by (auto simp: fun_eq_iff map_of_bt_collect rev_concat_singletons map_of_present map_of_keep)
  qed
qed

lemma key_values_eq_iff:
  assumes "bt_wf (st_labels s)" "bt_wf (st_labels s')"
  shows "key_values ks s = key_values ks s' \<longleftrightarrow> keep_keys ks (st_labels s) = keep_keys ks (st_labels s')"
proof
  assume "key_values ks s = key_values ks s'"
  then show "keep_keys ks (st_labels s) = keep_keys ks (st_labels s')"
    using key_labels_values assms by metis
next
  assume eq: "keep_keys ks (st_labels s) = keep_keys ks (st_labels s')"
  have "map_of (st_labels s) k = map_of (st_labels s') k" if "k \<in> set ks" for k
    using map_of_keep [of ks "st_labels s" k] map_of_keep [of ks "st_labels s'" k] eq that by simp
  then show "key_values ks s = key_values ks s'" by (simp add: key_values_def)
qed

lemma retained_by_keys:
  "modifier_excluded_keys modi = None \<Longrightarrow> retained_labels lbls modi = keep_keys (aggregate_group_keys modi) lbls"
  by (auto simp: modifier_excluded_keys_def retained_labels_def keep_keys_def aggregate_group_keys_def
      split: option.splits label_modifier.splits)

section \<open>The text of the labels that \<open>without\<close> leaves\<close>

definition label_text :: "labels \<Rightarrow> string" where
  "label_text lbls = join_with '','' (map (\<lambda>(k, v). k @ ''='' @ v) lbls)"

lemma retained_without:
  "modifier_excluded_keys modi = Some ex \<Longrightarrow> retained_labels lbls modi = drop_labels ex lbls"
  by (auto simp: modifier_excluded_keys_def retained_labels_def drop_labels_def
      split: option.splits label_modifier.splits)

text \<open>
  When \<open>without\<close> groups as PromQL does: every series that the selector picks keeps a label, and the text
  of the labels that are left tells them apart. There is no such condition for the other modifiers.
\<close>

definition remaining_tell :: "database \<Rightarrow> vector_selector \<Rightarrow> label_modifier option \<Rightarrow> bool" where
  "remaining_tell db sel modi \<longleftrightarrow>
     (case modi of
        Some (Exclude ex) \<Rightarrow>
          (\<forall>s \<in> picked db sel. retained_labels (st_labels s) modi \<noteq> []) \<and>
          (\<forall>s \<in> picked db sel. \<forall>s' \<in> picked db sel.
             label_text (retained_labels (st_labels s) modi) = label_text (retained_labels (st_labels s') modi) \<longrightarrow>
             retained_labels (st_labels s) modi = retained_labels (st_labels s') modi)
      | _ \<Rightarrow> True)"

abbreviation "rest_text ex s \<equiv> label_text (drop_labels ex (st_labels s))"

lemma remaining_tell_without:
  assumes "remaining_tell db sel modi" "modifier_excluded_keys modi = Some ex" "s \<in> picked db sel" "s' \<in> picked db sel"
  shows "drop_labels ex (st_labels s) \<noteq> []"
    "rest_text ex s = rest_text ex s' \<longleftrightarrow> drop_labels ex (st_labels s) = drop_labels ex (st_labels s')"
proof -
  have "modi = Some (Exclude ex)"
    using assms(2) by (auto simp: modifier_excluded_keys_def split: option.splits label_modifier.splits)
  with assms(1,3,4) show "drop_labels ex (st_labels s) \<noteq> []"
    "rest_text ex s = rest_text ex s' \<longleftrightarrow> drop_labels ex (st_labels s) = drop_labels ex (st_labels s')"
    unfolding remaining_tell_def retained_without [OF assms(2)] by auto
qed

lemma group_key_rest:
  assumes "ids_unique db" "db_wf db" "s \<in> set (db_series db)" "drop_labels ex (st_labels s) \<noteq> []"
  shows "group_key (map (\<lambda>s. (st_id s, st_labels s)) (db_series db)) ex (st_id s) = Some (rest_text ex s)"
proof -
  have "filter (\<lambda>r. fst r = st_id s) (map (\<lambda>s. (st_id s, st_labels s)) (db_series db)) = [(st_id s, st_labels s)]"
    using ids_unique_filter [OF assms(1,3)] by (simp add: filter_map comp_def)
  moreover have "bt_wf (drop_labels ex (st_labels s))"
    using assms(2,3) unfolding drop_labels_def by (auto intro: bt_wf_filter simp: db_wf_def)
  then have "sort_key fst (drop_labels ex (st_labels s)) = drop_labels ex (st_labels s)"
    by (intro sort_key_id_if_sorted) (simp add: bt_wf_def strict_sorted_iff)
  ultimately show ?thesis using assms(4) by (simp add: group_key_def label_text_def drop_labels_def)
qed

text \<open>The join with the key table keeps every row, under its text.\<close>

lemma join_gk_texts:
  assumes "ids_unique db" "db_wf db" "\<forall>x \<in> set J. fst x \<in> set (db_series db) \<and> drop_labels ex (st_labels (fst x)) \<noteq> []"
  shows "join_gk db ex (map (\<lambda>(s, b). (st_id s, b)) J) = map (\<lambda>(s, b). (rest_text ex s, st_id s, b)) J"
  using assms(3)
proof (induction J)
  case (Cons x J)
  then have "group_key (map (\<lambda>s. (st_id s, st_labels s)) (db_series db)) ex (st_id (fst x)) = Some (rest_text ex (fst x))"
    by (intro group_key_rest [OF assms(1,2)]) simp_all
  with Cons show ?case by (cases x) (simp add: join_gk_def List.map_filter_simps)
qed (simp add: join_gk_def List.map_filter_simps)

text \<open>The series that stands for a group shows the labels that all of the group keep.\<close>

lemma rep_labels_group:
  assumes "ids_unique db" "db_wf db" "sids \<noteq> []"
    "\<forall>sid \<in> set sids. \<exists>s \<in> set (db_series db). st_id s = sid \<and> drop_labels ex (st_labels s) = L"
  shows "rep_labels db ex sids = [L]"
proof -
  obtain s where s: "s \<in> set (db_series db)" "st_id s = min_list sids" "drop_labels ex (st_labels s) = L"
    using min_list_mem [OF assms(3)] assms(4) by blast
  have "labels_to_btree (st_labels s) = st_labels s"
    using assms(2) s(1) by (simp add: labels_to_btree_def db_wf_def bt_collect_id)
  with s show ?thesis
    using ids_unique_filter [OF assms(1) s(1)] by (simp add: rep_labels_def)
qed

section \<open>One point per group\<close>

lemma agg_call_sql_some: "vs \<noteq> [] \<Longrightarrow> agg_call_sql Q op vs \<noteq> None"
  by (simp add: agg_call_sql_def)

lemma kept_agg_some: "vs \<noteq> [] \<Longrightarrow> kept_agg Q (\<lambda>_. True) op vs = Some (the (agg_call_sql Q op vs))"
  using agg_call_sql_some [of vs Q op] by (auto simp: kept_agg_def)

text \<open>
  Labelled values grouped by what \<open>h\<close> makes of the labels: one point for each group, its value the
  engine's aggregate of exactly the group's values.
\<close>

definition grouped_as :: "query_env \<Rightarrow> agg_op \<Rightarrow> (labels \<Rightarrow> labels) \<Rightarrow> (labels \<times> f64) list \<Rightarrow> instant_point list \<Rightarrow> bool" where
  "grouped_as Q op h xs pts \<longleftrightarrow>
     distinct (map ip_labels pts) \<and>
     ip_labels ` set pts = (\<lambda>x. h (fst x)) ` set xs \<and>
     (\<forall>p \<in> set pts. \<exists>vs.
        mset vs = mset (map snd (filter (\<lambda>x. h (fst x) = ip_labels p) xs)) \<and>
        agg_call_sql Q op vs = Some (ip_value p))"

lemma grouped_as_mset: "mset xs = mset ys \<Longrightarrow> grouped_as Q op h xs pts \<longleftrightarrow> grouped_as Q op h ys pts"
proof -
  assume eq: "mset xs = mset ys"
  have "set xs = set ys" using eq by (rule mset_eq_setD)
  moreover have "mset (map snd (filter P xs)) = mset (map snd (filter P ys))" for P
    using eq by simp
  ultimately show ?thesis by (simp add: grouped_as_def)
qed

lemma grouped_as_points:
  fixes J :: "(series_tuple \<times> f64) list" and key :: "series_tuple \<times> f64 \<Rightarrow> 'k :: linorder"
  assumes "\<And>x y. x \<in> set J \<Longrightarrow> y \<in> set J \<Longrightarrow> key x = key y \<longleftrightarrow> h (st_labels (fst x)) = h (st_labels (fst y))"
    "\<And>x. x \<in> set J \<Longrightarrow> lab (key x) = h (st_labels (fst x))"
  shows "grouped_as Q op h (map (\<lambda>x. (st_labels (fst x), snd x)) J)
    (map (\<lambda>k. nameless (lab k) t (the (agg_call_sql Q op (map snd (filter (\<lambda>x. key x = k) J)))))
      (sorted_list_of_set (key ` set J)))"
    (is "grouped_as Q op h ?xs ?pts")
  unfolding grouped_as_def
proof (intro conjI ballI)
  have "inj_on lab (key ` set J)" using assms by (intro inj_onI) auto
  then show "distinct (map ip_labels ?pts)" by (simp add: nameless_def comp_def distinct_map)
  show "ip_labels ` set ?pts = (\<lambda>x. h (fst x)) ` set ?xs"
    using assms(2) by (force simp: nameless_def image_image)
next
  fix p assume "p \<in> set ?pts"
  then obtain x where x: "x \<in> set J" "p = nameless (lab (key x)) t (the (agg_call_sql Q op (map snd (filter (\<lambda>y. key y = key x) J))))"
    by auto
  let ?vs = "map snd (filter (\<lambda>y. key y = key x) J)"
  have "?vs \<noteq> []" using x(1) by (auto simp: filter_empty_conv)
  then have "agg_call_sql Q op ?vs = Some (ip_value p)" using agg_call_sql_some [of ?vs Q op] by (auto simp: x(2) nameless_def)
  moreover have "filter (\<lambda>y. key y = key x) J = filter (\<lambda>y. h (st_labels (fst y)) = ip_labels p) J"
    using assms x by (intro filter_cong refl) (auto simp: nameless_def)
  then have "mset ?vs = mset (map snd (filter (\<lambda>x. h (fst x) = ip_labels p) ?xs))"
    by (simp only: filter_map comp_def map_map fst_conv snd_conv)
  ultimately show "\<exists>vs. mset vs = mset (map snd (filter (\<lambda>x. h (fst x) = ip_labels p) ?xs)) \<and>
      agg_call_sql Q op vs = Some (ip_value p)" by blast
qed

section \<open>Both groupings at one instant\<close>

text \<open>The rows of a statement, grouped as its modifier asks.\<close>

definition instant_grouped :: "query_env \<Rightarrow> (f64 \<Rightarrow> bool) \<Rightarrow> agg_op \<Rightarrow> label_modifier option \<Rightarrow> int \<Rightarrow> (int \<times> f64) list \<Rightarrow>
    instant_point list" where
  "instant_grouped Q keep op modi t rows =
     (case modifier_excluded_keys modi of
        Some ex \<Rightarrow> instant_without Q keep op ex t rows
      | None \<Rightarrow> instant_by Q keep op (aggregate_group_keys modi) t rows)"

lemma group_by_keys_eq:
  assumes "J \<noteq> [] \<or> ks \<noteq> []"
  shows "group_by_keys ks J = bt_group (\<lambda>(s, v). key_values ks s) snd J"
proof (cases "ks = []")
  case True
  then have key: "(\<lambda>(s, v). key_values ks s) = (\<lambda>_. [])" by (simp add: key_values_def case_prod_unfold)
  have "(\<lambda>_. [] :: string option list) ` set J = {[]}" using assms True by (cases J) auto
  then show ?thesis using True unfolding key bt_group_eq_map by (simp add: group_by_keys_def)
qed (simp add: group_by_keys_def)

lemma map_filter_all: "\<forall>x \<in> set xs. f x = Some (g x) \<Longrightarrow> List.map_filter f xs = map g xs"
  by (induction xs) (simp_all add: List.map_filter_simps)

lemma instant_by_points:
  assumes "join_series (qe_db Q) rows \<noteq> [] \<or> ks \<noteq> []"
  shows "instant_by Q (\<lambda>_. True) op ks t rows =
    map (\<lambda>k. nameless (key_labels ks k) t
        (the (agg_call_sql Q op (map snd (filter (\<lambda>x. key_values ks (fst x) = k) (join_series (qe_db Q) rows))))))
      (sorted_list_of_set ((\<lambda>x. key_values ks (fst x)) ` set (join_series (qe_db Q) rows)))"
proof -
  let ?J = "join_series (qe_db Q) rows"
  have "instant_by Q (\<lambda>_. True) op ks t rows =
      map (\<lambda>(key, vs). nameless (key_labels ks key) t (the (agg_call_sql Q op vs))) (bt_group (\<lambda>(s, v). key_values ks s) snd ?J)"
    unfolding instant_by_def group_by_keys_eq [OF assms]
    by (rule map_filter_all) (auto dest!: bt_group_nonempty simp: kept_agg_some)
  then show ?thesis by (simp add: bt_group_eq_map comp_def case_prod_unfold)
qed

lemma instant_without_points:
  assumes "ids_unique (qe_db Q)" "db_wf (qe_db Q)" "fst ` set J \<subseteq> picked (qe_db Q) sel"
    "remaining_tell (qe_db Q) sel modi" "modifier_excluded_keys modi = Some ex"
  shows "instant_without Q (\<lambda>_. True) op ex t (map (\<lambda>(s, b). (st_id s, b)) J) =
    map (\<lambda>k. nameless (drop_labels ex (st_labels (fst (hd (filter (\<lambda>x. rest_text ex (fst x) = k) J))))) t
        (the (agg_call_sql Q op (map snd (filter (\<lambda>x. rest_text ex (fst x) = k) J)))))
      (sorted_list_of_set ((\<lambda>x. rest_text ex (fst x)) ` set J))"
proof -
  let ?K = "\<lambda>x. rest_text ex (fst x)"
  have J: "fst x \<in> picked (qe_db Q) sel" if "x \<in> set J" for x using assms(3) that by blast
  have rest: "\<forall>x \<in> set J. fst x \<in> set (db_series (qe_db Q)) \<and> drop_labels ex (st_labels (fst x)) \<noteq> []"
    using J remaining_tell_without(1) [OF assms(4,5)] by (auto simp: picked_def)
  have rep: "rep_labels (qe_db Q) ex (map fst (map (\<lambda>(s, b). (st_id s, b)) (filter (\<lambda>x. ?K x = k) J))) =
      [drop_labels ex (st_labels (fst (hd (filter (\<lambda>x. ?K x = k) J))))]" if "k \<in> ?K ` set J" for k
  proof (rule rep_labels_group [OF assms(1,2)])
    let ?F = "filter (\<lambda>x. ?K x = k) J"
    have ne: "?F \<noteq> []" using that by (force simp: filter_empty_conv)
    then show "map fst (map (\<lambda>(s, b). (st_id s, b)) ?F) \<noteq> []" by simp
    have "hd ?F \<in> set ?F" using ne by (rule hd_in_set)
    then have hd: "fst (hd ?F) \<in> picked (qe_db Q) sel" "?K (hd ?F) = k" using J by auto
    have "fst x \<in> set (db_series (qe_db Q)) \<and> drop_labels ex (st_labels (fst x)) = drop_labels ex (st_labels (fst (hd ?F)))"
      if "x \<in> set ?F" for x
      using that remaining_tell_without(2) [OF assms(4,5) J hd(1), of x] rest hd(2) by simp
    then show "\<forall>sid \<in> set (map fst (map (\<lambda>(s, b). (st_id s, b)) ?F)).
        \<exists>s \<in> set (db_series (qe_db Q)). st_id s = sid \<and> drop_labels ex (st_labels s) = drop_labels ex (st_labels (fst (hd ?F)))"
      by (auto simp: case_prod_unfold)
  qed
  have "bt_group fst snd (join_gk (qe_db Q) ex (map (\<lambda>(s, b). (st_id s, b)) J)) =
      map (\<lambda>k. (k, map (\<lambda>(s, b). (st_id s, b)) (filter (\<lambda>x. ?K x = k) J))) (sorted_list_of_set (?K ` set J))"
    unfolding join_gk_texts [OF assms(1,2) rest] bt_group_eq_map
    by (simp add: filter_map comp_def case_prod_unfold image_image)
  then have "instant_without Q (\<lambda>_. True) op ex t (map (\<lambda>(s, b). (st_id s, b)) J) =
      concat (map (\<lambda>k. case kept_agg Q (\<lambda>_. True) op (map snd (filter (\<lambda>x. ?K x = k) J)) of
          None \<Rightarrow> []
        | Some v \<Rightarrow> map (\<lambda>lbls. nameless lbls t v)
            (rep_labels (qe_db Q) ex (map fst (map (\<lambda>(s, b). (st_id s, b)) (filter (\<lambda>x. ?K x = k) J)))))
        (sorted_list_of_set (?K ` set J)))"
    by (simp add: instant_without_def comp_def case_prod_unfold cong: option.case_cong)
  also have "\<dots> = concat (map (\<lambda>k. [nameless (drop_labels ex (st_labels (fst (hd (filter (\<lambda>x. ?K x = k) J))))) t
        (the (agg_call_sql Q op (map snd (filter (\<lambda>x. ?K x = k) J))))]) (sorted_list_of_set (?K ` set J)))"
  proof (intro arg_cong [where f = concat] map_cong refl)
    fix k assume "k \<in> set (sorted_list_of_set (?K ` set J))"
    then have k: "k \<in> ?K ` set J" by simp
    then have "map snd (filter (\<lambda>x. ?K x = k) J) \<noteq> []" by (force simp: filter_empty_conv)
    then show "(case kept_agg Q (\<lambda>_. True) op (map snd (filter (\<lambda>x. ?K x = k) J)) of
          None \<Rightarrow> []
        | Some v \<Rightarrow> map (\<lambda>lbls. nameless lbls t v)
            (rep_labels (qe_db Q) ex (map fst (map (\<lambda>(s, b). (st_id s, b)) (filter (\<lambda>x. ?K x = k) J))))) =
        [nameless (drop_labels ex (st_labels (fst (hd (filter (\<lambda>x. ?K x = k) J))))) t
          (the (agg_call_sql Q op (map snd (filter (\<lambda>x. ?K x = k) J))))]"
      unfolding rep [OF k] by (simp add: kept_agg_some)
  qed
  finally show ?thesis by (simp add: concat_map_singleton)
qed

text \<open>Nothing is counted as one group of no rows, unless the rows are grouped by something.\<close>

abbreviation "ungrouped_count op modi \<equiv> op = Count \<and> modifier_excluded_keys modi = None \<and> aggregate_group_keys modi = []"

theorem instant_grouped_matches:
  assumes "series_table_ok (qe_db Q)" "fst ` set rows \<subseteq> st_id ` picked (qe_db Q) sel"
    "remaining_tell (qe_db Q) sel modi" "rows = [] \<Longrightarrow> \<not> ungrouped_count op modi"
  shows "grouped_as Q op (\<lambda>l. retained_labels l modi) (map (\<lambda>x. (st_labels (fst x), snd x)) (join_series (qe_db Q) rows))
    (instant_grouped Q (\<lambda>_. True) op modi t rows)"
proof -
  let ?J = "join_series (qe_db Q) rows"
  have ids: "ids_unique (qe_db Q)" and wf: "db_wf (qe_db Q)" using assms(1) by (simp_all add: series_table_ok_def)
  note J = join_series_picked [OF ids assms(2)]
  have lwf: "bt_wf (st_labels (fst x))" if "x \<in> set ?J" for x
    using join_series_wf [OF wf, of "fst x" "snd x"] that by simp
  show ?thesis
  proof (cases "modifier_excluded_keys modi")
    case None
    let ?ks = "aggregate_group_keys modi"
    show ?thesis
    proof (cases "?J = [] \<and> ?ks = []")
      case True
      then have "rows = []" using J(1) by simp
      with assms(4) None True have "op \<noteq> Count" by simp
      then have "instant_grouped Q (\<lambda>_. True) op modi t rows = []"
        using None True by (simp add: instant_grouped_def instant_by_def group_by_keys_def kept_agg_def agg_call_sql_def
            List.map_filter_simps)
      with True show ?thesis by (simp add: grouped_as_def)
    next
      case False
      then have pts: "instant_grouped Q (\<lambda>_. True) op modi t rows = instant_by Q (\<lambda>_. True) op ?ks t rows"
        "?J \<noteq> [] \<or> ?ks \<noteq> []"
        using None by (auto simp: instant_grouped_def)
      show ?thesis
        unfolding pts(1) instant_by_points [OF pts(2)] retained_by_keys [OF None]
        by (rule grouped_as_points) (use lwf key_values_eq_iff key_labels_values in blast)+
    qed
  next
    case (Some ex)
    note rest = remaining_tell_without [OF assms(3) Some]
    have pts: "instant_grouped Q (\<lambda>_. True) op modi t rows =
        instant_without Q (\<lambda>_. True) op ex t (map (\<lambda>(s, b). (st_id s, b)) ?J)"
      using Some by (simp add: instant_grouped_def J(1))
    show ?thesis
      unfolding pts instant_without_points [OF ids wf J(2) assms(3) Some] retained_without [OF Some]
    proof (rule grouped_as_points)
      show "rest_text ex (fst x) = rest_text ex (fst y) \<longleftrightarrow> drop_labels ex (st_labels (fst x)) = drop_labels ex (st_labels (fst y))"
        if "x \<in> set ?J" "y \<in> set ?J" for x y
        using rest J(2) that by blast
      show "drop_labels ex (st_labels (fst (hd (filter (\<lambda>y. rest_text ex (fst y) = rest_text ex (fst x)) ?J)))) =
          drop_labels ex (st_labels (fst x))" if x: "x \<in> set ?J" for x
      proof -
        let ?F = "filter (\<lambda>y. rest_text ex (fst y) = rest_text ex (fst x)) ?J"
        have "?F \<noteq> []" using x by (auto simp: filter_empty_conv)
        then have "hd ?F \<in> set ?F" by (rule hd_in_set)
        then show ?thesis using rest(2) J(2) x by auto
      qed
    qed
  qed
qed

end
