(* ===== verification/Pushdown_Agg_Equiv.thy ===== *)
theory Pushdown_Agg_Equiv
  imports Pushdown_Groups
begin

text \<open>
  \<open>sum\<close>, \<open>avg\<close>, \<open>min\<close>, \<open>max\<close> and \<open>count\<close> over a selector, pushed into SQL, against the same
  aggregation of the selector's points in Rust: the same groups, and in each group the aggregate of the
  same values.
\<close>

section \<open>The first of the greatest\<close>

text \<open>Both paths keep, of a series' samples with the greatest time, the first in scan order.\<close>

definition first_newest :: "('a \<Rightarrow> int) \<Rightarrow> 'a list \<Rightarrow> 'a" where
  "first_newest f xs = hd (filter (\<lambda>x. f x = linorder_class.Max (f ` set xs)) xs)"

lemma first_newest_snoc:
  assumes "xs \<noteq> []"
  shows "first_newest f (xs @ [x]) = (if f x \<le> f (first_newest f xs) then first_newest f xs else x)"
proof -
  have fin: "finite (f ` set xs)" and ne: "f ` set xs \<noteq> {}" using assms by auto
  then have "linorder_class.Max (f ` set xs) \<in> f ` set xs" by (rule Max_in)
  then obtain y where y: "y \<in> set xs" "f y = linorder_class.Max (f ` set xs)" by force
  then have nf: "filter (\<lambda>x. f x = linorder_class.Max (f ` set xs)) xs \<noteq> []" by (auto simp: filter_empty_conv)
  then have top: "f (first_newest f xs) = linorder_class.Max (f ` set xs)"
    unfolding first_newest_def using hd_in_set [OF nf] by auto
  have mx: "linorder_class.Max (f ` set (xs @ [x])) = max (f x) (linorder_class.Max (f ` set xs))" using fin ne by simp
  show ?thesis
  proof (cases "f x \<le> linorder_class.Max (f ` set xs)")
    case True
    then have "linorder_class.Max (f ` set (xs @ [x])) = linorder_class.Max (f ` set xs)" using mx by simp
    then show ?thesis using True nf top unfolding first_newest_def by simp
  next
    case False
    then have m: "linorder_class.Max (f ` set (xs @ [x])) = f x" using mx by simp
    have "f y \<noteq> f x" if "y \<in> set xs" for y
      using False Max_ge [OF fin imageI [OF that]] by linarith
    then have "filter (\<lambda>y. f y = f x) xs = []" by (simp add: filter_empty_conv)
    then show ?thesis using False m top unfolding first_newest_def by simp
  qed
qed

lemma first_newest_filter:
  assumes "\<And>y. y \<in> set xs \<Longrightarrow> f y = g (h y)" "xs \<noteq> []"
  shows "first_newest g (map h xs) = h (first_newest f xs)"
proof -
  have im: "g ` set (map h xs) = f ` set xs" using assms by force
  have flt: "filter (\<lambda>x. g x = m) (map h xs) = map h (filter (\<lambda>x. f x = m) xs)" for m
    using assms by (simp add: filter_map comp_def cong: filter_cong)
  have "linorder_class.Max (f ` set xs) \<in> f ` set xs" using assms(2) by (intro Max_in) auto
  then have "filter (\<lambda>x. f x = linorder_class.Max (f ` set xs)) xs \<noteq> []" by (force simp: filter_empty_conv)
  then show ?thesis unfolding first_newest_def im flt by (rule hd_map)
qed

text \<open>A stable descending sort starts with it, and a stable sort by another key keeps it.\<close>

lemma hd_sort_desc:
  assumes "xs \<noteq> []"
  shows "hd (sort_key (\<lambda>x. - f x) xs) = first_newest f xs"
proof -
  let ?s = "sort_key (\<lambda>x. - f x) xs"
  have ne: "?s \<noteq> []" using assms by (metis length_0_conv length_sort)
  then obtain y ys where s: "?s = y # ys" by (cases ?s) auto
  have "sorted (map (\<lambda>x. - f x) ?s)" by (rule sorted_sort_key)
  then have "\<forall>x \<in> set ?s. f x \<le> f y" unfolding s by simp
  then have "\<forall>x \<in> set xs. f x \<le> f y" by simp
  moreover have "y \<in> set ?s" unfolding s by simp
  then have "y \<in> set xs" by simp
  ultimately have "linorder_class.Max (f ` set xs) = f y" by (intro Max_eqI) auto
  moreover have "filter (\<lambda>x. f x = f y) xs = filter (\<lambda>x. f x = f y) ?s"
    using sort_key_stable [of "\<lambda>x. - f x" "- f y" xs] by simp
  ultimately show ?thesis unfolding first_newest_def s by simp
qed

lemma first_newest_sorted:
  assumes "\<And>x y. x \<in> set xs \<Longrightarrow> y \<in> set xs \<Longrightarrow> f x = f y \<Longrightarrow> k x = k y"
  shows "first_newest f (sort_key k xs) = first_newest f xs"
proof (cases "xs = []")
  case False
  then have "linorder_class.Max (f ` set xs) \<in> f ` set xs" by (intro Max_in) auto
  then obtain z where z: "z \<in> set xs" "f z = linorder_class.Max (f ` set xs)" by force
  have narrow: "filter (\<lambda>x. f x = f z) ys = filter (\<lambda>x. f x = f z) (filter (\<lambda>x. k x = k z) ys)"
    if "set ys = set xs" for ys
    unfolding filter_filter using assms z(1) that by (intro filter_cong refl) blast
  have "filter (\<lambda>x. f x = f z) (sort_key k xs) =
      filter (\<lambda>x. f x = f z) (filter (\<lambda>x. k x = k z) (sort_key k xs))"
    by (rule narrow) simp
  also have "\<dots> = filter (\<lambda>x. f x = f z) xs"
    unfolding sort_key_stable by (rule narrow [symmetric]) simp
  finally have "filter (\<lambda>x. f x = f z) (sort_key k xs) = filter (\<lambda>x. f x = f z) xs" .
  with z(2) show ?thesis by (simp add: first_newest_def)
qed simp

section \<open>Sorted keys as a multiset\<close>

lemma mset_map_sorted_keys:
  assumes "finite S" "inj_on g S"
  shows "mset (map f (sorted_list_of_set (g ` S))) = image_mset (\<lambda>s. f (g s)) (mset_set S)"
proof -
  have "mset (map f (sorted_list_of_set (g ` S))) = image_mset f (mset_set (g ` S))"
    using mset_set_set [OF distinct_sorted_list_of_set [of "g ` S"]] assms(1) by simp
  also have "mset_set (g ` S) = image_mset g (mset_set S)"
    using assms(2) by (rule image_mset_mset_set [symmetric])
  finally show ?thesis by (simp add: multiset.map_comp comp_def)
qed

section \<open>The latest sample of each series\<close>

definition windowed :: "database \<Rightarrow> vector_selector \<Rightarrow> int \<Rightarrow> int \<Rightarrow> series_tuple set" where
  "windowed db sel lo hi = fst ` set (window_join db sel lo hi)"

definition tuple_rows :: "database \<Rightarrow> vector_selector \<Rightarrow> int \<Rightarrow> int \<Rightarrow> series_tuple \<Rightarrow> (series_tuple \<times> int \<times> f64) list" where
  "tuple_rows db sel lo hi s = filter (\<lambda>r. fst r = s) (window_join db sel lo hi)"

abbreviation "newest_row db sel lo hi s \<equiv> first_newest (\<lambda>r. fst (snd r)) (tuple_rows db sel lo hi s)"

lemma windowed_sub: "windowed db sel lo hi \<subseteq> set (db_series db)"
  by (force simp: windowed_def window_join_def)

lemma finite_windowed [simp]: "finite (windowed db sel lo hi)"
  by (simp add: windowed_def)

lemma tuple_rows_nonempty: "s \<in> windowed db sel lo hi \<Longrightarrow> tuple_rows db sel lo hi s \<noteq> []"
  by (force simp: windowed_def tuple_rows_def filter_empty_conv)

lemma filter_by_id:
  assumes "ids_unique db" "s \<in> windowed db sel lo hi"
  shows "filter (\<lambda>r. st_id (fst r) = st_id s) (window_join db sel lo hi) = tuple_rows db sel lo hi s"
  unfolding tuple_rows_def
proof (rule filter_cong [OF refl])
  fix r assume "r \<in> set (window_join db sel lo hi)"
  then have "fst r \<in> set (db_series db)" "s \<in> set (db_series db)"
    using windowed_sub assms(2) by (fastforce simp: windowed_def)+
  then show "st_id (fst r) = st_id s \<longleftrightarrow> fst r = s"
    using inj_onD [OF inj_st_id [OF assms(1)]] by blast
qed

text \<open>The SQL side.\<close>

lemma latest_samples_join:
  assumes "ids_unique db"
  shows "mset (join_series db (latest_samples db sel lo hi)) =
    image_mset (\<lambda>s. (s, snd (snd (newest_row db sel lo hi s)))) (mset_set (windowed db sel lo hi))"
proof -
  let ?W = "window_join db sel lo hi" and ?S = "windowed db sel lo hi"
  let ?lv = "\<lambda>sid. snd (hd (sort_key (\<lambda>(ts, v). - ts) (map (\<lambda>(s, ts, v). (ts, v)) (filter (\<lambda>r. st_id (fst r) = sid) ?W))))"
  let ?f = "\<lambda>sid. map (\<lambda>s. (s, ?lv sid)) (filter (\<lambda>s. st_id s = sid) (db_series db))"
  have keys: "(\<lambda>(s, ts, v). st_id s) ` set ?W = st_id ` ?S"
    by (force simp: windowed_def)
  have "latest_samples db sel lo hi = map (\<lambda>sid. (sid, ?lv sid)) (sorted_list_of_set (st_id ` ?S))"
    unfolding latest_samples_def bt_group_eq_map keys by (simp add: case_prod_unfold)
  then have "join_series db (latest_samples db sel lo hi) = concat (map ?f (sorted_list_of_set (st_id ` ?S)))"
    by (simp add: join_series_def comp_def)
  then have "mset (join_series db (latest_samples db sel lo hi)) =
      \<Sum>\<^sub># (mset (map (\<lambda>sid. mset (?f sid)) (sorted_list_of_set (st_id ` ?S))))"
    by (simp only: mset_concat map_map comp_def sum_mset_sum_list)
  also have "\<dots> = \<Sum>\<^sub># (image_mset (\<lambda>s. mset (?f (st_id s))) (mset_set ?S))"
    using inj_on_subset [OF inj_st_id [OF assms] windowed_sub] by (subst mset_map_sorted_keys) simp_all
  also have "image_mset (\<lambda>s. mset (?f (st_id s))) (mset_set ?S) =
      image_mset (\<lambda>s. {#(s, snd (snd (newest_row db sel lo hi s)))#}) (mset_set ?S)"
  proof (rule image_mset_cong)
    fix s assume "s \<in># mset_set ?S"
    then have s: "s \<in> ?S" by simp
    have "?lv (st_id s) = snd (first_newest fst (map snd (tuple_rows db sel lo hi s)))"
      using hd_sort_desc [of "map snd (tuple_rows db sel lo hi s)" fst] tuple_rows_nonempty [OF s]
      by (simp add: filter_by_id [OF assms s] case_prod_unfold)
    also have "\<dots> = snd (snd (newest_row db sel lo hi s))"
      using first_newest_filter [of "tuple_rows db sel lo hi s" "\<lambda>r. fst (snd r)" fst snd] tuple_rows_nonempty [OF s]
      by simp
    finally show "mset (?f (st_id s)) = {#(s, snd (snd (newest_row db sel lo hi s)))#}"
      using ids_unique_filter [OF assms] windowed_sub s by (simp add: subset_iff)
  qed
  also have "\<Sum>\<^sub># (image_mset (\<lambda>s. {#(s, snd (snd (newest_row db sel lo hi s)))#}) (mset_set ?S)) =
      image_mset (\<lambda>s. (s, snd (snd (newest_row db sel lo hi s)))) (mset_set ?S)"
    by (induction "mset_set ?S") simp_all
  finally show ?thesis .
qed

text \<open>The Rust side.\<close>

definition regex_true :: "database \<Rightarrow> vector_selector \<Rightarrow> bool" where
  "regex_true db sel \<longleftrightarrow> (\<forall>s \<in> set (db_series db). where_holds sel s \<longrightarrow> regex_passes sel (st_labels s))"

definition row_of_tuple :: "series_tuple \<times> int \<times> f64 \<Rightarrow> selector_row" where
  "row_of_tuple r = \<lparr>row_metric = st_metric (fst r), row_labels = st_labels (fst r), row_ts = fst (snd r), row_value = snd (snd r)\<rparr>"

lemma row_key_of_tuple [simp]: "row_key (row_of_tuple r) = tuple_key (fst r)" "row_ts (row_of_tuple r) = fst (snd r)"
  by (simp_all add: row_of_tuple_def)

lemma selector_rows_all:
  assumes "db_wf db" "regex_true db sel"
  shows "selector_rows db sel lo hi =
    map row_of_tuple (sort_key (\<lambda>r. (st_metric (fst r), fst (snd r))) (window_join db sel lo hi))"
proof -
  let ?s = "sort_key (\<lambda>r. (st_metric (fst r), fst (snd r))) (window_join db sel lo hi)"
  have w: "fst r \<in> set (db_series db) \<and> where_holds sel (fst r)" if "r \<in> set ?s" for r
    using that by (auto simp: window_join_def)
  have "map (\<lambda>(s, ts, v). \<lparr>row_metric = st_metric s, row_labels = labels_to_btree (st_labels s), row_ts = ts, row_value = v\<rparr>) ?s =
      map row_of_tuple ?s"
    using assms(1) w by (intro map_cong refl) (auto simp: row_of_tuple_def labels_to_btree_def db_wf_def bt_collect_id)
  moreover have "\<forall>r \<in> set (map row_of_tuple ?s). regex_passes sel (row_labels r)"
    using assms(2) w unfolding regex_true_def set_map by (auto simp: row_of_tuple_def simp del: set_sort)
  ultimately show ?thesis by (simp add: selector_rows_def case_prod_unfold)
qed

lemma first_newest_in: "xs \<noteq> [] \<Longrightarrow> first_newest f xs \<in> set xs"
proof -
  assume "xs \<noteq> []"
  then have "linorder_class.Max (f ` set xs) \<in> f ` set xs" by (intro Max_in) auto
  then have "filter (\<lambda>x. f x = linorder_class.Max (f ` set xs)) xs \<noteq> []" by (force simp: filter_empty_conv)
  from hd_in_set [OF this] show ?thesis by (simp add: first_newest_def)
qed

lemma latest_of_first:
  "map_of (latest_of rows) k =
     (let rs = filter (\<lambda>r. row_key r = k) rows in if rs = [] then None else Some (first_newest row_ts rs))"
proof (induction rows rule: rev_induct)
  case Nil
  then show ?case by (simp add: latest_of_def)
next
  case (snoc x rows)
  show ?case
  proof (cases "row_key x = k")
    case False
    then have "map_of (latest_of (rows @ [x])) k = map_of (latest_of rows) k"
      by (auto simp: latest_of_snoc latest_insert_def Let_def map_of_bt_insert latest_of_wf split: option.splits)
    with snoc False show ?thesis by simp
  next
    case True
    show ?thesis
    proof (cases "filter (\<lambda>r. row_key r = k) rows = []")
      case none: True
      have "first_newest row_ts [x] = x" by (simp add: first_newest_def)
      then show ?thesis using none snoc True
        by (simp add: latest_of_snoc latest_insert_def map_of_bt_insert latest_of_wf)
    next
      case False
      then show ?thesis using snoc True
        by (simp add: latest_of_snoc latest_insert_def map_of_bt_insert latest_of_wf first_newest_snoc)
    qed
  qed
qed

lemma latest_of_map:
  "map snd (latest_of rows) =
     map (\<lambda>k. first_newest row_ts (filter (\<lambda>r. row_key r = k) rows)) (sorted_list_of_set (row_key ` set rows))"
proof -
  have "latest_of rows =
      map (\<lambda>k. (k, first_newest row_ts (filter (\<lambda>r. row_key r = k) rows))) (sorted_list_of_set (row_key ` set rows))"
  proof (rule bt_ext [OF latest_of_wf])
    show "bt_wf (map (\<lambda>k. (k, first_newest row_ts (filter (\<lambda>r. row_key r = k) rows))) (sorted_list_of_set (row_key ` set rows)))"
      by (simp add: bt_wf_def comp_def)
    show "map_of (latest_of rows) =
        map_of (map (\<lambda>k. (k, first_newest row_ts (filter (\<lambda>r. row_key r = k) rows))) (sorted_list_of_set (row_key ` set rows)))"
      by (auto simp: latest_of_first Let_def map_of_map_restrict restrict_map_def fun_eq_iff filter_empty_conv)
  qed
  then have "map snd (latest_of rows) = map snd (map (\<lambda>k. (k, first_newest row_ts (filter (\<lambda>r. row_key r = k) rows)))
      (sorted_list_of_set (row_key ` set rows)))" by (rule arg_cong)
  then show ?thesis by simp
qed

lemma latest_of_rows:
  assumes "series_table_ok db" "regex_true db sel"
  shows "mset (map snd (latest_of (selector_rows db sel lo hi))) =
    image_mset (\<lambda>s. row_of_tuple (newest_row db sel lo hi s)) (mset_set (windowed db sel lo hi))"
proof -
  let ?W = "window_join db sel lo hi" and ?S = "windowed db sel lo hi"
  let ?g = "\<lambda>r :: series_tuple \<times> int \<times> f64. (st_metric (fst r), fst (snd r))"
  have ok: "db_wf db" "inj_on tuple_key (set (db_series db))" using assms(1) by (simp_all add: series_table_ok_def)
  have inj: "inj_on tuple_key ?S" using inj_on_subset [OF ok(2) windowed_sub] .
  have rows: "selector_rows db sel lo hi = map row_of_tuple (sort_key ?g ?W)"
    by (rule selector_rows_all [OF ok(1) assms(2)])
  have keys: "row_key ` set (selector_rows db sel lo hi) = tuple_key ` ?S"
    unfolding rows by (simp add: image_image windowed_def)
  have newest: "first_newest row_ts (filter (\<lambda>r. row_key r = tuple_key s) (selector_rows db sel lo hi)) =
      row_of_tuple (newest_row db sel lo hi s)" if s: "s \<in> ?S" for s
  proof -
    have "tuple_key (fst r) = tuple_key s \<longleftrightarrow> fst r = s" if "r \<in> set (sort_key ?g ?W)" for r
      using inj_onD [OF inj, of "fst r" s] s that by (auto simp: windowed_def)
    then have "filter (\<lambda>r. row_key r = tuple_key s) (selector_rows db sel lo hi) =
        map row_of_tuple (filter (\<lambda>r. fst r = s) (sort_key ?g ?W))"
      unfolding rows by (simp add: filter_map comp_def cong: filter_cong del: set_sort)
    also have "\<dots> = map row_of_tuple (sort_key ?g (tuple_rows db sel lo hi s))"
      by (simp add: filter_sort tuple_rows_def)
    finally have flt: "filter (\<lambda>r. row_key r = tuple_key s) (selector_rows db sel lo hi) =
        map row_of_tuple (sort_key ?g (tuple_rows db sel lo hi s))" .
    have ne: "sort_key ?g (tuple_rows db sel lo hi s) \<noteq> []"
      using tuple_rows_nonempty [OF s] by (metis length_0_conv length_sort)
    have "first_newest row_ts (map row_of_tuple (sort_key ?g (tuple_rows db sel lo hi s))) =
        row_of_tuple (first_newest (\<lambda>r. fst (snd r)) (sort_key ?g (tuple_rows db sel lo hi s)))"
      by (rule first_newest_filter [OF _ ne]) simp
    also have "first_newest (\<lambda>r. fst (snd r)) (sort_key ?g (tuple_rows db sel lo hi s)) = newest_row db sel lo hi s"
      by (rule first_newest_sorted) (auto simp: tuple_rows_def)
    finally show ?thesis unfolding flt .
  qed
  have "mset (map snd (latest_of (selector_rows db sel lo hi))) =
      image_mset (\<lambda>s. first_newest row_ts (filter (\<lambda>r. row_key r = tuple_key s) (selector_rows db sel lo hi))) (mset_set ?S)"
    unfolding latest_of_map keys by (rule mset_map_sorted_keys [OF finite_windowed inj])
  also have "\<dots> = image_mset (\<lambda>s. row_of_tuple (newest_row db sel lo hi s)) (mset_set ?S)"
    using newest by (intro image_mset_cong) simp
  finally show ?thesis .
qed

section \<open>The statement against the Rust path\<close>

lemma selector_pairs:
  assumes "series_table_ok db" "regex_true db sel"
  shows "mset (map (\<lambda>(s, v). (st_labels s, v)) (join_series db (latest_samples db sel lo hi))) =
    mset (map (\<lambda>x. (ip_labels x, ip_value x)) (map (point_of_row \<circ> snd) (latest_of (selector_rows db sel lo hi))))"
proof -
  have "ids_unique db" using assms(1) by (simp add: series_table_ok_def)
  then have "mset (map (\<lambda>(s, v). (st_labels s, v)) (join_series db (latest_samples db sel lo hi))) =
      image_mset (\<lambda>s. (st_labels s, snd (snd (newest_row db sel lo hi s)))) (mset_set (windowed db sel lo hi))"
    by (simp add: latest_samples_join multiset.map_comp comp_def)
  also have "\<dots> = image_mset (\<lambda>s. (row_labels (row_of_tuple (newest_row db sel lo hi s)),
      row_value (row_of_tuple (newest_row db sel lo hi s)))) (mset_set (windowed db sel lo hi))"
  proof (rule image_mset_cong)
    fix s assume "s \<in># mset_set (windowed db sel lo hi)"
    then have "newest_row db sel lo hi s \<in> set (tuple_rows db sel lo hi s)"
      by (intro first_newest_in tuple_rows_nonempty) simp
    then show "(st_labels s, snd (snd (newest_row db sel lo hi s))) =
        (row_labels (row_of_tuple (newest_row db sel lo hi s)), row_value (row_of_tuple (newest_row db sel lo hi s)))"
      by (simp add: tuple_rows_def row_of_tuple_def)
  qed
  also have "\<dots> = image_mset (\<lambda>r. (row_labels r, row_value r)) (mset (map snd (latest_of (selector_rows db sel lo hi))))"
    unfolding latest_of_rows [OF assms] by (simp add: multiset.map_comp comp_def)
  also have "\<dots> = mset (map (\<lambda>x. (ip_labels x, ip_value x)) (map (point_of_row \<circ> snd) (latest_of (selector_rows db sel lo hi))))"
    by (simp add: multiset.map_comp comp_def point_of_row_def)
  finally show ?thesis .
qed

text \<open>The statement reads rows of series that the selector picks.\<close>

lemma windowed_picked: "windowed db sel lo hi \<subseteq> picked db sel"
  by (force simp: windowed_def window_join_def picked_def)

lemma latest_samples_picked: "fst ` set (latest_samples db sel lo hi) \<subseteq> st_id ` picked db sel"
proof
  let ?W = "window_join db sel lo hi"
  fix sid assume "sid \<in> fst ` set (latest_samples db sel lo hi)"
  then obtain rows where "(sid, rows) \<in> set (bt_group (\<lambda>(s, ts, v). st_id s) (\<lambda>(s, ts, v). (ts, v)) ?W)"
    by (auto simp: latest_samples_def)
  then obtain r where "r \<in> set ?W" "sid = st_id (fst r)" by (auto simp: bt_group_mem)
  then show "sid \<in> st_id ` picked db sel" using windowed_picked by (force simp: windowed_def)
qed

lemma picked_without_regex [simp]: "picked db (without_regex sel) = picked db sel"
  by (simp add: picked_def where_holds_def)

text \<open>A selector without its regular expressions, and one whose regular expressions filter nothing.\<close>

lemma regex_true_without [simp]: "regex_true db (without_regex sel)"
proof -
  have "label_filters_for_selector (without_regex sel) = []"
    by (auto simp: label_filters_for_selector_def without_regex_def is_regex_def filter_empty_conv split: match_op.splits)
  then show ?thesis by (simp add: regex_true_def regex_passes_def)
qed

lemma run_without_regex:
  assumes "db_wf (qe_db Q)" "regex_true (qe_db Q) sel"
  shows "run_selector_query Q (without_regex sel) lo hi = run_selector_query Q sel lo hi"
  by (simp add: run_selector_query_def run_stmt_def selector_rows_all [OF assms] selector_rows_all [OF assms(1) regex_true_without]
      split: option.split)

lemma selector_without_regex:
  assumes "db_wf (qe_db Q)" "regex_true (qe_db Q) sel"
  shows "instant_selector Q (without_regex sel) t = instant_selector Q sel t"
  by (simp add: instant_selector_def run_without_regex [OF assms])

text \<open>One point per group of the points the Rust path aggregates.\<close>

lemma grouped_as_aggregates:
  assumes "grouped_as Q op (\<lambda>l. retained_labels l modi) xs pts" "mset xs = mset (map (\<lambda>x. (ip_labels x, ip_value x)) inner)"
  shows "distinct (map ip_labels pts) \<and>
    ip_labels ` set pts = ip_labels ` set (aggregate_instant_points inner op modi t) \<and>
    (\<forall>p \<in> set pts. \<exists>vs.
       mset vs = mset (map ip_value (filter (\<lambda>x. retained_labels (ip_labels x) modi = ip_labels p) inner)) \<and>
       agg_call_sql Q op vs = Some (ip_value p))"
proof -
  have vals: "map snd (filter (\<lambda>x. retained_labels (fst x) modi = L) (map (\<lambda>x. (ip_labels x, ip_value x)) inner)) =
      map ip_value (filter (\<lambda>x. retained_labels (ip_labels x) modi = L) inner)" for L
    by (simp add: filter_map comp_def)
  have labels: "(\<lambda>x. retained_labels (fst x) modi) ` set (map (\<lambda>x. (ip_labels x, ip_value x)) inner) =
      ip_labels ` set (aggregate_instant_points inner op modi t)"
    by (simp add: aggregate_instant_points_def image_image case_prod_unfold bt_group_keys [symmetric])
  have "grouped_as Q op (\<lambda>l. retained_labels l modi) (map (\<lambda>x. (ip_labels x, ip_value x)) inner) pts"
    using assms(1) by (simp only: grouped_as_mset [OF assms(2)])
  then show ?thesis unfolding grouped_as_def vals labels .
qed

text \<open>
  (C7) An aggregation of a selector pushed into SQL aggregates the points of the selector with its \<open>=~\<close>
  and \<open>!~\<close> matchers removed, which the statement does not read: the groups are those the Rust path
  would form from these points, and the value of each is the engine's aggregate of exactly that group's
  values. Where no regular expression filters anything out, they are the points of the selector itself.
  Grouped by nothing, by \<open>by (...)\<close> or by \<open>without (...)\<close>; for \<open>without\<close> every selected series must keep a
  label and the texts of the labels that are left tell them apart. The series table must tell its series
  apart, and \<open>count\<close> with no labels to group by have something to count.
\<close>

theorem aggregate_pushdown_matches:
  assumes "instant_selector Q (without_regex sel) t = Inr inner" "instant_aggregate_via_sql Q sel op modi t = Inr pts"
    "reads_back Q (i64_wrap (t - lookback_us))" "reads_back Q t"
    "series_table_ok (qe_db Q)" "remaining_tell (qe_db Q) sel modi" "inner \<noteq> [] \<or> \<not> ungrouped_count op modi"
  shows "distinct (map ip_labels pts) \<and>
    ip_labels ` set pts = ip_labels ` set (aggregate_instant_points inner op modi t) \<and>
    (\<forall>p \<in> set pts. \<exists>vs.
       mset vs = mset (map ip_value (filter (\<lambda>x. retained_labels (ip_labels x) modi = ip_labels p) inner)) \<and>
       agg_call_sql Q op vs = Some (ip_value p)) \<and>
    (regex_true (qe_db Q) sel \<longrightarrow> instant_selector Q sel t = Inr inner)"
proof -
  let ?lo = "i64_wrap (t - lookback_us)"
  let ?L = "latest_samples (qe_db Q) sel ?lo t"
  obtain rows where "run_selector_query Q (without_regex sel) ?lo t = Inr rows"
    "inner = map (point_of_row \<circ> snd) (latest_of rows)"
    using assms(1) by (rule instant_selector_rows)
  then have inner: "inner = map (point_of_row \<circ> snd) (latest_of (selector_rows (qe_db Q) (without_regex sel) ?lo t))"
    using run_selector_rows assms(3,4) by blast
  have pairs: "mset (map (\<lambda>x. (st_labels (fst x), snd x)) (join_series (qe_db Q) ?L)) =
      mset (map (\<lambda>x. (ip_labels x, ip_value x)) inner)"
    unfolding inner using selector_pairs [OF assms(5), of "without_regex sel"] by (simp add: case_prod_unfold)
  then have "?L = [] \<Longrightarrow> inner = []" by (simp add: join_series_def)
  then have "grouped_as Q op (\<lambda>l. retained_labels l modi)
      (map (\<lambda>x. (st_labels (fst x), snd x)) (join_series (qe_db Q) ?L)) (instant_grouped Q (\<lambda>_. True) op modi t ?L)"
    using assms(7) by (intro instant_grouped_matches [OF assms(5) latest_samples_picked assms(6)]) blast
  moreover have "pts = instant_grouped Q (\<lambda>_. True) op modi t ?L"
    using assms(2-4)
    by (auto simp: instant_aggregate_via_sql_def instant_aggregate_without_via_sql_def instant_grouped_def run_stmt_def
        reads_back_def split: option.splits)
  moreover have "db_wf (qe_db Q)" using assms(5) by (simp add: series_table_ok_def)
  ultimately show ?thesis
    using grouped_as_aggregates [OF _ pairs] selector_without_regex [of Q sel t] assms(1) by simp
qed

text \<open>\<open>sum without (instance) (up{job!="b"})\<close>.\<close>

theorem aggregate_pushdown_matches_witness:
  "\<exists>pts vs. instant_aggregate_via_sql demo_env demo_selector Sum (Some (Exclude [''instance''])) lookback_us = Inr pts \<and>
     length pts = 1 \<and> mset vs = {#Num 2#} \<and> agg_call_sql demo_env Sum vs = Some (ip_value (hd pts))"
proof -
  let ?pts = "instant_without demo_env (\<lambda>_. True) Sum [''instance''] lookback_us (latest_samples (qe_db demo_env) demo_selector 0 lookback_us)"
  let ?p = "\<lparr>ip_metric = ''up'', ip_labels = [(''job'', ''a'')], ip_ts = 20, ip_value = Num 2\<rparr>"
  let ?modi = "Some (Exclude [''instance''])"
  have lo: "i64_wrap (lookback_us - lookback_us) = 0" "i64_wrap 0 = 0" by (simp_all add: i64_wrap_def)
  have pts: "instant_aggregate_via_sql demo_env demo_selector Sum ?modi lookback_us = Inr ?pts"
    unfolding instant_aggregate_via_sql_def lo
    by (simp add: modifier_excluded_keys_def instant_aggregate_without_via_sql_def lo, subst demo_run_stmt) (simp_all add: lookback_us_def)
  have rows: "run_selector_query demo_env demo_selector (i64_wrap (lookback_us - lookback_us)) lookback_us =
     Inr [\<lparr>row_metric = ''up'', row_labels = [(''job'', ''a'')], row_ts = 10, row_value = Num 1\<rparr>,
          \<lparr>row_metric = ''up'', row_labels = [(''job'', ''a'')], row_ts = 20, row_value = Num 2\<rparr>]"
    unfolding lo run_selector_query_def by (subst demo_run_stmt) (simp_all add: lookback_us_def, code_simp)
  moreover have plain: "without_regex demo_selector = demo_selector"
    by (simp add: without_regex_def demo_selector_def is_regex_def)
  ultimately have inner: "instant_selector demo_env (without_regex demo_selector) lookback_us = Inr [?p]"
    unfolding plain by (simp add: instant_selector_def latest_insert_def bt_insert_def)
  have ok: "series_table_ok (qe_db demo_env)"
    using demo_db_wf by (auto simp: series_table_ok_def ids_unique_def demo_env_def demo_db_def series_key_def)
  have tell: "remaining_tell (qe_db demo_env) demo_selector ?modi"
    by (auto simp: remaining_tell_def picked_def demo_env_def demo_db_def retained_labels_def label_text_def)
  have m: "distinct (map ip_labels ?pts) \<and>
    ip_labels ` set ?pts = ip_labels ` set (aggregate_instant_points [?p] Sum ?modi lookback_us) \<and>
    (\<forall>p \<in> set ?pts. \<exists>vs.
       mset vs = mset (map ip_value (filter (\<lambda>x. retained_labels (ip_labels x) ?modi = ip_labels p) [?p])) \<and>
       agg_call_sql demo_env Sum vs = Some (ip_value p))"
    using aggregate_pushdown_matches [OF inner pts _ _ ok]
    by (simp add: tell lo demo_reads_back lookback_us_def)
  have "ip_labels ` set (aggregate_instant_points [?p] Sum ?modi lookback_us) = {[(''job'', ''a'')]}"
    by (simp add: aggregate_instant_points_def bt_group_def bt_push_def retained_labels_def)
  with m have d: "distinct (map ip_labels ?pts)" "set (map ip_labels ?pts) = {[(''job'', ''a'')]}" by simp_all
  then have "length (map ip_labels ?pts) = 1" using distinct_card [OF d(1)] by simp
  then obtain q where q: "?pts = [q]" by (auto simp: length_Suc_conv)
  with d(2) have "ip_labels q = [(''job'', ''a'')]" by simp
  with m q have "\<exists>vs. mset vs = {#Num 2#} \<and> agg_call_sql demo_env Sum vs = Some (ip_value q)"
    by (simp add: retained_labels_def)
  with pts q show ?thesis by auto
qed

end
