(* ===== verification/Quantile.thy ===== *)
theory Quantile
  imports Histogram
begin

text \<open>
  What a quantile is worth: on a well-formed cumulative histogram the walk answers, with a value
  inside the bucket where the count crosses the target, and larger quantiles get larger answers. All
  of it is about the rounded arithmetic the code runs.
\<close>

section \<open>Interpolation inside a bucket\<close>

definition interpolate :: "f64 \<Rightarrow> f64 \<Rightarrow> f64 \<Rightarrow> f64 \<Rightarrow> f64 \<Rightarrow> f64" where
  "interpolate lo hi lc c t =
     f64_add lo (f64_mul (f64_div (f64_sub t lc) (f64_sub c lc)) (f64_sub hi lo))"

definition bucket_ok :: "f64 \<Rightarrow> f64 \<Rightarrow> f64 \<Rightarrow> f64 \<Rightarrow> bool" where
  "bucket_ok lo hi lc c \<longleftrightarrow> repr lo \<and> repr hi \<and> repr lc \<and> repr c \<and> f64_le lo hi \<and> f64_le (Num 0) lc \<and>
     f64_le lc c \<and> repr (Num (fval hi - fval lo))"

lemma bucket_okD:
  assumes "bucket_ok lo hi lc c"
  shows "is_finite lo" "is_finite hi" "is_finite lc" "is_finite c" "fval lo \<le> fval hi" "0 \<le> fval lc"
    "fval lc \<le> fval c"
  using assms f64_le_fin [of "Num 0" lc] by (auto simp: bucket_ok_def repr_finite f64_le_fin)

lemma f64_between:
  "f64_le a x \<Longrightarrow> f64_le x b \<Longrightarrow> is_finite a \<Longrightarrow> is_finite b \<Longrightarrow> is_finite x \<and> fval a \<le> fval x \<and> fval x \<le> fval b"
  using f64_le_finite f64_le_fval by blast

lemma count_diff:
  assumes "bucket_ok lo hi lc c"
  shows "is_finite (f64_sub c lc) \<and> 0 \<le> fval (f64_sub c lc)"
proof -
  note d = bucket_okD [OF assms]
  have r: "rounds_to (f64_sub c lc) (fval c - fval lc)" using d by (intro sub_rounds) auto
  have "f64_le (Num 0) (f64_sub c lc)" using d by (intro le_rounds [OF _ r]) auto
  moreover have "f64_le (f64_sub c lc) c"
    using d assms by (intro rounds_le [OF r]) (auto simp: bucket_ok_def)
  ultimately show ?thesis using f64_between [of "Num 0" _ c] d by simp
qed

text \<open>The weight of the upper bound is monotone in the target and lies between 0 and 1.\<close>

lemma fraction_bounds:
  assumes b: "bucket_ok lo hi lc c" and t: "is_finite t" "fval lc \<le> fval t" "fval t \<le> fval c"
    and nz: "\<not> f64_le (f64_sub c lc) (Num 0)"
  shows "is_finite (f64_div (f64_sub t lc) (f64_sub c lc)) \<and>
    0 \<le> fval (f64_div (f64_sub t lc) (f64_sub c lc)) \<and> fval (f64_div (f64_sub t lc) (f64_sub c lc)) \<le> 1"
    and "is_finite (f64_sub t lc)" and "0 < fval (f64_sub c lc)"
proof -
  note d = bucket_okD [OF b]
  let ?s = "f64_sub t lc" and ?b = "f64_sub c lc"
  have fb: "is_finite ?b" "0 \<le> fval ?b" using count_diff [OF b] by auto
  with nz show pos: "0 < fval ?b"
    using f64_le_fin [of ?b "Num 0"] by simp
  have rs: "rounds_to ?s (fval t - fval lc)" "rounds_to ?b (fval c - fval lc)"
    using d t by (auto intro: sub_rounds)
  have s: "f64_le (Num 0) ?s" "f64_le ?s ?b"
    using t by (auto intro: le_rounds [OF _ rs(1)] rounds_mono [OF rs])
  then show fs: "is_finite ?s" using f64_between [of "Num 0" ?s ?b] fb by simp
  have sv: "0 \<le> fval ?s" "fval ?s \<le> fval ?b"
    using f64_between [OF s] fb by simp_all
  have rf: "rounds_to (f64_div ?s ?b) (fval ?s / fval ?b)"
    using fs fb pos by (intro div_rounds) auto
  have "f64_le (Num 0) (f64_div ?s ?b)" "f64_le (f64_div ?s ?b) (Num 1)"
    using sv pos by (auto intro!: le_rounds [OF _ rf] rounds_le [OF rf])
  from f64_between [OF this] show "is_finite (f64_div ?s ?b) \<and> 0 \<le> fval (f64_div ?s ?b) \<and> fval (f64_div ?s ?b) \<le> 1"
    by simp
qed

lemma offset_bounds:
  assumes b: "bucket_ok lo hi lc c" and f: "is_finite f" "0 \<le> fval f" "fval f \<le> 1"
  shows "is_finite (f64_mul f (f64_sub hi lo)) \<and> 0 \<le> fval (f64_mul f (f64_sub hi lo)) \<and>
    fval (f64_mul f (f64_sub hi lo)) \<le> fval hi - fval lo"
    and "rounds_to (f64_mul f (f64_sub hi lo)) (fval f * (fval hi - fval lo))"
proof -
  note d = bucket_okD [OF b]
  have "rounds_to (f64_sub hi lo) (fval hi - fval lo)" "repr (Num (fval hi - fval lo))"
    using d b by (auto intro: sub_rounds simp: bucket_ok_def)
  from rounds_exact [OF this] have x: "is_finite (f64_sub hi lo)" "fval (f64_sub hi lo) = fval hi - fval lo"
    by auto
  show r: "rounds_to (f64_mul f (f64_sub hi lo)) (fval f * (fval hi - fval lo))"
    using mul_rounds [OF f(1) x(1)] x(2) by simp
  have "fval f * (fval hi - fval lo) \<le> 1 * (fval hi - fval lo)"
    using f d by (intro mult_right_mono) auto
  then have "f64_le (Num 0) (f64_mul f (f64_sub hi lo))"
    "f64_le (f64_mul f (f64_sub hi lo)) (Num (fval hi - fval lo))"
    using f d b by (auto intro!: le_rounds [OF _ r] rounds_le [OF r] simp: bucket_ok_def)
  from f64_between [OF this] show "is_finite (f64_mul f (f64_sub hi lo)) \<and>
      0 \<le> fval (f64_mul f (f64_sub hi lo)) \<and> fval (f64_mul f (f64_sub hi lo)) \<le> fval hi - fval lo"
    by simp
qed

lemma interpolate_bounds:
  assumes b: "bucket_ok lo hi lc c" and t: "is_finite t" "fval lc \<le> fval t" "fval t \<le> fval c"
    and nz: "\<not> f64_le (f64_sub c lc) (Num 0)"
  shows "f64_le lo (interpolate lo hi lc c t)" and "f64_le (interpolate lo hi lc c t) hi"
proof -
  note d = bucket_okD [OF b] and f = fraction_bounds [OF b t nz]
  note w = offset_bounds [OF b] f(1)
  let ?w = "f64_mul (f64_div (f64_sub t lc) (f64_sub c lc)) (f64_sub hi lo)"
  have wb: "is_finite ?w" "0 \<le> fval ?w" "fval ?w \<le> fval hi - fval lo" using w by auto
  have r: "rounds_to (interpolate lo hi lc c t) (fval lo + fval ?w)"
    unfolding interpolate_def using d wb by (intro add_rounds) auto
  show "f64_le lo (interpolate lo hi lc c t)" "f64_le (interpolate lo hi lc c t) hi"
    using wb b by (auto intro!: le_rounds [OF _ r] rounds_le [OF r] simp: bucket_ok_def)
qed

lemma interpolate_mono:
  assumes b: "bucket_ok lo hi lc c" and t: "is_finite t" "is_finite u" "fval lc \<le> fval t" "fval t \<le> fval u"
    "fval u \<le> fval c" and nz: "\<not> f64_le (f64_sub c lc) (Num 0)"
  shows "f64_le (interpolate lo hi lc c t) (interpolate lo hi lc c u)"
proof -
  note d = bucket_okD [OF b]
  have fin: "is_finite lo" "is_finite lc" using d by auto
  let ?b = "f64_sub c lc"
  have tc: "fval t \<le> fval c" "fval lc \<le> fval u" using t by auto
  note ft = fraction_bounds [OF b t(1,3) tc(1) nz] and fu = fraction_bounds [OF b t(2) tc(2) t(5) nz]
  have bf: "is_finite ?b" "fval ?b \<noteq> 0" using count_diff [OF b] ft(3) by auto
  have s: "f64_le (f64_sub t lc) (f64_sub u lc)"
    using t fin by (intro rounds_mono [OF sub_rounds sub_rounds]) auto
  then have "fval (f64_sub t lc) / fval ?b \<le> fval (f64_sub u lc) / fval ?b"
    using ft fu by (intro divide_right_mono f64_le_fval) auto
  then have "f64_le (f64_div (f64_sub t lc) ?b) (f64_div (f64_sub u lc) ?b)"
    using ft(2) fu(2) bf by (intro rounds_mono [OF div_rounds div_rounds]) auto
  then have fr: "fval (f64_div (f64_sub t lc) ?b) \<le> fval (f64_div (f64_sub u lc) ?b)"
    using ft(1) fu(1) by (intro f64_le_fval) auto
  note wt = offset_bounds [OF b, of "f64_div (f64_sub t lc) ?b"]
    and wu = offset_bounds [OF b, of "f64_div (f64_sub u lc) ?b"]
  have "f64_le (f64_mul (f64_div (f64_sub t lc) ?b) (f64_sub hi lo)) (f64_mul (f64_div (f64_sub u lc) ?b) (f64_sub hi lo))"
    using wt(2) wu(2) ft(1) fu(1) fr d by (intro rounds_mono [OF wt(2) wu(2)] mult_right_mono) auto
  then have "fval (f64_mul (f64_div (f64_sub t lc) ?b) (f64_sub hi lo)) \<le> fval (f64_mul (f64_div (f64_sub u lc) ?b) (f64_sub hi lo))"
    using wt(1) wu(1) ft(1) fu(1) by (intro f64_le_fval) auto
  then show ?thesis
    unfolding interpolate_def using wt(1) wu(1) ft(1) fu(1) fin
    by (intro rounds_mono [OF add_rounds add_rounds]) auto
qed

section \<open>Well-formed cumulative histograms\<close>

text \<open>
  Bounds ascend from the lower edge, counts ascend from the count below it, everything is a
  binary64, the widths are exact (as they are for integer bounds), and only the last bound is \<open>+Inf\<close>.
\<close>

fun steps_ok :: "f64 \<Rightarrow> f64 \<Rightarrow> (f64 \<times> f64) list \<Rightarrow> bool" where
  "steps_ok lo lc [] = True"
| "steps_ok lo lc ((le, c) # bs) =
     (if le = PInf then repr c \<and> f64_le lc c \<and> bs = []
      else bucket_ok lo le lc c \<and> steps_ok le c bs)"

definition histogram_ok :: "(f64 \<times> f64) list \<Rightarrow> bool" where
  "histogram_ok bs \<longleftrightarrow> 2 \<le> length bs \<and> steps_ok (Num 0) (Num 0) bs \<and> f64_gt (snd (last bs)) (Num 0)"

text \<open>The index of the bucket where the target is reached, and its lower edge.\<close>

definition crossing :: "f64 \<Rightarrow> (f64 \<times> f64) list \<Rightarrow> nat" where
  "crossing t bs = length (takeWhile (\<lambda>b. \<not> f64_ge (snd b) t) bs)"

definition lower_edge :: "f64 \<Rightarrow> (f64 \<times> f64) list \<Rightarrow> nat \<Rightarrow> f64" where
  "lower_edge lo bs i = (if i = 0 then lo else fst (bs ! (i - 1)))"

lemma lower_edge_Cons: "lower_edge lo ((le, c) # bs) (Suc i) = lower_edge le bs i"
  by (simp add: lower_edge_def)

definition inside_bucket :: "f64 \<Rightarrow> (f64 \<times> f64) list \<Rightarrow> f64 \<Rightarrow> f64 \<Rightarrow> bool" where
  "inside_bucket lo bs t v \<longleftrightarrow>
     crossing t bs < length bs \<and> f64_le (lower_edge lo bs (crossing t bs)) v \<and>
     (if is_finite (fst (bs ! crossing t bs)) then f64_le v (fst (bs ! crossing t bs))
      else v = lower_edge lo bs (crossing t bs))"

lemma inside_bucket_here:
  "f64_ge c t \<Longrightarrow> inside_bucket lo ((le, c) # bs) t v \<longleftrightarrow>
     f64_le lo v \<and> (if is_finite le then f64_le v le else v = lo)"
  by (simp add: inside_bucket_def crossing_def lower_edge_def)

lemma inside_bucket_later:
  "\<not> f64_ge c t \<Longrightarrow> inside_bucket lo ((le, c) # bs) t v \<longleftrightarrow> inside_bucket le bs t v"
  by (simp add: inside_bucket_def crossing_def lower_edge_Cons)

lemma walk_here:
  assumes "f64_ge c t" "is_finite le"
  shows "quantile_walk t lo lc ((le, c) # bs) =
    Some (if f64_le (f64_sub c lc) (Num 0) then le else interpolate lo le lc c t)"
  using assms by (cases le) (auto simp: interpolate_def Let_def)

text \<open>The answer inside the first bucket, its bounds and its monotonicity.\<close>

lemma bucket_value_bounds:
  assumes "bucket_ok lo le lc c" "is_finite t" "fval lc \<le> fval t" "f64_ge c t"
  shows "f64_le lo (if f64_le (f64_sub c lc) (Num 0) then le else interpolate lo le lc c t) \<and>
    f64_le (if f64_le (f64_sub c lc) (Num 0) then le else interpolate lo le lc c t) le"
proof -
  note d = bucket_okD [OF assms(1)]
  have "fval t \<le> fval c" using assms d by (simp add: f64_ge_def f64_le_fin)
  moreover have "f64_le le le" "f64_le lo le" using d by (auto simp: f64_le_fin)
  ultimately show ?thesis using interpolate_bounds [OF assms(1,2,3)] by simp
qed

lemma walk_inside:
  assumes "steps_ok lo lc bs" "bs \<noteq> []" "repr lo" "repr lc" "f64_le (Num 0) lc" "is_finite t"
    "fval lc \<le> fval t" "f64_le t (snd (last bs))"
  shows "\<exists>v. quantile_walk t lo lc bs = Some v \<and> inside_bucket lo bs t v \<and> f64_le lo v"
  using assms
proof (induction t lo lc bs rule: quantile_walk.induct)
  case (1 t lo lc)
  then show ?case by simp
next
  case (2 t lo lc le c bs)
  show ?case
  proof (cases "f64_ge c t")
    case True
    show ?thesis
    proof (cases "le = PInf")
      case inf: True
      then show ?thesis using True 2 by (auto simp: inside_bucket_here repr_finite f64_le_fin)
    next
      case False
      then have b: "bucket_ok lo le lc c" using 2(2) by simp
      note d = bucket_okD [OF b]
      show ?thesis
        unfolding walk_here [OF True d(2)] inside_bucket_here [OF True]
        using bucket_value_bounds [OF b 2(7,8) True] d(2) by simp
    qed
  next
    case False
    then have bs: "bs \<noteq> []" using 2(9) by (auto simp: f64_ge_def)
    then have b: "bucket_ok lo le lc c" and st: "steps_ok le c bs" using 2(2) by (auto split: if_splits)
    note d = bucket_okD [OF b]
    have lt: "fval c \<le> fval t" using False d 2(7) by (auto simp: f64_ge_def f64_le_fin)
    have c0: "f64_le (Num 0) c" using d by (simp add: f64_le_fin)
    have last: "f64_le t (snd (last bs))" using 2(9) bs by simp
    obtain v where "quantile_walk t le c bs = Some v" "inside_bucket le bs t v" "f64_le le v"
      using 2(1) [OF False st bs _ _ c0 2(7) lt last] b by (auto simp: bucket_ok_def)
    moreover have "f64_le lo v" using b \<open>f64_le le v\<close> by (auto simp: bucket_ok_def intro: f64_le_trans)
    ultimately show ?thesis using False by (simp add: inside_bucket_later)
  qed
qed

text \<open>The lower target is reached in this bucket; the higher one here or further up.\<close>

lemma walk_mono_here:
  assumes b: "bucket_ok lo le lc c" and st: "steps_ok le c bs" and t: "is_finite t" "is_finite u" "fval lc \<le> fval t"
    "fval t \<le> fval u" and last: "f64_le u (snd (last ((le, c) # bs)))" and here: "f64_ge c t"
    and walks: "quantile_walk t lo lc ((le, c) # bs) = Some v" "quantile_walk u lo lc ((le, c) # bs) = Some w"
  shows "f64_le v w"
proof -
  note d = bucket_okD [OF b]
  have v: "v = (if f64_le (f64_sub c lc) (Num 0) then le else interpolate lo le lc c t)"
    using walk_here [OF here d(2)] walks(1) by simp
  have vle: "f64_le v le" using bucket_value_bounds [OF b t(1,3) here] by (simp add: v)
  show ?thesis
  proof (cases "f64_ge c u")
    case True
    have w: "w = (if f64_le (f64_sub c lc) (Num 0) then le else interpolate lo le lc c u)"
      using walk_here [OF True d(2)] walks(2) by simp
    have "fval u \<le> fval c" using True d t(2) by (simp add: f64_ge_def f64_le_fin)
    then show ?thesis using interpolate_mono [OF b t] d by (simp add: v w f64_le_fin)
  next
    case False
    with last have bs: "bs \<noteq> []" by (auto simp: f64_ge_def)
    have "fval c \<le> fval u" "f64_le (Num 0) c" using False d t(2) by (auto simp: f64_ge_def f64_le_fin)
    then have "f64_le le w"
      using walk_inside [OF st bs, of u] b t(2) last walks(2) False bs by (auto simp: bucket_ok_def)
    with vle show ?thesis by (rule f64_le_trans)
  qed
qed

lemma walk_mono:
  assumes "steps_ok lo lc bs" "repr lo" "repr lc" "f64_le (Num 0) lc" "is_finite t" "is_finite u"
    "fval lc \<le> fval t" "fval t \<le> fval u" "f64_le u (snd (last bs))"
    "quantile_walk t lo lc bs = Some v" "quantile_walk u lo lc bs = Some w"
  shows "f64_le v w"
  using assms
proof (induction t lo lc bs rule: quantile_walk.induct)
  case (1 t lo lc)
  then show ?case by simp
next
  case (2 t lo lc le c bs)
  have fc: "is_finite c" using 2(2) by (auto split: if_splits simp: bucket_ok_def repr_finite)
  have ord: "f64_ge c u \<Longrightarrow> f64_ge c t"
    using fc 2(6,7,9) by (auto simp: f64_ge_def f64_le_fin)
  show ?case
  proof (cases "f64_ge c t")
    case False
    with ord have nu: "\<not> f64_ge c u" by blast
    with 2(10) have bs: "bs \<noteq> []" by (auto simp: f64_ge_def)
    then have b: "bucket_ok lo le lc c" and st: "steps_ok le c bs" using 2(2) by (auto split: if_splits)
    note d = bucket_okD [OF b]
    have "fval c \<le> fval t" "f64_le (Num 0) c" using False d 2(6) by (auto simp: f64_ge_def f64_le_fin)
    then show ?thesis
      using 2(1) [OF False st] False nu bs b 2(6,7,9-12) by (auto simp: bucket_ok_def)
  next
    case True
    show ?thesis
    proof (cases "le = PInf")
      case inf: True
      with 2(2) have "bs = []" by simp
      with 2(10) have "f64_ge c u" by (simp add: f64_ge_def)
      with inf True 2(11,12) show ?thesis using 2(3) by (simp add: repr_finite f64_le_fin)
    next
      case False
      then have b: "bucket_ok lo le lc c" and st: "steps_ok le c bs" using 2(2) by auto
      show ?thesis by (rule walk_mono_here [OF b st 2(6-10) True 2(11,12)])
    qed
  qed
qed

section \<open>Quantiles\<close>

lemma steps_last_repr: "steps_ok lo lc bs \<Longrightarrow> bs \<noteq> [] \<Longrightarrow> repr (snd (last bs))"
proof (induction lo lc bs rule: steps_ok.induct)
  case (2 lo lc le c bs)
  then show ?case by (cases bs) (auto split: if_splits simp: bucket_ok_def)
qed simp

lemma histogram_okD:
  assumes "histogram_ok bs"
  shows "bs \<noteq> []" "steps_ok (Num 0) (Num 0) bs" "repr (snd (last bs))" "0 < fval (snd (last bs))"
proof -
  show ne: "bs \<noteq> []" and st: "steps_ok (Num 0) (Num 0) bs" using assms by (auto simp: histogram_ok_def)
  then show r: "repr (snd (last bs))" using steps_last_repr by blast
  show "0 < fval (snd (last bs))"
    using assms f64_lt_fin [OF _ repr_finite [OF r], of "Num 0"] by (simp add: histogram_ok_def f64_gt_def)
qed

lemma target_bounds:
  assumes "histogram_ok bs" "is_finite q" "0 \<le> fval q" "fval q \<le> 1"
  shows "is_finite (f64_mul q (snd (last bs)))" "0 \<le> fval (f64_mul q (snd (last bs)))"
    "f64_le (f64_mul q (snd (last bs))) (snd (last bs))"
proof -
  note d = histogram_okD [OF assms(1)]
  let ?T = "snd (last bs)"
  have r: "rounds_to (f64_mul q ?T) (fval q * fval ?T)"
    using assms d by (intro mul_rounds) (auto simp: repr_finite)
  have "fval q * fval ?T \<le> 1 * fval ?T" using assms d by (intro mult_right_mono) auto
  then have "f64_le (Num 0) (f64_mul q ?T)" and le: "f64_le (f64_mul q ?T) ?T"
    using assms d by (auto intro!: le_rounds [OF _ r] rounds_le [OF r])
  from f64_between [OF this] le d(3) show "is_finite (f64_mul q ?T)" "0 \<le> fval (f64_mul q ?T)"
    "f64_le (f64_mul q ?T) ?T" by (auto simp: repr_finite)
qed

lemma inner_quantile:
  assumes "f64_lt (Num 0) q" "f64_lt q (Num 1)"
  shows "is_finite q" "0 \<le> fval q" "fval q \<le> 1" "\<not> f64_le q (Num 0)" "\<not> f64_ge q (Num 1)" "\<not> is_nan q"
  using assms by (cases q; auto simp: f64_le_def f64_ge_def)+

lemma quantile_walks:
  assumes "histogram_ok bs" "f64_lt (Num 0) q" "f64_lt q (Num 1)"
  shows "quantile_from_buckets bs q = quantile_walk (f64_mul q (snd (last bs))) (Num 0) (Num 0) bs"
proof -
  note d = histogram_okD [OF assms(1)] and i = inner_quantile [OF assms(2,3)]
  have "\<not> f64_le (snd (last bs)) (Num 0)" using d f64_le_fin [of "snd (last bs)" "Num 0"] by (simp add: repr_finite)
  then show ?thesis using assms(1) i by (simp add: quantile_from_buckets_def histogram_ok_def Let_def)
qed

text \<open>
  (C21) On a well-formed cumulative histogram every quantile strictly between 0 and 1 exists and lies
  in the bucket where the cumulative count first reaches \<open>q\<close> times the total: between the bucket's
  bounds, or at the largest finite bound when that bucket is the \<open>+Inf\<close> one.
\<close>

theorem quantile_inside_bucket:
  assumes "histogram_ok bs" "f64_lt (Num 0) q" "f64_lt q (Num 1)"
  shows "\<exists>v. quantile_from_buckets bs q = Some v \<and>
    inside_bucket (Num 0) bs (f64_mul q (snd (last bs))) v"
proof -
  note d = histogram_okD [OF assms(1)] and i = inner_quantile [OF assms(2,3)]
  note t = target_bounds [OF assms(1) i(1,2,3)]
  have "f64_le (Num 0) (Num 0)" by (simp add: f64_le_def)
  then show ?thesis
    using walk_inside [OF d(2,1), of "f64_mul q (snd (last bs))"] t quantile_walks [OF assms] by auto
qed

text \<open>
  Quantiles are monotone, in the rounded arithmetic of the code: of two quantiles strictly
  between 0 and 1 on the same well-formed histogram, the larger one has an answer at least as large.
\<close>

theorem quantile_monotone:
  assumes "histogram_ok bs" "f64_lt (Num 0) p" "f64_le p q" "f64_lt q (Num 1)"
    "quantile_from_buckets bs p = Some v" "quantile_from_buckets bs q = Some w"
  shows "f64_le v w"
proof -
  note d = histogram_okD [OF assms(1)]
  have p1: "f64_lt p (Num 1)" and q0: "f64_lt (Num 0) q"
    using assms(2-4) by (cases p; cases q; auto simp: f64_le_def)+
  note ip = inner_quantile [OF assms(2) p1] and iq = inner_quantile [OF q0 assms(4)]
  note tp = target_bounds [OF assms(1) ip(1,2,3)] and tq = target_bounds [OF assms(1) iq(1,2,3)]
  have "fval p * fval (snd (last bs)) \<le> fval q * fval (snd (last bs))"
    using f64_le_fval [OF assms(3) ip(1) iq(1)] d by (intro mult_right_mono) auto
  then have "f64_le (f64_mul p (snd (last bs))) (f64_mul q (snd (last bs)))"
    using ip iq d by (intro rounds_mono [OF mul_rounds mul_rounds]) (auto simp: repr_finite)
  then have "fval (f64_mul p (snd (last bs))) \<le> fval (f64_mul q (snd (last bs)))"
    using tp tq by (intro f64_le_fval) auto
  moreover have "f64_le (Num 0) (Num 0)" by (simp add: f64_le_def)
  ultimately show ?thesis
    using walk_mono [OF d(2), of "f64_mul p (snd (last bs))" "f64_mul q (snd (last bs))" v w] tp tq
      assms(5,6) quantile_walks [OF assms(1,2) p1] quantile_walks [OF assms(1) q0 assms(4)] by auto
qed

text \<open>A request latency histogram: 2 requests up to 1, 6 up to 5, 8 in all.\<close>

definition demo_buckets :: "(f64 \<times> f64) list" where
  "demo_buckets = [(Num 1, Num 2), (Num 5, Num 6), (PInf, Num 8)]"

lemma demo_buckets_ok: "histogram_ok demo_buckets"
proof -
  have r: "repr (Num 2)" "repr (Num 5)" "repr (Num 6)" "repr (Num 8)" "repr (Num 4)"
    using repr_int [of 2] repr_int [of 5] repr_int [of 6] repr_int [of 8] repr_int [of 4] by simp_all
  then show ?thesis
    by (simp add: histogram_ok_def demo_buckets_def bucket_ok_def f64_le_def f64_gt_def)
qed

theorem quantile_inside_bucket_witness:
  "histogram_ok demo_buckets \<and> inside_bucket (Num 0) demo_buckets (f64_mul (Num (1 / 2)) (Num 8)) (Num 3) \<and>
   (\<exists>v. quantile_from_buckets demo_buckets (Num (1 / 2)) = Some v \<and>
     inside_bucket (Num 0) demo_buckets (f64_mul (Num (1 / 2)) (snd (last demo_buckets))) v)"
proof (intro conjI)
  show "inside_bucket (Num 0) demo_buckets (f64_mul (Num (1 / 2)) (Num 8)) (Num 3)"
    by (simp add: inside_bucket_def crossing_def lower_edge_def demo_buckets_def f64_mul_def f64_le_def
        f64_ge_def Let_def)
  show "\<exists>v. quantile_from_buckets demo_buckets (Num (1 / 2)) = Some v \<and>
     inside_bucket (Num 0) demo_buckets (f64_mul (Num (1 / 2)) (snd (last demo_buckets))) v"
    by (rule quantile_inside_bucket [OF demo_buckets_ok]) simp_all
qed (rule demo_buckets_ok)

lemma demo_quantiles:
  "quantile_from_buckets demo_buckets (Num (1 / 4)) = Some (Num 1)"
  "quantile_from_buckets demo_buckets (Num (1 / 2)) = Some (Num 3)"
  by (simp_all add: demo_buckets_def quantile_from_buckets_def f64_mul_def f64_sub_def f64_div_def
      f64_le_def f64_ge_def Let_def)

theorem quantile_monotone_witness: "histogram_ok demo_buckets \<and> f64_le (Num 1) (Num 3)"
  using quantile_monotone [OF demo_buckets_ok, of "Num (1 / 4)" "Num (1 / 2)" "Num 1" "Num 3"]
    demo_quantiles demo_buckets_ok by (simp add: f64_le_def)

text \<open>
  The lower edge of the first bucket is taken to be 0 even when its bound is negative, so the answer
  then lies above the bound of the bucket it was found in (Prometheus answers the bound itself).
\<close>

lemma quantile_negative_bound:
  "quantile_from_buckets [(Num (- 10), Num 4), (PInf, Num 4)] (Num (1 / 2)) = Some (Num (- 5)) \<and>
   f64_lt (Num (- 10)) (Num (- 5))"
  by (simp add: quantile_from_buckets_def f64_mul_def f64_sub_def f64_div_def f64_le_def f64_ge_def Let_def)

end
