(* ===== verification/Pushdown_Hist_Props.thy ===== *)
theory Pushdown_Hist_Props
  imports Pushdown_Hist Quantile Selector_Props
begin

text \<open>
  \<open>histogram_quantile\<close> in SQL against the walk over the buckets in Rust.
\<close>

section \<open>An engine with IEEE comparisons\<close>

definition ieee_engine :: "query_env \<Rightarrow> bool" where
  "ieee_engine Q \<longleftrightarrow>
     (\<forall>op a b. is_comparison op \<longrightarrow> \<not> is_nan a \<longrightarrow> \<not> is_nan b \<longrightarrow> qe_cmp Q op a b = comparison_passes a b op) \<and>
     (\<forall>a b. \<not> is_nan a \<longrightarrow> \<not> is_nan b \<longrightarrow> qe_le Q a b = f64_le a b)"

lemma ieee_cmp:
  assumes "ieee_engine Q" "\<not> is_nan a" "\<not> is_nan b"
  shows "qe_cmp Q Gt a b = f64_gt a b" "qe_cmp Q Ge a b = f64_ge a b" "qe_cmp Q Le a b = f64_le a b"
    "qe_cmp Q Eq a b = f64_eq a b"
  using assms by (simp_all add: ieee_engine_def is_comparison_def)

lemma ieee_le: "ieee_engine Q \<Longrightarrow> \<not> is_nan a \<Longrightarrow> \<not> is_nan b \<Longrightarrow> qe_le Q a b = f64_le a b"
  by (simp add: ieee_engine_def)

section \<open>Sorting\<close>

lemma insort_by_cong:
  "\<forall>y \<in> set ys. cmp x y = Greater \<longleftrightarrow> cmp' x y = Greater \<Longrightarrow> insort_by cmp x ys = insort_by cmp' x ys"
  by (induction ys) auto

lemma sort_by_cong:
  "\<forall>x \<in> set xs. \<forall>y \<in> set xs. cmp x y = Greater \<longleftrightarrow> cmp' x y = Greater \<Longrightarrow> sort_by cmp xs = sort_by cmp' xs"
proof (induction xs)
  case (Cons x xs)
  then have "sort_by cmp xs = sort_by cmp' xs" by simp
  moreover have "insort_by cmp x (sort_by cmp' xs) = insort_by cmp' x (sort_by cmp' xs)"
    using Cons.prems by (intro insort_by_cong) simp
  ultimately show ?case by simp
qed simp

text \<open>Bounds and counts as histograms have them: no NaN, no bound of minus infinity, finite counts.\<close>

definition plain_buckets :: "(f64 \<times> f64) list \<Rightarrow> bool" where
  "plain_buckets bs \<longleftrightarrow> (\<forall>(le, c) \<in> set bs. \<not> is_nan le \<and> le \<noteq> NInf \<and> is_finite c)"

lemma sort_buckets_sql:
  assumes "ieee_engine Q" "plain_buckets bs"
  shows "sort_by (\<lambda>a b. rank_cmp Q False (fst a) (fst b)) bs = sort_buckets bs"
  unfolding sort_buckets_def
proof (rule sort_by_cong, intro ballI)
  fix x y assume "x \<in> set bs" "y \<in> set bs"
  then have n: "\<not> is_nan (fst x)" "\<not> is_nan (fst y)" using assms(2) by (auto simp: plain_buckets_def)
  then have "f64_le (fst x) (fst y) \<longleftrightarrow> \<not> f64_lt (fst y) (fst x)" by (simp add: f64_not_lt)
  moreover have "f64_lt (fst y) (fst x) \<Longrightarrow> \<not> f64_lt (fst x) (fst y)"
    using f64_lt_trans f64_lt_irrefl by blast
  ultimately show "rank_cmp Q False (fst x) (fst y) = Greater \<longleftrightarrow> cmp_or_equal (fst x) (fst y) = Greater"
    using ieee_le [OF assms(1) n] by (auto simp: rank_cmp_def cmp_or_equal_def)
qed

section \<open>The walk\<close>

lemma finite_not_nan: "is_finite x \<Longrightarrow> \<not> is_nan x"
  by (cases x) auto

lemma sub_not_nan: "is_finite x \<Longrightarrow> is_finite y \<Longrightarrow> \<not> is_nan (f64_sub x y)"
  using f64_add_cases [of x "f64_neg y"] by (auto simp: f64_sub_def finite_neg rnd_not_nan)

lemma mul_not_nan: "is_finite x \<Longrightarrow> is_finite y \<Longrightarrow> \<not> is_nan (f64_mul x y)"
  using f64_mul_cases [of x y] by (auto simp: rnd_not_nan)

abbreviation "lower_of prev \<equiv> (case prev of Some (l, c) \<Rightarrow> l | None \<Rightarrow> Num 0)"
abbreviation "count_of prev \<equiv> (case prev of Some (l, c) \<Rightarrow> c | None \<Rightarrow> Num 0)"

lemma crossing_walk:
  assumes "ieee_engine Q" "is_finite q" "is_finite tot" "f64_gt tot (Num 0)"
  shows "plain_buckets bs \<Longrightarrow> is_finite (count_of prev) \<Longrightarrow>
    crossing_value Q q tot prev bs = quantile_walk (f64_mul q tot) (lower_of prev) (count_of prev) bs"
proof (induction bs arbitrary: prev)
  case (Cons b bs)
  obtain le c where b: "b = (le, c)" by (cases b)
  have p: "\<not> is_nan le" "le \<noteq> NInf" "is_finite c" "plain_buckets bs"
    using Cons.prems(1) by (auto simp: plain_buckets_def b)
  have nt: "\<not> is_nan (f64_mul q tot)" using assms by (intro mul_not_nan)
  have reach: "qe_cmp Q Gt tot (Num 0) \<and> qe_cmp Q Ge c (f64_mul q tot) \<longleftrightarrow> f64_ge c (f64_mul q tot)"
    using ieee_cmp(1) [OF assms(1), of tot "Num 0"] ieee_cmp(2) [OF assms(1) _ nt, of c] assms p(3)
    by (simp add: finite_not_nan)
  have inf: "qe_cmp Q Eq le PInf \<longleftrightarrow> is_infinite le"
    using ieee_cmp(4) [OF assms(1) p(1), of PInf] p(1,2) by (cases le) auto
  have flat: "qe_cmp Q Le (f64_sub c (count_of prev)) (Num 0) \<longleftrightarrow> f64_le (f64_sub c (count_of prev)) (Num 0)"
    using ieee_cmp(3) [OF assms(1) sub_not_nan [OF p(3) Cons.prems(2)], of "Num 0"] by simp
  have "crossing_value Q q tot (Some (le, c)) bs = quantile_walk (f64_mul q tot) le c bs"
    using Cons.IH [OF p(4), of "Some (le, c)"] p(3) by simp
  then show ?case
    unfolding b crossing_value.simps quantile_walk.simps reach quantile_case_def Let_def inf flat by simp
qed simp

text \<open>
  (C28) Pushing \<open>histogram_quantile\<close> into SQL changes no result: on the buckets of a group, at least two
  of them, with the greatest count in the last, and for a quantile strictly between 0 and 1, the
  statement's windows and joins compute what the walk over the sorted buckets computes in Rust, when
  the engine compares floats as IEEE does. A single bucket is different: the Rust path answers
  nothing, whatever the statement does.
\<close>

theorem quantile_pushdown_matches:
  assumes "ieee_engine Q" "plain_buckets bs" "2 \<le> length bs"
    "qe_agg Q Max (map snd bs) = snd (last (sort_buckets bs))"
    "is_finite q" "f64_gt q (Num 0)" "f64_lt q (Num 1)"
  shows "quantile_sql Q q bs = quantile_from_buckets (sort_buckets bs) q \<and>
    quantile_from_buckets [b] q = None"
proof
  let ?s = "sort_buckets bs"
  let ?tot = "snd (last ?s)"
  have len: "length ?s = length bs" and set: "set ?s = set bs" by (simp_all add: sort_buckets_def)
  have pl: "plain_buckets ?s" using assms(2) unfolding plain_buckets_def set .
  have "last ?s \<in> set ?s" using assms(3) len by (intro last_in_set) auto
  then have fin: "is_finite ?tot" using pl by (auto simp: plain_buckets_def)
  have q: "\<not> is_nan q" "\<not> f64_le q (Num 0)" "\<not> f64_ge q (Num 1)"
    using assms(5-7) f64_not_lt [of "Num 0" q] f64_not_lt [of q "Num 1"] finite_not_nan [OF assms(5)]
    by (auto simp: f64_gt_def f64_ge_def)
  have sql: "quantile_sql Q q bs = crossing_value Q q ?tot None ?s"
    by (simp add: quantile_sql_def assms(4) sort_buckets_sql [OF assms(1,2)])
  have rust: "quantile_from_buckets ?s q =
      (if f64_le ?tot (Num 0) then None else quantile_walk (f64_mul q ?tot) (Num 0) (Num 0) ?s)"
    using assms(3) len q by (simp add: quantile_from_buckets_def)
  have pos: "\<not> f64_le ?tot (Num 0) \<longleftrightarrow> f64_gt ?tot (Num 0)"
    using f64_not_lt [of "Num 0" ?tot] finite_not_nan [OF fin] by (auto simp: f64_gt_def)
  show "quantile_sql Q q bs = quantile_from_buckets ?s q"
  proof (cases "f64_gt ?tot (Num 0)")
    case True
    then show ?thesis
      using crossing_walk [OF assms(1,5) fin True pl, of None] pos unfolding sql rust by simp
  next
    case False
    then have "\<not> qe_cmp Q Gt ?tot (Num 0)"
      using ieee_cmp(1) [OF assms(1), of ?tot "Num 0"] finite_not_nan [OF fin] by simp
    then have "crossing_value Q q ?tot prev xs = None" for prev xs
      by (induction xs arbitrary: prev) auto
    then show ?thesis using False pos unfolding sql rust by simp
  qed
qed (simp add: quantile_from_buckets_def)

lemma demo_ieee: "ieee_engine demo_env"
  by (simp add: ieee_engine_def demo_env_def)

theorem quantile_pushdown_matches_witness:
  "quantile_sql demo_env (Num (1 / 2)) demo_buckets = Some (Num 3)"
proof -
  have s: "sort_buckets demo_buckets = demo_buckets"
    by (simp add: sort_buckets_def demo_buckets_def cmp_or_equal_def)
  have "quantile_sql demo_env (Num (1 / 2)) demo_buckets = quantile_from_buckets (sort_buckets demo_buckets) (Num (1 / 2))"
    using quantile_pushdown_matches [OF demo_ieee, of demo_buckets "Num (1 / 2)"]
    unfolding s by (simp add: plain_buckets_def demo_buckets_def demo_env_def f64_gt_def f64_max_def)
  then show ?thesis unfolding s by (simp add: demo_quantiles)
qed

end
