(* ===== verification/Pushdown_Topk_Props.thy ===== *)
theory Pushdown_Topk_Props
  imports Pushdown_Topk Pushdown_Agg_Equiv Pushdown_Hist_Props
begin

text \<open>
  \<open>topk\<close> and \<open>bottomk\<close> over a selector, pushed into SQL, against the ranking in Rust: both meet the
  specification \<open>keeps_best\<close> on the selector's points. They may differ in which of several equal values
  they keep.
\<close>

section \<open>The ranking of the statement\<close>

lemma rank_cmp_preorder:
  assumes "ieee_engine Q" "\<forall>x \<in> A. \<not> is_nan (f x)"
  shows "preorder_cmp (\<lambda>a b. rank_cmp Q tp (f a) (f b)) A"
  unfolding preorder_cmp_def
proof (intro conjI ballI impI)
  fix x y assume x: "x \<in> A" "y \<in> A" "rank_cmp Q tp (f x) (f y) = Greater"
  with assms have n: "\<not> is_nan (f x)" "\<not> is_nan (f y)" by auto
  show "rank_cmp Q tp (f y) (f x) = Less"
    using x(3) n f64_not_lt [of "f x" "f y"] f64_not_lt [of "f y" "f x"] f64_total [of "f x" "f y"]
    by (auto simp: rank_cmp_def ieee_le [OF assms(1)] f64_le_def split: if_splits)
next
  fix x y z assume x: "x \<in> A" "y \<in> A" "z \<in> A" "rank_cmp Q tp (f x) (f y) \<noteq> Greater" "rank_cmp Q tp (f y) (f z) \<noteq> Greater"
  with assms(2) have n: "\<not> is_nan (f x)" "\<not> is_nan (f y)" "\<not> is_nan (f z)" by auto
  show "rank_cmp Q tp (f x) (f z) \<noteq> Greater"
    using x(4,5) n f64_le_trans [of "f x" "f y" "f z"] f64_le_trans [of "f z" "f y" "f x"]
    by (auto simp: rank_cmp_def ieee_le [OF assms(1)] split: if_splits)
qed

lemma rank_by_cut:
  "rank_by Q n tp ks rows = map (\<lambda>(s, v). (st_id s, v))
     (cut n (\<lambda>x. key_values ks (fst x)) (\<lambda>a b. rank_cmp Q tp (snd a) (snd b)) (join_series (qe_db Q) rows))"
proof -
  let ?J = "join_series (qe_db Q) rows"
  let ?f = "\<lambda>(s, v). (st_id s, v)"
  have srt: "sort_by (\<lambda>a b. rank_cmp Q tp (snd a) (snd b)) (map ?f xs) =
      map ?f (sort_by (\<lambda>a b. rank_cmp Q tp (snd a) (snd b)) xs)" for xs :: "(series_tuple \<times> f64) list"
    by (rule map_sort_by [symmetric]) auto
  have grp: "map snd (filter (\<lambda>x. fst x = k) (map (\<lambda>(s, v). (key_values ks s, (st_id s, v))) ?J)) =
      map ?f (filter (\<lambda>x. key_values ks (fst x) = k) ?J)" for k
    by (simp add: filter_map comp_def case_prod_unfold)
  have keys: "fst ` set (map (\<lambda>(s, v). (key_values ks s, (st_id s, v))) ?J) = (\<lambda>x. key_values ks (fst x)) ` set ?J"
    by (simp add: image_image case_prod_unfold)
  show ?thesis
    unfolding rank_by_def rank_cut_def bt_group_eq_map cut_def keys map_map map_concat
    by (intro arg_cong [where f = concat] map_cong refl) (simp only: comp_def prod.case grp srt take_map)
qed

text \<open>Ranking by the text of the labels that are left, over rows of known series.\<close>

lemma rank_without_cut:
  assumes "ids_unique (qe_db Q)" "db_wf (qe_db Q)"
    "\<forall>x \<in> set J. fst x \<in> set (db_series (qe_db Q)) \<and> drop_labels ex (st_labels (fst x)) \<noteq> []"
  shows "rank_without Q n tp ex (map (\<lambda>(s, v). (st_id s, v)) J) = map (\<lambda>(s, v). (st_id s, v))
     (cut n (\<lambda>x. rest_text ex (fst x)) (\<lambda>a b. rank_cmp Q tp (snd a) (snd b)) J)"
proof -
  let ?f = "\<lambda>(s, v). (st_id s, v)"
  have srt: "sort_by (\<lambda>a b. rank_cmp Q tp (snd a) (snd b)) (map ?f xs) =
      map ?f (sort_by (\<lambda>a b. rank_cmp Q tp (snd a) (snd b)) xs)" for xs :: "(series_tuple \<times> f64) list"
    by (rule map_sort_by [symmetric]) auto
  have grp: "map snd (filter (\<lambda>x. fst x = k) (map (\<lambda>(s, v). (rest_text ex s, st_id s, v)) J)) =
      map ?f (filter (\<lambda>x. rest_text ex (fst x) = k) J)" for k
    by (simp add: filter_map comp_def case_prod_unfold)
  have keys: "fst ` set (map (\<lambda>(s, v). (rest_text ex s, st_id s, v)) J) = (\<lambda>x. rest_text ex (fst x)) ` set J"
    by (simp add: image_image case_prod_unfold)
  show ?thesis
    unfolding rank_without_def join_gk_texts [OF assms] rank_cut_def bt_group_eq_map cut_def keys map_map map_concat
    by (intro arg_cong [where f = concat] map_cong refl) (simp only: comp_def prod.case grp srt take_map)
qed

text \<open>Either ranking keeps the best of every group of rows that keep the same labels.\<close>

abbreviation "ranks_before tp a b \<equiv> (if tp then f64_le b a else f64_le a b)"

lemma ranks_before_trans: "ranks_before tp a b \<Longrightarrow> ranks_before tp b c \<Longrightarrow> ranks_before tp a c"
  by (auto intro: f64_le_trans split: if_splits)

lemma rank_cut_best:
  fixes J :: "(series_tuple \<times> f64) list" and key :: "series_tuple \<times> f64 \<Rightarrow> 'k :: linorder"
  assumes "ieee_engine Q" "\<forall>x \<in> set J. \<not> is_nan (snd x)"
    "\<And>x y. x \<in> set J \<Longrightarrow> y \<in> set J \<Longrightarrow> key x = key y \<longleftrightarrow> h (st_labels (fst x)) = h (st_labels (fst y))"
  shows "keeps_best n (\<lambda>x. h (st_labels (fst x))) (\<lambda>a b. ranks_before tp (snd a) (snd b)) J
    (cut n key (\<lambda>a b. rank_cmp Q tp (snd a) (snd b)) J)"
proof -
  let ?C = "cut n key (\<lambda>a b. rank_cmp Q tp (snd a) (snd b)) J"
  have "keeps_best n key (\<lambda>a b. ranks_before tp (snd a) (snd b)) J ?C"
    by (rule cut_keeps_best, rule rank_cmp_preorder [OF assms(1)])
      (use assms(2) in \<open>auto simp: rank_cmp_def ieee_le [OF assms(1)] split: if_splits\<close>)
  then have "keeps_best n (\<lambda>x. h (st_labels (fst x))) (\<lambda>a b. ranks_before tp (snd a) (snd b)) (map (\<lambda>x. x) J) (map (\<lambda>x. x) ?C)"
    by (rule keeps_best_map) (use assms(3) in simp_all)
  then show ?thesis by simp
qed

definition rank_grouped :: "query_env \<Rightarrow> nat \<Rightarrow> bool \<Rightarrow> label_modifier option \<Rightarrow> (int \<times> f64) list \<Rightarrow> (int \<times> f64) list" where
  "rank_grouped Q n tp modi rows =
     (case modifier_excluded_keys modi of
        Some ex \<Rightarrow> rank_without Q n tp ex rows
      | None \<Rightarrow> rank_by Q n tp (aggregate_group_keys modi) rows)"

lemma rank_grouped_best:
  assumes "series_table_ok (qe_db Q)" "fst ` set rows \<subseteq> st_id ` picked (qe_db Q) sel" "remaining_tell (qe_db Q) sel modi"
    "ieee_engine Q" "\<forall>x \<in> set (join_series (qe_db Q) rows). \<not> is_nan (snd x)"
  shows "keeps_best n (\<lambda>x. retained_labels (st_labels (fst x)) modi) (\<lambda>a b. ranks_before tp (snd a) (snd b))
    (join_series (qe_db Q) rows) (join_series (qe_db Q) (rank_grouped Q n tp modi rows))"
proof -
  let ?J = "join_series (qe_db Q) rows" and ?cmp = "\<lambda>a b :: series_tuple \<times> f64. rank_cmp Q tp (snd a) (snd b)"
  have ids: "ids_unique (qe_db Q)" and wf: "db_wf (qe_db Q)" using assms(1) by (simp_all add: series_table_ok_def)
  note J = join_series_picked [OF ids assms(2)]
  have kept: "join_series (qe_db Q) (map (\<lambda>(s, v). (st_id s, v)) (cut n key ?cmp ?J)) = cut n key ?cmp ?J"
    for key :: "series_tuple \<times> f64 \<Rightarrow> 'k :: linorder"
  proof (rule join_series_back [OF ids])
    have "set (cut n key ?cmp ?J) \<subseteq> set ?J" by (metis cut_sub set_mset_mono set_mset_mset)
    then show "\<forall>x \<in> set (cut n key ?cmp ?J). fst x \<in> set (db_series (qe_db Q))" using join_series_from by blast
  qed
  show ?thesis
  proof (cases "modifier_excluded_keys modi")
    case None
    have lwf: "bt_wf (st_labels (fst x))" if "x \<in> set ?J" for x
      using join_series_wf [OF wf, of "fst x" "snd x"] that by simp
    show ?thesis
      unfolding rank_grouped_def None option.case rank_by_cut kept retained_by_keys [OF None]
      by (rule rank_cut_best [OF assms(4,5)]) (use lwf key_values_eq_iff in blast)
  next
    case (Some ex)
    note rest = remaining_tell_without [OF assms(3) Some]
    have known: "\<forall>x \<in> set ?J. fst x \<in> set (db_series (qe_db Q)) \<and> drop_labels ex (st_labels (fst x)) \<noteq> []"
      using J(2) rest(1) by (fastforce simp: picked_def)
    have cut: "rank_without Q n tp ex rows = map (\<lambda>(s, v). (st_id s, v)) (cut n (\<lambda>x. rest_text ex (fst x)) ?cmp ?J)"
      using rank_without_cut [OF ids wf known] by (simp only: J(1))
    show ?thesis
      unfolding rank_grouped_def Some option.case cut kept retained_without [OF Some]
      by (rule rank_cut_best [OF assms(4,5)]) (use J(2) rest(2) in blast)
  qed
qed

section \<open>The points without their times\<close>

text \<open>The statement dates its points by the query, the selector by the sample.\<close>

definition untimed :: "instant_point \<Rightarrow> string \<times> labels \<times> f64" where
  "untimed p = (ip_metric p, ip_labels p, ip_value p)"

definition untimed_tuple :: "series_tuple \<times> f64 \<Rightarrow> string \<times> labels \<times> f64" where
  "untimed_tuple x = (st_metric (fst x), st_labels (fst x), snd x)"

lemma selector_untimed:
  assumes "series_table_ok db" "regex_true db sel"
  shows "mset (map untimed_tuple (join_series db (latest_samples db sel lo hi))) =
    mset (map untimed (map (point_of_row \<circ> snd) (latest_of (selector_rows db sel lo hi))))"
proof -
  have "ids_unique db" using assms(1) by (simp add: series_table_ok_def)
  then have "mset (map untimed_tuple (join_series db (latest_samples db sel lo hi))) =
      image_mset (\<lambda>s. (st_metric s, st_labels s, snd (snd (newest_row db sel lo hi s)))) (mset_set (windowed db sel lo hi))"
    by (simp add: latest_samples_join multiset.map_comp comp_def untimed_tuple_def)
  also have "\<dots> = image_mset (\<lambda>s. untimed (point_of_row (row_of_tuple (newest_row db sel lo hi s)))) (mset_set (windowed db sel lo hi))"
  proof (rule image_mset_cong)
    fix s assume "s \<in># mset_set (windowed db sel lo hi)"
    then have "newest_row db sel lo hi s \<in> set (tuple_rows db sel lo hi s)"
      by (intro first_newest_in tuple_rows_nonempty) simp
    then show "(st_metric s, st_labels s, snd (snd (newest_row db sel lo hi s))) =
        untimed (point_of_row (row_of_tuple (newest_row db sel lo hi s)))"
      by (simp add: tuple_rows_def row_of_tuple_def untimed_def point_of_row_def)
  qed
  also have "\<dots> = image_mset (\<lambda>r. untimed (point_of_row r)) (mset (map snd (latest_of (selector_rows db sel lo hi))))"
    unfolding latest_of_rows [OF assms] by (simp add: multiset.map_comp comp_def)
  finally show ?thesis by (simp add: multiset.map_comp comp_def)
qed

text \<open>Decoding joined rows of selected series: every row that passes, with the labels of its series.\<close>

lemma decode_untimed:
  assumes "db_wf db" "\<forall>x \<in> set C. fst x \<in> set (db_series db)"
  shows "decode_instant sel t C = filter (\<lambda>p. regex_passes sel (ip_labels p)) (decode_instant (without_regex sel) t C)"
    "map untimed (decode_instant (without_regex sel) t C) = map untimed_tuple C"
proof -
  have "label_filters_for_selector (without_regex sel) = []"
    by (auto simp: label_filters_for_selector_def without_regex_def is_regex_def filter_empty_conv split: match_op.splits)
  then have pass: "regex_passes (without_regex sel) lbls" for lbls by (simp add: regex_passes_def)
  then show "decode_instant sel t C = filter (\<lambda>p. regex_passes sel (ip_labels p)) (decode_instant (without_regex sel) t C)"
    by (simp add: decode_instant_def filter_map comp_def case_prod_unfold)
  have "labels_to_btree (st_labels (fst x)) = st_labels (fst x)" if "x \<in> set C" for x
    using assms that by (simp add: labels_to_btree_def db_wf_def bt_collect_id)
  then show "map untimed (decode_instant (without_regex sel) t C) = map untimed_tuple C"
    by (simp add: decode_instant_def pass comp_def case_prod_unfold untimed_def untimed_tuple_def)
qed

text \<open>The answer of the statement, before its regular expressions, keeps the best of every group.\<close>

abbreviation "untimed_key modi \<equiv> \<lambda>(m :: string, l, v :: f64). retained_labels l modi"
abbreviation "untimed_before tp \<equiv> \<lambda>(m :: string, l :: labels, a) (m' :: string, l' :: labels, b). ranks_before tp a b"

lemma topk_statement_best:
  assumes "instant_selector Q (without_regex sel) t = Inr inner" "instant_topk_via_sql Q sel n tp modi t = Inr pts"
    "reads_back Q (i64_wrap (t - lookback_us))" "reads_back Q t" "series_table_ok (qe_db Q)"
    "remaining_tell (qe_db Q) sel modi" "ieee_engine Q" "\<forall>p \<in> set inner. \<not> is_nan (ip_value p)"
  obtains all where "pts = filter (\<lambda>p. regex_passes sel (ip_labels p)) all"
    "keeps_best n (untimed_key modi) (untimed_before tp) (map untimed inner) (map untimed all)"
    "regex_true (qe_db Q) sel \<Longrightarrow> pts = all"
proof -
  let ?lo = "i64_wrap (t - lookback_us)" and ?db = "qe_db Q"
  let ?L = "latest_samples ?db sel ?lo t"
  let ?J = "join_series ?db ?L" and ?C = "join_series ?db (rank_grouped Q n tp modi ?L)"
  let ?all = "decode_instant (without_regex sel) t ?C"
  have wf: "db_wf ?db" and ids: "ids_unique ?db" using assms(5) by (simp_all add: series_table_ok_def)
  obtain rows where "run_selector_query Q (without_regex sel) ?lo t = Inr rows"
    "inner = map (point_of_row \<circ> snd) (latest_of rows)"
    using assms(1) by (rule instant_selector_rows)
  then have inner: "mset (map untimed_tuple ?J) = mset (map untimed inner)"
    using run_selector_rows assms(3,4) selector_untimed [OF assms(5) regex_true_without [of ?db sel]]
    by (metis latest_samples_without_regex)
  have num: "\<forall>x \<in> set ?J. \<not> is_nan (snd x)"
  proof
    fix x assume "x \<in> set ?J"
    then have "untimed_tuple x \<in># mset (map untimed inner)" unfolding inner [symmetric] by simp
    then show "\<not> is_nan (snd x)" using assms(8) by (auto simp: untimed_def untimed_tuple_def)
  qed
  note best = rank_grouped_best [OF assms(5) latest_samples_picked assms(6,7) num, of n tp]
  have known: "\<forall>x \<in> set ?C. fst x \<in> set (db_series ?db)" using join_series_from by blast
  note dec = decode_untimed [OF wf known, where t = t]
  have pts: "pts = decode_instant sel t ?C"
  proof (cases "n = 0")
    case True
    have "filter (\<lambda>x. retained_labels (st_labels (fst x)) modi = L) ?C = []" for L
      using best True by (simp add: keeps_best_def)
    then have "x \<notin> set ?C" for x by (force simp: filter_empty_conv)
    then have "?C = []" by (metis last_in_set)
    then show ?thesis using assms(2) True by (simp add: instant_topk_via_sql_def decode_instant_def)
  next
    case False
    then show ?thesis using assms(2-4)
      by (auto simp: instant_topk_via_sql_def instant_topk_without_via_sql_def rank_grouped_def run_stmt_def reads_back_def
          split: option.splits)
  qed
  show thesis
  proof (rule that)
    show "pts = filter (\<lambda>p. regex_passes sel (ip_labels p)) ?all" unfolding pts by (rule dec(1) [of sel])
    have "keeps_best n (untimed_key modi) (untimed_before tp) (map untimed_tuple ?J) (map untimed_tuple ?C)"
      using best by (rule keeps_best_map) (simp_all add: case_prod_unfold untimed_tuple_def)
    then show "keeps_best n (untimed_key modi) (untimed_before tp) (map untimed inner) (map untimed ?all)"
      unfolding dec(2) using keeps_best_mset [OF inner refl] by blast
    show "pts = ?all" if rt: "regex_true ?db sel"
    proof -
      have "regex_passes sel (st_labels s)" if "s \<in> picked ?db sel" for s
        using rt that by (simp add: regex_true_def picked_def)
      moreover have "ip_labels p \<in> st_labels ` picked ?db sel" if p: "p \<in> set ?all" for p
      proof -
        have "untimed p \<in> set (map untimed_tuple ?C)"
          using imageI [OF p, of untimed] arg_cong [OF dec(2), of set] by (simp only: set_map)
        then obtain x where x: "x \<in> set ?C" "untimed p = untimed_tuple x" by auto
        have "set ?C \<subseteq> set ?J" using best unfolding keeps_best_def by (metis set_mset_mono set_mset_mset)
        then have "fst x \<in> picked ?db sel" using join_series_picked(2) [OF ids latest_samples_picked] x(1) by blast
        then show ?thesis using x(2) by (auto simp: untimed_def untimed_tuple_def)
      qed
      ultimately have "\<forall>p \<in> set ?all. regex_passes sel (ip_labels p)" by fastforce
      then show ?thesis unfolding pts dec(1) [of sel] by (rule filter_True)
    qed
  qed
qed

text \<open>How many it keeps of a group beyond a bound.\<close>

lemma untimed_best_count:
  assumes "keeps_best n (untimed_key modi) (untimed_before tp) (map untimed inner) (map untimed pts)"
  shows "length (filter (\<lambda>p. retained modi p = k \<and> ranks_before tp (ip_value p) b) pts) =
      min n (length (filter (\<lambda>p. retained modi p = k \<and> ranks_before tp (ip_value p) b) inner))"
proof -
  have "length (filter (\<lambda>x. untimed_key modi x = k \<and> ranks_before tp (snd (snd x)) b) (map untimed pts)) =
      min n (length (filter (\<lambda>x. untimed_key modi x = k \<and> ranks_before tp (snd (snd x)) b) (map untimed inner)))"
  proof (rule keeps_best_count [OF assms])
    fix p r :: "string \<times> labels \<times> f64"
    assume "untimed_before tp p r" and r: "ranks_before tp (snd (snd r)) b"
    then have "ranks_before tp (snd (snd p)) (snd (snd r))" by (simp only: case_prod_unfold)
    then show "ranks_before tp (snd (snd p)) b" using r by (rule ranks_before_trans)
  qed
  then show ?thesis by (simp only: filter_map length_map comp_def untimed_def prod.case snd_conv)
qed

text \<open>
  (C14) \<open>topk\<close> or \<open>bottomk\<close> of a selector pushed into SQL ranks the points of the selector with its \<open>=~\<close> and
  \<open>!~\<close> matchers removed and applies these to what the ranking kept: of every group, \<open>n\<close> of those points
  with their names, labels and values, none better than a kept one dropped; and in every group as many
  values beyond any bound as the ranking in Rust of the same points keeps, so the two differ in nothing but
  the choice among equal values and the time the points are dated by. Where no regular expression filters
  anything out, the points are those of the selector itself and all the kept ones are answered. The values
  are not NaN and the engine orders them as IEEE does; for \<open>without (...)\<close> every selected series must keep a
  label and the texts of the labels that are left tell them apart.
\<close>

theorem topk_pushdown_matches:
  assumes "instant_selector Q (without_regex sel) t = Inr inner" "instant_topk_via_sql Q sel n tp modi t = Inr pts"
    "reads_back Q (i64_wrap (t - lookback_us))" "reads_back Q t" "series_table_ok (qe_db Q)"
    "remaining_tell (qe_db Q) sel modi" "ieee_engine Q" "\<forall>p \<in> set inner. \<not> is_nan (ip_value p)"
  shows "\<exists>all. pts = filter (\<lambda>p. regex_passes sel (ip_labels p)) all \<and>
    keeps_best n (\<lambda>(m, l, v). retained_labels l modi) (\<lambda>(m, l, a) (m', l', b). ranks_before tp a b)
      (map untimed inner) (map untimed all) \<and>
    (\<forall>k b. length (filter (\<lambda>p. retained modi p = k \<and> ranks_before tp (ip_value p) b) all) =
       length (filter (\<lambda>p. retained modi p = k \<and> ranks_before tp (ip_value p) b) (topk_instant_points inner n tp modi))) \<and>
    (regex_true (qe_db Q) sel \<longrightarrow> instant_selector Q sel t = Inr inner \<and> pts = all)"
proof -
  obtain all where all: "pts = filter (\<lambda>p. regex_passes sel (ip_labels p)) all"
    "keeps_best n (untimed_key modi) (untimed_before tp) (map untimed inner) (map untimed all)"
    "regex_true (qe_db Q) sel \<Longrightarrow> pts = all"
    using topk_statement_best [OF assms] by blast
  have "length (filter (\<lambda>p. retained modi p = k \<and> ranks_before tp (ip_value p) b) (topk_instant_points inner n tp modi)) =
      min n (length (filter (\<lambda>p. retained modi p = k \<and> ranks_before tp (ip_value p) b) inner))" for k b
    by (rule keeps_best_count [OF topk_instant_best [OF assms(8)]]) (rule ranks_before_trans)
  moreover have "regex_true (qe_db Q) sel \<Longrightarrow> instant_selector Q sel t = Inr inner"
    using selector_without_regex [of Q sel t] assms(1,5) by (simp add: series_table_ok_def)
  ultimately show ?thesis using all(1,2) untimed_best_count [OF all(2)] all(3) by (intro exI [of _ all]) simp
qed

section \<open>Regular expressions after the ranking\<close>

text \<open>
  The statement ranks before the regular expressions are applied: \<open>topk\<close> of a selector answers those
  points of the \<open>topk\<close> without them that pass, so series that the selector does not select take the
  places of series that it does.
\<close>

theorem topk_ranks_before_regex:
  "instant_topk_via_sql Q sel n tp modi t =
     map_sum (\<lambda>e. e) (filter (\<lambda>p. regex_passes sel (ip_labels p)))
       (instant_topk_via_sql Q (without_regex sel) n tp modi t)"
proof -
  have "label_filters_for_selector (without_regex sel) = []"
    by (auto simp: label_filters_for_selector_def without_regex_def is_regex_def filter_empty_conv split: match_op.splits)
  then have "regex_passes (without_regex sel) lbls" for lbls by (simp add: regex_passes_def)
  then have "decode_instant sel t rows = filter (\<lambda>p. regex_passes sel (ip_labels p)) (decode_instant (without_regex sel) t rows)" for rows
    by (simp add: decode_instant_def filter_map comp_def case_prod_unfold)
  then show ?thesis
    by (simp add: instant_topk_via_sql_def instant_topk_without_via_sql_def run_stmt_def split: option.split)
qed

section \<open>Witness\<close>

definition up_selector :: vector_selector where
  "up_selector = \<lparr>vsel_name = Some ''up'', vsel_matchers = []\<rparr>"

definition up_points :: "instant_point list" where
  "up_points = [\<lparr>ip_metric = ''up'', ip_labels = [(''job'', ''a'')], ip_ts = 20, ip_value = Num 2\<rparr>,
     \<lparr>ip_metric = ''up'', ip_labels = [(''job'', ''b'')], ip_ts = 20, ip_value = Num 5\<rparr>]"

lemma lookback_start: "i64_wrap (lookback_us - lookback_us) = 0" "i64_wrap 0 = 0"
  by (simp_all add: i64_wrap_def)

lemma up_points_selected: "instant_selector demo_env up_selector lookback_us = Inr up_points"
proof -
  have "run_selector_query demo_env up_selector 0 lookback_us =
     Inr [\<lparr>row_metric = ''up'', row_labels = [(''job'', ''a'')], row_ts = 10, row_value = Num 1\<rparr>,
          \<lparr>row_metric = ''up'', row_labels = [(''job'', ''a'')], row_ts = 20, row_value = Num 2\<rparr>,
          \<lparr>row_metric = ''up'', row_labels = [(''job'', ''b'')], row_ts = 20, row_value = Num 5\<rparr>]"
    unfolding run_selector_query_def by (subst demo_run_stmt) (simp_all add: lookback_us_def, code_simp)
  then show ?thesis
    by (simp add: instant_selector_def lookback_start latest_insert_def bt_insert_def series_key_def up_points_def Let_def)
qed

lemma up_table: "series_table_ok (qe_db demo_env)" "regex_true (qe_db demo_env) up_selector"
  using demo_db_wf
  by (auto simp: series_table_ok_def ids_unique_def demo_env_def demo_db_def series_key_def regex_true_def
      regex_passes_def label_filters_for_selector_def up_selector_def)

lemma up_plain: "without_regex up_selector = up_selector"
  by (simp add: without_regex_def up_selector_def)

lemma up_points_selected_plain: "instant_selector demo_env (without_regex up_selector) lookback_us = Inr up_points"
  unfolding up_plain by (rule up_points_selected)

theorem topk_pushdown_matches_witness:
  "\<exists>pts. instant_topk_via_sql demo_env up_selector 1 True None lookback_us = Inr pts \<and>
     length (filter (\<lambda>p. f64_le (Num 5) (ip_value p)) pts) = 1"
proof -
  have "run_stmt demo_env ''topk'' 0 lookback_us f = Inr (f 0 lookback_us)" for f :: "int \<Rightarrow> int \<Rightarrow> instant_point list"
    by (rule demo_run_stmt) (simp_all add: lookback_us_def)
  then obtain pts where pts: "instant_topk_via_sql demo_env up_selector 1 True None lookback_us = Inr pts"
    unfolding instant_topk_via_sql_def lookback_start by (simp add: modifier_excluded_keys_def)
  have rb: "reads_back demo_env (i64_wrap (lookback_us - lookback_us))" "reads_back demo_env lookback_us"
    by (simp_all add: lookback_start demo_reads_back lookback_us_def)
  have "length (filter (\<lambda>p. retained None p = [] \<and> ranks_before True (ip_value p) (Num 5)) pts) =
      length (filter (\<lambda>p. retained None p = [] \<and> ranks_before True (ip_value p) (Num 5)) (topk_instant_points up_points 1 True None))"
    using topk_pushdown_matches [OF up_points_selected_plain pts rb up_table(1) _ demo_ieee] up_table(2)
    by (auto simp: remaining_tell_def up_points_def)
  also have "\<dots> = 1" by code_simp
  finally have "length (filter (\<lambda>p. f64_le (Num 5) (ip_value p)) pts) = 1"
    by (simp add: retained_labels_def)
  with pts show ?thesis by blast
qed

text \<open>A selector of one series, and its \<open>topk\<close>, which is empty.\<close>

definition job_a_selector :: vector_selector where
  "job_a_selector = \<lparr>vsel_name = Some ''up'', vsel_matchers = [\<lparr>mt_op = MRe (\<lambda>v. v = ''a''), mt_name = ''job'', mt_value = ''a''\<rparr>]\<rparr>"

theorem topk_ranks_before_regex_witness:
  "instant_topk_via_sql demo_env job_a_selector 1 True None lookback_us = Inr [] \<and>
   instant_selector demo_env job_a_selector lookback_us =
     Inr [\<lparr>ip_metric = ''up'', ip_labels = [(''job'', ''a'')], ip_ts = 20, ip_value = Num 2\<rparr>]"
proof
  have s: "run_stmt demo_env tag 0 lookback_us f = Inr (f 0 lookback_us)" for tag and f :: "int \<Rightarrow> int \<Rightarrow> 'r"
    by (rule demo_run_stmt) (simp_all add: lookback_us_def)
  have "instant_topk_via_sql demo_env (without_regex job_a_selector) 1 True None lookback_us =
      Inr [\<lparr>ip_metric = ''up'', ip_labels = [(''job'', ''b'')], ip_ts = lookback_us, ip_value = Num 5\<rparr>]"
    unfolding instant_topk_via_sql_def lookback_start s modifier_excluded_keys_def by simp code_simp
  then show "instant_topk_via_sql demo_env job_a_selector 1 True None lookback_us = Inr []"
    unfolding topk_ranks_before_regex [of demo_env job_a_selector]
    by (simp add: regex_passes_def label_filters_for_selector_def job_a_selector_def match_label_def)
  have "run_selector_query demo_env job_a_selector 0 lookback_us =
     Inr [\<lparr>row_metric = ''up'', row_labels = [(''job'', ''a'')], row_ts = 10, row_value = Num 1\<rparr>,
          \<lparr>row_metric = ''up'', row_labels = [(''job'', ''a'')], row_ts = 20, row_value = Num 2\<rparr>]"
    unfolding run_selector_query_def s by simp code_simp
  then show "instant_selector demo_env job_a_selector lookback_us =
     Inr [\<lparr>ip_metric = ''up'', ip_labels = [(''job'', ''a'')], ip_ts = 20, ip_value = Num 2\<rparr>]"
    by (simp add: instant_selector_def lookback_start latest_insert_def bt_insert_def series_key_def Let_def)
qed

end
