(* ===== verification/Pushdown_Binary_Props.thy ===== *)
theory Pushdown_Binary_Props
  imports Pushdown_Binary Pushdown_Topk_Props Pointwise
begin

text \<open>
  Binary operators pushed into SQL against the same operators in Rust on the points of their
  selectors: a scalar and a selector, and two selectors whose series match one to one. Regular
  expressions are included: the statements apply them to their rows, the selector to its own.
\<close>

section \<open>Keeping and mapping\<close>

lemma mset_map_filter_cong: "mset xs = mset ys \<Longrightarrow> mset (List.map_filter f xs) = mset (List.map_filter f ys)"
  by (simp add: List.map_filter_def)

lemma map_filter_of_map: "List.map_filter f (map g xs) = List.map_filter (\<lambda>x. f (g x)) xs"
  by (induction xs) (auto simp: map_filter_Cons List.map_filter_simps split: option.splits)

lemma map_of_map_filter_result: "map h (List.map_filter f xs) = List.map_filter (\<lambda>x. map_option h (f x)) xs"
  by (induction xs) (auto simp: map_filter_Cons List.map_filter_simps split: option.splits)

lemma map_filter_result_cong: "(\<And>x. x \<in> set xs \<Longrightarrow> f x = g x) \<Longrightarrow> List.map_filter f xs = List.map_filter g xs"
  by (induction xs) (auto simp: map_filter_Cons List.map_filter_simps split: option.splits)

lemma filter_map_filter:
  "(\<And>x y. x \<in> set xs \<Longrightarrow> f x = Some y \<Longrightarrow> P y \<longleftrightarrow> R x) \<Longrightarrow>
     filter P (List.map_filter f xs) = List.map_filter f (filter R xs)"
  by (induction xs) (auto simp: map_filter_Cons List.map_filter_simps split: option.splits)

section \<open>The series that pass the regular expressions\<close>

abbreviation "tuple_passes sel s \<equiv> regex_passes sel (labels_to_btree (st_labels s))"

definition passing :: "database \<Rightarrow> vector_selector \<Rightarrow> database" where
  "passing db sel = db\<lparr>db_series := filter (tuple_passes sel) (db_series db)\<rparr>"

lemma window_join_passing:
  "window_join (passing db sel) sel lo hi = filter (\<lambda>r. tuple_passes sel (fst r)) (window_join db sel lo hi)"
  unfolding window_join_def passing_def
  by (simp add: filter_concat filter_map comp_def case_prod_unfold conj_commute conj_left_commute)

lemma selector_rows_passing: "selector_rows (passing db sel) sel lo hi = selector_rows db sel lo hi"
  unfolding selector_rows_def window_join_passing
  by (simp add: filter_map comp_def case_prod_unfold filter_sort [symmetric])

lemma passing_ok:
  assumes "series_table_ok db"
  shows "series_table_ok (passing db sel)" "regex_true (passing db sel) sel"
proof -
  have sub: "set (db_series (passing db sel)) \<subseteq> set (db_series db)" by (auto simp: passing_def)
  then show "series_table_ok (passing db sel)"
    using assms inj_on_subset [OF _ sub, of tuple_key]
    by (auto simp: series_table_ok_def ids_unique_def db_wf_def passing_def List.distinct_map_filter)
  show "regex_true (passing db sel) sel"
    using assms by (auto simp: regex_true_def passing_def series_table_ok_def db_wf_def labels_to_btree_def bt_collect_id)
qed

lemma latest_samples_passing:
  assumes "series_table_ok db"
  shows "mset (filter (\<lambda>x. tuple_passes sel (fst x)) (join_series db (latest_samples db sel lo hi))) =
    mset (join_series (passing db sel) (latest_samples (passing db sel) sel lo hi))"
proof -
  let ?db = "passing db sel"
  have ids: "ids_unique db" "ids_unique ?db" using assms passing_ok(1) [OF assms] by (simp_all add: series_table_ok_def)
  have win: "windowed ?db sel lo hi = {s \<in> windowed db sel lo hi. tuple_passes sel s}"
    by (auto simp: windowed_def window_join_passing)
  have new: "newest_row ?db sel lo hi s = newest_row db sel lo hi s" if "tuple_passes sel s" for s
  proof -
    have "tuple_rows ?db sel lo hi s = tuple_rows db sel lo hi s"
      using that by (auto simp: tuple_rows_def window_join_passing intro: filter_cong)
    then show ?thesis by simp
  qed
  have "mset (filter (\<lambda>x. tuple_passes sel (fst x)) (join_series db (latest_samples db sel lo hi))) =
      image_mset (\<lambda>s. (s, snd (snd (newest_row db sel lo hi s)))) (mset_set (windowed ?db sel lo hi))"
    by (simp add: latest_samples_join [OF ids(1)] filter_mset_image_mset win)
  also have "\<dots> = image_mset (\<lambda>s. (s, snd (snd (newest_row ?db sel lo hi s)))) (mset_set (windowed ?db sel lo hi))"
    using new by (intro image_mset_cong) (simp add: win)
  finally show ?thesis by (simp add: latest_samples_join [OF ids(2)])
qed

text \<open>The rows of a statement that pass are the points of the selector.\<close>

definition passing_rows :: "database \<Rightarrow> vector_selector \<Rightarrow> int \<Rightarrow> int \<Rightarrow> (series_tuple \<times> f64) list" where
  "passing_rows db sel lo hi =
     filter (\<lambda>x. tuple_passes sel (fst x)) (join_series db (latest_samples db sel lo hi))"

lemma passing_rows_untimed:
  assumes "series_table_ok (qe_db Q)" "instant_selector Q sel t = Inr inner"
    "reads_back Q (i64_wrap (t - lookback_us))" "reads_back Q t"
  shows "mset (map untimed_tuple (passing_rows (qe_db Q) sel (i64_wrap (t - lookback_us)) t)) = mset (map untimed inner)"
proof -
  let ?lo = "i64_wrap (t - lookback_us)" and ?db = "passing (qe_db Q) sel"
  obtain rows where "run_selector_query Q sel ?lo t = Inr rows" "inner = map (point_of_row \<circ> snd) (latest_of rows)"
    using assms(2) by (rule instant_selector_rows)
  then have inner: "inner = map (point_of_row \<circ> snd) (latest_of (selector_rows ?db sel ?lo t))"
    using run_selector_rows assms(3,4) unfolding selector_rows_passing by metis
  have "mset (map untimed_tuple (passing_rows (qe_db Q) sel ?lo t)) =
      image_mset untimed_tuple (mset (filter (\<lambda>x. tuple_passes sel (fst x)) (join_series (qe_db Q) (latest_samples (qe_db Q) sel ?lo t))))"
    by (simp add: passing_rows_def)
  also have "\<dots> = mset (map untimed_tuple (join_series ?db (latest_samples ?db sel ?lo t)))"
    unfolding latest_samples_passing [OF assms(1)] by simp
  also have "\<dots> = mset (map untimed inner)"
    unfolding inner by (rule selector_untimed [OF passing_ok [OF assms(1)]])
  finally show ?thesis .
qed

lemma passing_rows_wf: "db_wf db \<Longrightarrow> x \<in> set (join_series db rows) \<Longrightarrow> bt_wf (st_labels (fst x))"
  using join_series_from [of x db rows] by (auto simp: db_wf_def)

section \<open>Scalar and selector\<close>

lemma sql_bin_row_ieee:
  assumes "ieee_engine Q" "\<not> is_nan a" "\<not> is_nan b"
  shows "sql_bin_row Q op rb a b kept =
    (if is_filter op rb then (if comparison_passes a b op then Some kept else None)
     else Some (apply_bin_value (pe_powf (qe_prom Q)) a b op))"
proof -
  have "is_comparison op \<Longrightarrow> qe_cmp Q op a b = comparison_passes a b op" using assms by (simp add: ieee_engine_def)
  then show ?thesis
    by (cases op) (auto simp: sql_bin_row_def binop_value_sql_def is_filter_def is_comparison_def)
qed

lemma scalar_row_ieee:
  "ieee_engine Q \<Longrightarrow> \<not> is_nan c \<Longrightarrow> \<not> is_nan v \<Longrightarrow>
     scalar_row Q c op rb left v = scalar_vector_point (pe_powf (qe_prom Q)) c op rb left v"
  by (simp add: scalar_row_def scalar_vector_point_def sql_bin_row_ieee)

lemma decode_bin_untimed:
  assumes "\<forall>x \<in> set rows. bt_wf (st_labels (fst x))"
  shows "map untimed (decode_bin_instant passes name t rows) =
    map (\<lambda>x. (name (st_metric (fst x)), st_labels (fst x), snd x))
      (filter (\<lambda>x. passes (labels_to_btree (st_labels (fst x)))) rows)"
  using assms
  by (auto simp: decode_bin_instant_def untimed_def labels_to_btree_def bt_collect_id case_prod_unfold comp_def)

text \<open>
  A scalar and a selector: the statement answers the points that the operator in Rust makes of the
  selector's points, each once, with the same name, labels and value, regular expressions included,
  on an engine that compares as IEEE does; the only difference is the time the points are dated by.
\<close>

theorem scalar_pushdown_matches:
  assumes "instant_selector Q sel t = Inr inner" "scalar_vector_instant_via_sql Q c sel op rb left t = Inr pts"
    "reads_back Q (i64_wrap (t - lookback_us))" "reads_back Q t" "series_table_ok (qe_db Q)"
    "ieee_engine Q" "\<not> is_nan c" "\<forall>p \<in> set inner. \<not> is_nan (ip_value p)"
  shows "mset (map untimed pts) =
    mset (map untimed (apply_scalar_vector_instant (pe_powf (qe_prom Q)) c inner op rb left))"
proof -
  let ?lo = "i64_wrap (t - lookback_us)" and ?db = "qe_db Q" and ?f = "scalar_vector_point (pe_powf (qe_prom Q)) c op rb left"
  let ?J = "join_series ?db (latest_samples ?db sel ?lo t)"
  let ?g = "\<lambda>x :: series_tuple \<times> f64. map_option (\<lambda>w. (fst x, w)) (scalar_row Q c op rb left (snd x))"
  let ?u = "\<lambda>x :: string \<times> labels \<times> f64. map_option (\<lambda>w. (result_name op rb (fst x), fst (snd x), w)) (?f (snd (snd x)))"
  note J = passing_rows_untimed [OF assms(5,1,3,4)]
  have wf: "bt_wf (st_labels (fst x))" if "x \<in> set ?J" for x
    using passing_rows_wf [OF _ that] assms(5) by (simp add: series_table_ok_def)
  have num: "\<not> is_nan (snd x)" if "x \<in> set (passing_rows ?db sel ?lo t)" for x
  proof -
    have "untimed_tuple x \<in># mset (map untimed inner)" using that unfolding J [symmetric] by simp
    then show ?thesis using assms(8) by (auto simp: untimed_def untimed_tuple_def)
  qed
  have pts: "pts = decode_bin_instant (regex_passes sel) (result_name op rb) t (List.map_filter ?g ?J)"
    using assms(2-4) by (auto simp: scalar_vector_instant_via_sql_def run_stmt_def reads_back_def case_prod_unfold split: option.splits)
  have "map untimed pts = map (\<lambda>x. (result_name op rb (st_metric (fst x)), st_labels (fst x), snd x))
      (filter (\<lambda>x. tuple_passes sel (fst x)) (List.map_filter ?g ?J))"
    unfolding pts by (rule decode_bin_untimed) (use wf in \<open>auto simp: set_map_filter\<close>)
  also have "filter (\<lambda>x. tuple_passes sel (fst x)) (List.map_filter ?g ?J) =
      List.map_filter ?g (passing_rows ?db sel ?lo t)"
    unfolding passing_rows_def by (rule filter_map_filter) auto
  also have "map (\<lambda>x. (result_name op rb (st_metric (fst x)), st_labels (fst x), snd x)) \<dots> =
      List.map_filter ?u (map untimed_tuple (passing_rows ?db sel ?lo t))"
    unfolding map_of_map_filter_result map_filter_of_map
    by (rule map_filter_result_cong) (simp add: scalar_row_ieee [OF assms(6,7)] num untimed_tuple_def option.map_comp comp_def)
  finally have "mset (map untimed pts) = mset (List.map_filter ?u (map untimed inner))"
    using mset_map_filter_cong [OF J] by simp
  also have "List.map_filter ?u (map untimed inner) = map untimed (apply_scalar_vector_instant (pe_powf (qe_prom Q)) c inner op rb left)"
    unfolding apply_scalar_vector_instant_def map_of_map_filter_result map_filter_of_map
    by (rule map_filter_result_cong) (simp add: untimed_def result_name_def option.map_comp comp_def)
  finally show ?thesis .
qed

section \<open>Selector and selector\<close>

text \<open>Every series has a label, and the text of the labels tells the label sets apart.\<close>

definition label_texts_ok :: "database \<Rightarrow> bool" where
  "label_texts_ok db \<longleftrightarrow> (\<forall>s \<in> set (db_series db). st_labels s \<noteq> []) \<and>
     (\<forall>s \<in> set (db_series db). \<forall>s' \<in> set (db_series db).
        label_text (st_labels s) = label_text (st_labels s') \<longrightarrow> st_labels s = st_labels s')"

lemma group_key_labels:
  assumes "ids_unique db" "db_wf db" "s \<in> set (db_series db)" "st_labels s \<noteq> []"
  shows "group_key (map (\<lambda>s. (st_id s, st_labels s)) (db_series db)) [] (st_id s) = Some (label_text (st_labels s))"
proof -
  have "drop_labels [] (st_labels s) = st_labels s" by (simp add: drop_labels_def)
  then show ?thesis using group_key_rest [OF assms(1-3), of "[]"] assms(4) by simp
qed

lemma vector_side_eq:
  assumes "series_table_ok db" "label_texts_ok db"
  shows "vector_side db sel lo hi =
    map (\<lambda>x. (label_text (st_labels (fst x)), st_id (fst x), f64_add (snd x) (Num 0))) (join_series db (latest_samples db sel lo hi))"
proof -
  have ids: "ids_unique db" and wf: "db_wf db" using assms(1) by (simp_all add: series_table_ok_def)
  have known: "\<exists>s \<in> set (db_series db). st_id s = sid" if "(sid, v) \<in> set (latest_samples db sel lo hi)" for sid v
  proof -
    have "sid \<in> (\<lambda>(s, ts, v). st_id s) ` set (window_join db sel lo hi)"
      using that bt_group_keys [of "\<lambda>(s, ts, v). st_id s" "\<lambda>(s, ts, v). (ts, v)" "window_join db sel lo hi"]
      by (force simp: latest_samples_def)
    then show ?thesis by (auto simp: window_join_def)
  qed
  have "join_gk db [] (map (\<lambda>(sid, v). (sid, f64_add v (Num 0))) rows) =
      map (\<lambda>x. (label_text (st_labels (fst x)), st_id (fst x), f64_add (snd x) (Num 0))) (join_series db rows)"
    if "\<forall>(sid, v) \<in> set rows. \<exists>s \<in> set (db_series db). st_id s = sid" for rows
    using that
  proof (induction rows)
    case (Cons r rows)
    obtain s where s: "s \<in> set (db_series db)" "st_id s = fst r" using Cons.prems by (cases r) auto
    have "st_labels s \<noteq> []" using assms(2) s(1) by (simp add: label_texts_ok_def)
    note g = group_key_labels [OF ids wf s(1) this] and o = ids_unique_filter [OF ids s(1)]
    show ?case
      using Cons g [unfolded s(2)] o [unfolded s(2)] s(2)
      by (cases r) (simp add: join_gk_def join_series_def List.map_filter_simps)
  qed (simp add: join_gk_def join_series_def List.map_filter_simps)
  note eq = this
  show ?thesis unfolding vector_side_def by (rule eq) (use known in blast)
qed

lemma join_series_append: "join_series db (xs @ ys) = join_series db xs @ join_series db ys"
  by (simp add: join_series_def)

lemma join_series_const:
  assumes "ids_unique db" "s \<in> set (db_series db)"
  shows "join_series db (map (\<lambda>y. (st_id s, f y)) ys) = map (\<lambda>y. (s, f y)) ys"
  using ids_unique_filter [OF assms] by (induction ys) (simp_all add: join_series_def)

lemma join_series_joined:
  assumes "ids_unique db" "label_texts_ok db" "\<forall>x \<in> set xs. fst x \<in> set (db_series db)" "\<forall>y \<in> set ys. fst y \<in> set (db_series db)"
  shows "join_series db (joined (map (\<lambda>x. (label_text (st_labels (fst x)), st_id (fst x), f x)) xs)
      (map (\<lambda>y. (label_text (st_labels (fst y)), st_id (fst y), g y)) ys)) =
    concat (map (\<lambda>x. map (\<lambda>y. (fst x, f x, g y)) (filter (\<lambda>y. st_labels (fst y) = st_labels (fst x)) ys)) xs)"
  using assms(3)
proof (induction xs)
  case (Cons x xs)
  let ?t = "\<lambda>z. label_text (st_labels (fst z))"
  have "filter (\<lambda>y. ?t y = ?t x) ys = filter (\<lambda>y. st_labels (fst y) = st_labels (fst x)) ys"
    using assms(2,4) Cons.prems by (intro filter_cong refl) (auto simp: label_texts_ok_def)
  then have "joined (map (\<lambda>x. (?t x, st_id (fst x), f x)) (x # xs)) (map (\<lambda>y. (?t y, st_id (fst y), g y)) ys) =
      map (\<lambda>y. (st_id (fst x), (f x, g y))) (filter (\<lambda>y. st_labels (fst y) = st_labels (fst x)) ys) @
      joined (map (\<lambda>x. (?t x, st_id (fst x), f x)) xs) (map (\<lambda>y. (?t y, st_id (fst y), g y)) ys)"
    by (simp add: joined_def filter_map comp_def)
  then show ?case
    using Cons join_series_const [OF assms(1), of "fst x" "\<lambda>y. (f x, g y)"] by (simp add: join_series_append)
qed (simp add: joined_def join_series_def)

text \<open>What one point of the left side contributes, given the points of the right side.\<close>

definition vector_match :: "(f64 \<Rightarrow> f64 \<Rightarrow> f64) \<Rightarrow> bin_op \<Rightarrow> bool \<Rightarrow> (string \<times> labels \<times> f64) list \<Rightarrow> string \<times> labels \<times> f64 \<Rightarrow>
    (string \<times> labels \<times> f64) list" where
  "vector_match powf op rb rs l =
     List.map_filter (\<lambda>r. map_option (\<lambda>w. (result_name op rb (fst l), fst (snd l), w))
         (vector_vector_value powf op rb (snd (snd l)) (snd (snd r))))
       (filter (\<lambda>r. fst (snd r) = fst (snd l)) rs)"

lemma vector_match_mset: "mset rs = mset rs' \<Longrightarrow> mset (vector_match powf op rb rs l) = mset (vector_match powf op rb rs' l)"
  unfolding vector_match_def by (rule mset_map_filter_cong) simp

lemma rust_vector_match:
  assumes "distinct (map ip_labels rhs)"
  shows "map untimed (apply_vector_vector_instant powf lhs rhs op rb) =
    concat (map (vector_match powf op rb (map untimed rhs)) (map untimed lhs))"
proof -
  let ?idx = "bt_collect (map (\<lambda>r. (ip_labels r, r)) rhs)"
  have idx: "filter (\<lambda>r. ip_labels r = l) rhs = (case map_of ?idx l of None \<Rightarrow> [] | Some r \<Rightarrow> [r])" for l
  proof -
    have m: "map_of ?idx = map_of (map (\<lambda>r. (ip_labels r, r)) rhs)"
      using assms by (intro map_of_bt_collect_distinct) (simp add: comp_def)
    show ?thesis unfolding m using assms
    proof (induction rhs)
      case (Cons r rhs)
      show ?case
      proof (cases "ip_labels r = l")
        case True
        then have "filter (\<lambda>r. ip_labels r = l) rhs = []" using Cons.prems by (auto simp: filter_empty_conv image_iff)
        with True show ?thesis by simp
      qed (use Cons in simp)
    qed simp
  qed
  have one: "vector_match powf op rb (map untimed rhs) (untimed l) =
      (case (case map_of ?idx (ip_labels l) of None \<Rightarrow> None | Some r \<Rightarrow> map_option (\<lambda>v. untimed \<lparr>ip_metric = (if is_filter op rb then ip_metric l else []),
           ip_labels = ip_labels l, ip_ts = ip_ts l, ip_value = v\<rparr>) (vector_vector_value powf op rb (ip_value l) (ip_value r)))
       of None \<Rightarrow> [] | Some u \<Rightarrow> [u])" for l
    unfolding vector_match_def
    by (simp add: filter_map comp_def untimed_def idx result_name_def List.map_filter_simps split: option.splits)
  have "map untimed (apply_vector_vector_instant powf lhs rhs op rb) =
      concat (map (\<lambda>l. vector_match powf op rb (map untimed rhs) (untimed l)) lhs)"
    unfolding apply_vector_vector_instant_def Let_def map_of_map_filter_result one
    by (induction lhs) (auto simp: map_filter_Cons List.map_filter_simps split: option.splits)
  then show ?thesis by (simp add: comp_def)
qed

lemma map_filter_concat: "List.map_filter f (concat xss) = concat (map (List.map_filter f) xss)"
  by (induction xss) (simp_all add: map_filter_append List.map_filter_simps)

lemma filter_concat_fst:
  "filter (\<lambda>z. B (fst z)) (concat (map (\<lambda>x. map (\<lambda>y. (fst x, f x y)) (F x)) xs)) =
     concat (map (\<lambda>x. map (\<lambda>y. (fst x, f x y)) (F x)) (filter (\<lambda>x. B (fst x)) xs))"
  by (induction xs) (auto simp: filter_map comp_def)

lemma concat_map_guard:
  "(\<And>x. G' x = (if R x then G x else [])) \<Longrightarrow>
     concat (map G (filter (\<lambda>x. L x \<and> R x) xs)) = concat (map G' (filter L xs))"
  by (induction xs) auto

text \<open>The rows of the statement that pass both selectors' regular expressions, matched pair by pair.\<close>

lemma joined_passing:
  fixes f :: "f64 \<Rightarrow> f64"
  assumes "series_table_ok db" "label_texts_ok db"
  defines "m \<equiv> \<lambda>x ys. map (\<lambda>y. (fst x, f64_add (snd x) (Num 0), f64_add (snd y) (Num 0)))
    (filter (\<lambda>y. st_labels (fst y) = st_labels (fst x)) ys)"
  shows "filter (\<lambda>z. both_pass lsel rsel (labels_to_btree (st_labels (fst z))))
      (join_series db (joined (vector_side db lsel lo hi) (vector_side db rsel lo hi))) =
    concat (map (\<lambda>x. m x (passing_rows db rsel lo hi)) (passing_rows db lsel lo hi))"
proof -
  let ?JL = "join_series db (latest_samples db lsel lo hi)" and ?JR = "join_series db (latest_samples db rsel lo hi)"
  have "ids_unique db" using assms(1) by (simp add: series_table_ok_def)
  then have "join_series db (joined (vector_side db lsel lo hi) (vector_side db rsel lo hi)) = concat (map (\<lambda>x. m x ?JR) ?JL)"
    unfolding vector_side_eq [OF assms(1,2)] m_def
    by (intro join_series_joined assms(2)) (auto dest: join_series_from)
  then have "filter (\<lambda>z. both_pass lsel rsel (labels_to_btree (st_labels (fst z))))
      (join_series db (joined (vector_side db lsel lo hi) (vector_side db rsel lo hi))) =
    concat (map (\<lambda>x. m x ?JR) (filter (\<lambda>x. tuple_passes lsel (fst x) \<and> tuple_passes rsel (fst x)) ?JL))"
    unfolding m_def
    using filter_concat_fst [of "\<lambda>s. both_pass lsel rsel (labels_to_btree (st_labels s))"] by (simp add: both_pass_def)
  also have "\<dots> = concat (map (\<lambda>x. m x (passing_rows db rsel lo hi)) (passing_rows db lsel lo hi))"
    unfolding passing_rows_def [of _ lsel]
  proof (rule concat_map_guard)
    fix x
    show "m x (passing_rows db rsel lo hi) = (if tuple_passes rsel (fst x) then m x ?JR else [])"
      unfolding m_def passing_rows_def filter_filter
      by (auto simp: filter_empty_conv intro!: arg_cong [where f = "map _"] filter_cong)
  qed
  finally show ?thesis .
qed

lemma vector_statement_rows:
  assumes "vector_vector_instant_via_sql Q lsel rsel op rb t = Inr pts"
    "reads_back Q (i64_wrap (t - lookback_us))" "reads_back Q t" "series_table_ok (qe_db Q)" "label_texts_ok (qe_db Q)"
    "ieee_engine Q"
    "\<forall>x \<in> set (passing_rows (qe_db Q) lsel (i64_wrap (t - lookback_us)) t) \<union>
       set (passing_rows (qe_db Q) rsel (i64_wrap (t - lookback_us)) t). \<not> is_nan (snd x) \<and> f64_add (snd x) (Num 0) = snd x"
  shows "map untimed pts = concat (map (vector_match (pe_powf (qe_prom Q)) op rb
      (map untimed_tuple (passing_rows (qe_db Q) rsel (i64_wrap (t - lookback_us)) t)))
    (map untimed_tuple (passing_rows (qe_db Q) lsel (i64_wrap (t - lookback_us)) t)))"
proof -
  let ?lo = "i64_wrap (t - lookback_us)" and ?db = "qe_db Q"
  let ?rows = "join_series ?db (joined (vector_side ?db lsel ?lo t) (vector_side ?db rsel ?lo t))"
  let ?PL = "passing_rows ?db lsel ?lo t" and ?PR = "passing_rows ?db rsel ?lo t"
  let ?g = "\<lambda>z :: series_tuple \<times> f64 \<times> f64. map_option (\<lambda>w. (fst z, w)) (sql_bin_row Q op rb (fst (snd z)) (snd (snd z)) (fst (snd z)))"
  let ?u = "\<lambda>x. (result_name op rb (st_metric (fst x)), st_labels (fst x), snd x)"
  let ?B = "\<lambda>z. both_pass lsel rsel (labels_to_btree (st_labels (fst z)))"
  have wf: "bt_wf (st_labels (fst z))" if "z \<in> set ?rows" for z
    using passing_rows_wf [OF _ that] assms(4) by (simp add: series_table_ok_def)
  have pts: "pts = decode_bin_instant (both_pass lsel rsel) (result_name op rb) t (List.map_filter ?g ?rows)"
    using assms(1-3) by (auto simp: vector_vector_instant_via_sql_def run_stmt_def reads_back_def case_prod_unfold split: option.splits)
  have "map untimed pts = map ?u (filter ?B (List.map_filter ?g ?rows))"
    unfolding pts by (rule decode_bin_untimed) (use wf in \<open>auto simp: set_map_filter\<close>)
  also have "filter ?B (List.map_filter ?g ?rows) = List.map_filter ?g (filter ?B ?rows)"
    by (rule filter_map_filter) auto
  also have "map ?u \<dots> = concat (map (\<lambda>x. map ?u (List.map_filter ?g
      (map (\<lambda>y. (fst x, f64_add (snd x) (Num 0), f64_add (snd y) (Num 0))) (filter (\<lambda>y. st_labels (fst y) = st_labels (fst x)) ?PR)))) ?PL)"
    unfolding joined_passing [OF assms(4,5)] map_filter_concat map_concat map_map comp_def ..
  also have "\<dots> = concat (map (\<lambda>x. vector_match (pe_powf (qe_prom Q)) op rb (map untimed_tuple ?PR) (untimed_tuple x)) ?PL)"
  proof (intro arg_cong [where f = concat] map_cong refl)
    fix x assume x: "x \<in> set ?PL"
    have m: "filter (\<lambda>r. fst (snd r) = fst (snd (untimed_tuple x))) (map untimed_tuple ?PR) =
        map untimed_tuple (filter (\<lambda>y. st_labels (fst y) = st_labels (fst x)) ?PR)"
      by (simp add: filter_map comp_def untimed_tuple_def)
    show "map ?u (List.map_filter ?g (map (\<lambda>y. (fst x, f64_add (snd x) (Num 0), f64_add (snd y) (Num 0)))
        (filter (\<lambda>y. st_labels (fst y) = st_labels (fst x)) ?PR))) =
      vector_match (pe_powf (qe_prom Q)) op rb (map untimed_tuple ?PR) (untimed_tuple x)"
      unfolding vector_match_def m map_of_map_filter_result map_filter_of_map
      by (rule map_filter_result_cong)
        (use x assms(7) in \<open>simp add: untimed_tuple_def sql_bin_row_ieee [OF assms(6)] vector_vector_value_def option.map_comp comp_def\<close>)
  qed
  finally show ?thesis by (simp add: comp_def)
qed

text \<open>
  (C15) Two selectors whose series match one to one: the statement answers the points that the operator
  in Rust makes of the points of the two selectors, each once, with the same name, labels and value.
  The statement matches by a text of the labels and adds \<open>0.0\<close> to every value, so every series must have
  a label, the texts must tell the label sets apart, and no value may be \<open>-0\<close> or \<open>NaN\<close>; ids and keys tell
  the series of the table apart, and the engine compares as IEEE does.
\<close>

theorem vector_pushdown_matches:
  assumes "instant_selector Q lsel t = Inr lhs" "instant_selector Q rsel t = Inr rhs"
    "vector_vector_instant_via_sql Q lsel rsel op rb t = Inr pts"
    "reads_back Q (i64_wrap (t - lookback_us))" "reads_back Q t" "series_table_ok (qe_db Q)" "label_texts_ok (qe_db Q)"
    "ieee_engine Q" "distinct (map ip_labels rhs)"
    "\<forall>p \<in> set lhs \<union> set rhs. \<not> is_nan (ip_value p) \<and> f64_add (ip_value p) (Num 0) = ip_value p"
  shows "mset (map untimed pts) =
    mset (map untimed (apply_vector_vector_instant (pe_powf (qe_prom Q)) lhs rhs op rb))"
proof -
  let ?lo = "i64_wrap (t - lookback_us)"
  let ?PL = "passing_rows (qe_db Q) lsel ?lo t" and ?PR = "passing_rows (qe_db Q) rsel ?lo t"
  note L = passing_rows_untimed [OF assms(6,1,4,5)] and R = passing_rows_untimed [OF assms(6,2,4,5)]
  have "\<not> is_nan (snd x) \<and> f64_add (snd x) (Num 0) = snd x" if "x \<in> set ?PL \<union> set ?PR" for x
  proof -
    have "untimed_tuple x \<in># mset (map untimed lhs) + mset (map untimed rhs)"
      using that unfolding L [symmetric] R [symmetric] by auto
    then show ?thesis using assms(10) by (auto simp: untimed_def untimed_tuple_def)
  qed
  then have "map untimed pts = concat (map (vector_match (pe_powf (qe_prom Q)) op rb (map untimed_tuple ?PR)) (map untimed_tuple ?PL))"
    by (intro vector_statement_rows [OF assms(3-8)]) blast
  also have "mset \<dots> = mset (concat (map (vector_match (pe_powf (qe_prom Q)) op rb (map untimed rhs)) (map untimed lhs)))"
    by (intro mset_concat_cong vector_match_mset L R)
  finally show ?thesis unfolding rust_vector_match [OF assms(9)] .
qed

section \<open>Label sets that share a text\<close>

text \<open>
  A comma in a label value makes two different label sets one text: the key table gives the two
  series the same key, so that two selectors match series that no label set has in common.
\<close>

theorem label_text_collision:
  assumes "ids_unique db" "db_wf db" "s \<in> set (db_series db)" "s' \<in> set (db_series db)"
    "st_labels s = [(a, x @ '','' @ b @ ''='' @ y)]" "st_labels s' = [(a, x), (b, y)]"
  shows "st_labels s \<noteq> st_labels s' \<and>
    group_key (map (\<lambda>s. (st_id s, st_labels s)) (db_series db)) [] (st_id s) =
    group_key (map (\<lambda>s. (st_id s, st_labels s)) (db_series db)) [] (st_id s')"
  using group_key_labels [OF assms(1,2,3)] group_key_labels [OF assms(1,2,4)] by (simp add: assms(5,6) label_text_def)

section \<open>Witnesses\<close>

lemma up_reads_back: "reads_back demo_env (i64_wrap (lookback_us - lookback_us))" "reads_back demo_env lookback_us"
  by (simp_all add: lookback_start demo_reads_back lookback_us_def)

lemma up_statement: "run_stmt demo_env tag (i64_wrap (lookback_us - lookback_us)) lookback_us f = Inr (f 0 lookback_us)"
  unfolding lookback_start by (rule demo_run_stmt) (simp_all add: lookback_us_def)

lemma up_values: "\<forall>p \<in> set up_points. \<not> is_nan (ip_value p) \<and> f64_add (ip_value p) (Num 0) = ip_value p"
  by (simp add: up_points_def)

theorem scalar_pushdown_matches_witness:
  "\<exists>pts. scalar_vector_instant_via_sql demo_env (Num 3) up_selector Gt False False lookback_us = Inr pts \<and>
     mset (map untimed pts) = {#(''up'', [(''job'', ''b'')], Num 5)#}"
proof -
  obtain pts where pts: "scalar_vector_instant_via_sql demo_env (Num 3) up_selector Gt False False lookback_us = Inr pts"
    unfolding scalar_vector_instant_via_sql_def up_statement by blast
  have "mset (map untimed pts) =
      mset (map untimed (apply_scalar_vector_instant (pe_powf (qe_prom demo_env)) (Num 3) up_points Gt False False))"
    using scalar_pushdown_matches [OF up_points_selected pts up_reads_back up_table(1) demo_ieee] up_values by simp
  also have "map untimed (apply_scalar_vector_instant (pe_powf (qe_prom demo_env)) (Num 3) up_points Gt False False) =
      [(''up'', [(''job'', ''b'')], Num 5)]" by code_simp
  finally show ?thesis using pts by simp
qed

theorem vector_pushdown_matches_witness:
  "\<exists>pts. vector_vector_instant_via_sql demo_env up_selector up_selector Ge True lookback_us = Inr pts \<and>
     mset (map untimed pts) = {#([], [(''job'', ''a'')], Num 1), ([], [(''job'', ''b'')], Num 1)#}"
proof -
  obtain pts where pts: "vector_vector_instant_via_sql demo_env up_selector up_selector Ge True lookback_us = Inr pts"
    unfolding vector_vector_instant_via_sql_def up_statement by blast
  have texts: "label_texts_ok (qe_db demo_env)" by (simp add: label_texts_ok_def demo_env_def demo_db_def label_text_def)
  have "distinct (map ip_labels up_points)" by (simp add: up_points_def)
  then have "mset (map untimed pts) =
      mset (map untimed (apply_vector_vector_instant (pe_powf (qe_prom demo_env)) up_points up_points Ge True))"
    using vector_pushdown_matches [OF up_points_selected up_points_selected pts up_reads_back up_table(1) texts demo_ieee] up_values
    by simp
  also have "map untimed (apply_vector_vector_instant (pe_powf (qe_prom demo_env)) up_points up_points Ge True) =
      [([], [(''job'', ''a'')], Num 1), ([], [(''job'', ''b'')], Num 1)]" by code_simp
  finally show ?thesis using pts by simp
qed

end
