(* ===== verification/Pushdown_Binary_Range.thy ===== *)
theory Pushdown_Binary_Range
  imports Pushdown_Binary_Props
begin

text \<open>
  A scalar and a selector over a range, pushed into SQL, against the operator in Rust: as the statement
  keeps and changes single rows, it does not matter whether the rows are collected into series before
  or after, and the two answers are the same list.
\<close>

section \<open>Sorting before and after a map\<close>

lemma map_insort_key:
  "(\<And>z. z \<in> set (x # xs) \<Longrightarrow> k' (g z) = k z) \<Longrightarrow> map g (insort_key k x xs) = insort_key k' (g x) (map g xs)"
  by (induction xs) auto

lemma map_sort_key: "(\<And>z. z \<in> set xs \<Longrightarrow> k' (g z) = k z) \<Longrightarrow> map g (sort_key k xs) = sort_key k' (map g xs)"
proof (induction xs)
  case (Cons x xs)
  then show ?case using map_insort_key [of x "sort_key k xs" k' g k] by simp
qed simp

lemma sort_key_map_filter:
  assumes "\<And>x y. F x = Some y \<Longrightarrow> k' y = k x"
  shows "sort_key k' (List.map_filter F xs) = List.map_filter F (sort_key k xs)"
  unfolding List.map_filter_def filter_sort comp_def
  by (rule map_sort_key [symmetric]) (use assms in auto)

lemma sorted_list_of_set_image:
  assumes "finite A" "strict_mono \<phi>"
  shows "sorted_list_of_set (\<phi> ` A) = map \<phi> (sorted_list_of_set A)"
proof (rule sorted_distinct_set_unique)
  have "sorted (sorted_list_of_set A)" by simp
  then show "sorted (map \<phi> (sorted_list_of_set A))"
    using strict_mono_less_eq [OF assms(2)] by (simp add: sorted_map sorted_wrt_mono_rel [of _ "(\<le>)"])
  show "distinct (map \<phi> (sorted_list_of_set A))"
    using strict_mono_imp_inj_on [OF assms(2)] by (simp add: distinct_map inj_on_def)
qed (use assms in simp_all)

section \<open>Steps on rows and on series\<close>

definition row_step :: "(f64 \<Rightarrow> f64 option) \<Rightarrow> (string \<Rightarrow> string) \<Rightarrow> selector_row \<Rightarrow> selector_row option" where
  "row_step h nm r = map_option (\<lambda>w. r\<lparr>row_metric := nm (row_metric r), row_value := w\<rparr>) (h (row_value r))"

definition series_step :: "(f64 \<Rightarrow> f64 option) \<Rightarrow> (string \<Rightarrow> string) \<Rightarrow> range_points \<Rightarrow> range_points" where
  "series_step h nm s = s\<lparr>rp_metric := nm (rp_metric s),
     rp_points := List.map_filter (\<lambda>(ts, v). map_option (\<lambda>w. (ts, w)) (h v)) (rp_points s)\<rparr>"

lemma collect_series_groups: "collect_series rows = map (\<lambda>g. regrouped (snd g)) (rows_by_key rows)"
  by (simp add: collect_series_def group_rows_eq series_of_rows_def regrouped_def case_prod_unfold)

lemma row_step_key: "row_step h nm r = Some r' \<Longrightarrow> row_key r' = series_key (nm (row_metric r)) (row_labels r)"
  by (auto simp: row_step_def)

text \<open>One series: applying the step to its rows, or to its points.\<close>

lemma regrouped_step:
  assumes "\<forall>r \<in> set rs. row_metric r = row_metric (hd rs) \<and> row_labels r = row_labels (hd rs)"
    "List.map_filter (row_step h nm) rs \<noteq> []"
  shows "regrouped (List.map_filter (row_step h nm) rs) = series_step h nm (regrouped rs)"
proof -
  have "hd (List.map_filter (row_step h nm) rs) \<in> set (List.map_filter (row_step h nm) rs)" using assms(2) by simp
  moreover have "\<exists>r \<in> set rs. \<exists>w. y = r\<lparr>row_metric := nm (row_metric r), row_value := w\<rparr>"
    if "y \<in> set (List.map_filter (row_step h nm) rs)" for y
    using that by (auto simp: set_map_filter row_step_def)
  ultimately obtain r w where r: "r \<in> set rs"
    "hd (List.map_filter (row_step h nm) rs) = r\<lparr>row_metric := nm (row_metric r), row_value := w\<rparr>"
    by blast
  have "row_metric (hd (List.map_filter (row_step h nm) rs)) = nm (row_metric (hd rs))"
    "row_labels (hd (List.map_filter (row_step h nm) rs)) = row_labels (hd rs)"
    unfolding r(2) using assms(1) r(1) by simp_all
  moreover have "map (\<lambda>r. (row_ts r, row_value r)) (List.map_filter (row_step h nm) rs) =
      List.map_filter (\<lambda>(ts, v). map_option (\<lambda>w. (ts, w)) (h v)) (map (\<lambda>r. (row_ts r, row_value r)) rs)"
    unfolding map_of_map_filter_result map_filter_of_map
    by (rule map_filter_result_cong) (simp add: row_step_def option.map_comp comp_def)
  ultimately show ?thesis by (simp add: regrouped_def series_step_def)
qed

text \<open>The keys that are left, and the rows of one key.\<close>

lemma stepped_keys:
  assumes "\<And>k. filter (\<lambda>r. row_key r = k) (List.map_filter F rows) = List.map_filter F (filter (\<lambda>r. kk r = k) rows)"
    "\<And>r r'. F r = Some r' \<Longrightarrow> row_key r' = kk r"
  shows "row_key ` set (List.map_filter F rows) = {k \<in> kk ` set rows. List.map_filter F (filter (\<lambda>r. kk r = k) rows) \<noteq> []}"
proof (intro set_eqI iffI)
  fix k assume "k \<in> row_key ` set (List.map_filter F rows)"
  then obtain r' where r': "r' \<in> set (List.map_filter F rows)" "row_key r' = k" by auto
  then have "r' \<in> set (List.map_filter F (filter (\<lambda>r. kk r = k) rows))" unfolding assms(1) [symmetric] by simp
  then have "List.map_filter F (filter (\<lambda>r. kk r = k) rows) \<noteq> []" by force
  moreover have "k \<in> kk ` set rows" using r' by (auto simp: set_map_filter assms(2))
  ultimately show "k \<in> {k \<in> kk ` set rows. List.map_filter F (filter (\<lambda>r. kk r = k) rows) \<noteq> []}" by simp
next
  fix k assume "k \<in> {k \<in> kk ` set rows. List.map_filter F (filter (\<lambda>r. kk r = k) rows) \<noteq> []}"
  then have "filter (\<lambda>r. row_key r = k) (List.map_filter F rows) \<noteq> []" unfolding assms(1) by simp
  then show "k \<in> row_key ` set (List.map_filter F rows)" by (auto simp: filter_empty_conv)
qed

lemma collect_series_step:
  assumes "keys_identify rows" "strict_mono \<phi>"
    "\<forall>r \<in> set rows. row_key r = \<phi> (series_key (nm (row_metric r)) (row_labels r))"
  shows "collect_series (List.map_filter (row_step h nm) rows) =
    filter (\<lambda>s. rp_points s \<noteq> []) (map (series_step h nm) (collect_series rows))"
proof -
  let ?kk = "\<lambda>r. series_key (nm (row_metric r)) (row_labels r)"
  let ?G = "\<lambda>k. filter (\<lambda>r. ?kk r = k) rows" and ?F = "List.map_filter (row_step h nm)"
  let ?T = "?kk ` set rows"
  have inj: "\<phi> a = \<phi> b \<longleftrightarrow> a = b" for a b using strict_mono_eq [OF assms(2)] .
  have keys: "row_key ` set rows = \<phi> ` ?T" using assms(3) by (force simp: image_image)
  have grp: "filter (\<lambda>r. row_key r = \<phi> k) rows = ?G k" for k
    using assms(3) by (intro filter_cong refl) (simp add: inj)
  have old: "collect_series rows = map (\<lambda>k. regrouped (?G k)) (sorted_list_of_set ?T)"
    unfolding collect_series_groups bt_group_eq_map keys sorted_list_of_set_image [OF finite_imageI [OF finite_set] assms(2)]
    by (simp add: comp_def grp)
  have flt: "filter (\<lambda>r. row_key r = k) (?F rows) = ?F (?G k)" for k
    by (rule filter_map_filter) (simp add: row_step_key)
  have "row_key ` set (?F rows) = {k \<in> ?T. ?F (?G k) \<noteq> []}"
    using flt row_step_key by (rule stepped_keys [where kk = ?kk])
  then have "collect_series (?F rows) = map (\<lambda>k. regrouped (?F (?G k))) (filter (\<lambda>k. ?F (?G k) \<noteq> []) (sorted_list_of_set ?T))"
    unfolding collect_series_groups bt_group_eq_map
    by (simp add: comp_def flt sorted_list_of_set_filter)
  also have "\<dots> = filter (\<lambda>s. rp_points s \<noteq> []) (map (\<lambda>k. series_step h nm (regrouped (?G k))) (sorted_list_of_set ?T))"
  proof -
    have same: "\<forall>r \<in> set (?G k). row_metric r = row_metric (hd (?G k)) \<and> row_labels r = row_labels (hd (?G k))" for k
    proof
      fix r assume r: "r \<in> set (?G k)"
      then have "?G k \<noteq> []" by (metis empty_iff empty_set)
      then have "hd (?G k) \<in> set (?G k)" by (rule hd_in_set)
      with r have "row_key r = row_key (hd (?G k))" "r \<in> set rows" "hd (?G k) \<in> set rows"
        using assms(3) by auto
      then show "row_metric r = row_metric (hd (?G k)) \<and> row_labels r = row_labels (hd (?G k))"
        using assms(1) by (simp only: keys_identify_def)
    qed
    have ne: "rp_points (series_step h nm (regrouped (?G k))) \<noteq> [] \<longleftrightarrow> ?F (?G k) \<noteq> []" for k
      by (auto simp: series_step_def regrouped_def row_step_def List.map_filter_def filter_empty_conv)
    show ?thesis unfolding filter_map comp_def ne
      by (rule map_cong [OF refl]) (simp add: regrouped_step [OF same])
  qed
  finally show ?thesis by (simp add: old comp_def)
qed

section \<open>The statement\<close>

lemma strict_mono_prefix: "strict_mono ((@) (m :: string))"
proof (rule strict_monoI)
  show "m @ x < m @ y" if "x < y" for x y using that by (induction m) simp_all
qed

lemma window_join_name:
  "effective_metric_name sel = Some name \<Longrightarrow> r \<in> set (window_join db sel lo hi) \<Longrightarrow> st_metric (fst r) = name"
  by (auto simp: window_join_def where_holds_def selector_conds_def)

lemma selector_rows_name:
  "effective_metric_name sel = Some name \<Longrightarrow> r \<in> set (selector_rows db sel lo hi) \<Longrightarrow> row_metric r = name"
  using window_join_name by (fastforce simp: selector_rows_def)

text \<open>
  (C16) A scalar and a selector over a range: the statement answers exactly the series, in the same order
  and with the same timestamps and values, that the operator in Rust makes of the selector's series,
  for a selector that names its metric, values without \<open>NaN\<close>, series told apart by their keys and an
  engine that compares as IEEE does.
\<close>

theorem scalar_range_pushdown_matches:
  assumes "range_selector Q sel lo hi = Inr inner" "scalar_vector_range_via_sql Q c sel op rb left lo hi = Inr out"
    "run_selector_query Q sel lo hi = Inr rows" "keys_identify rows" "effective_metric_name sel = Some name"
    "reads_back Q lo" "reads_back Q hi" "ieee_engine Q" "\<not> is_nan c" "\<forall>r \<in> set rows. \<not> is_nan (row_value r)"
  shows "out = apply_scalar_vector_range (pe_powf (qe_prom Q)) c inner op rb left"
proof -
  let ?f = "scalar_vector_point (pe_powf (qe_prom Q)) c op rb left" and ?nm = "result_name op rb"
  let ?F = "\<lambda>(s, t, v). map_option (\<lambda>w. (s, t, w)) (scalar_row Q c op rb left v)"
  let ?W = "window_join (qe_db Q) sel lo hi"
  let ?K = "sort_key (\<lambda>(s, t, v). (st_metric s, t))"
  let ?mk = "\<lambda>nm (s, t, v). \<lparr>row_metric = nm (st_metric s), row_labels = labels_to_btree (st_labels s), row_ts = t, row_value = v\<rparr>"
  have rows: "rows = filter (\<lambda>r. regex_passes sel (row_labels r)) (map (?mk (\<lambda>m. m)) (?K ?W))"
    using run_selector_rows [OF assms(3,6,7)] by (simp add: selector_rows_def)
  have inner: "inner = collect_series rows"
    using range_selector_groups [OF assms(1,3)] by (simp add: collect_series_groups)
  have "out = collect_series (filter (\<lambda>r. regex_passes sel (row_labels r)) (map (?mk ?nm) (?K (List.map_filter ?F ?W))))"
    using assms(2,6,7)
    by (auto simp: scalar_vector_range_via_sql_def decode_bin_range_def run_stmt_def reads_back_def split: option.splits)
  also have "?K (List.map_filter ?F ?W) = List.map_filter ?F (?K ?W)"
    by (rule sort_key_map_filter) auto
  also have "map (?mk ?nm) \<dots> = List.map_filter (row_step (scalar_row Q c op rb left) ?nm) (map (?mk (\<lambda>m. m)) (?K ?W))"
    unfolding map_of_map_filter_result map_filter_of_map
    by (rule map_filter_result_cong) (auto simp: row_step_def option.map_comp comp_def)
  also have "filter (\<lambda>r. regex_passes sel (row_labels r)) \<dots> = List.map_filter (row_step (scalar_row Q c op rb left) ?nm) rows"
    unfolding rows by (rule filter_map_filter) (auto simp: row_step_def)
  also have "\<dots> = List.map_filter (row_step ?f ?nm) rows"
    by (rule map_filter_result_cong) (simp add: row_step_def scalar_row_ieee [OF assms(8,9)] assms(10))
  also have "collect_series \<dots> = filter (\<lambda>s. rp_points s \<noteq> []) (map (series_step ?f ?nm) (collect_series rows))"
  proof (cases "is_filter op rb")
    case True
    then show ?thesis
      by (intro collect_series_step [OF assms(4), of "\<lambda>k. k"]) (simp_all add: strict_mono_def result_name_def)
  next
    case False
    have "row_metric r = name" if "r \<in> set rows" for r
      using selector_rows_name [OF assms(5)] run_selector_rows [OF assms(3,6,7)] that by blast
    with False show ?thesis
      by (intro collect_series_step [OF assms(4) strict_mono_prefix [of name]]) (simp add: result_name_def series_key_def)
  qed
  also have "series_step ?f ?nm = (\<lambda>s. s\<lparr>rp_metric := (if is_filter op rb then rp_metric s else []),
      rp_points := List.map_filter (\<lambda>(ts, v). map_option (\<lambda>w. (ts, w)) (?f v)) (rp_points s)\<rparr>)"
    by (simp add: fun_eq_iff series_step_def result_name_def)
  finally show ?thesis unfolding inner apply_scalar_vector_range_def .
qed

text \<open>\<open>up > 1\<close> over twenty microseconds.\<close>

theorem scalar_range_pushdown_matches_witness:
  "scalar_vector_range_via_sql demo_env (Num 1) up_selector Gt False False 0 20 =
     Inr [\<lparr>rp_metric = ''up'', rp_labels = [(''job'', ''a'')], rp_points = [(20, Num 2)]\<rparr>,
          \<lparr>rp_metric = ''up'', rp_labels = [(''job'', ''b'')], rp_points = [(20, Num 5)]\<rparr>]"
proof -
  let ?rows = "selector_rows (qe_db demo_env) up_selector 0 20"
  let ?inner = "[\<lparr>rp_metric = ''up'', rp_labels = [(''job'', ''a'')], rp_points = [(10, Num 1), (20, Num 2)]\<rparr>,
          \<lparr>rp_metric = ''up'', rp_labels = [(''job'', ''b'')], rp_points = [(20, Num 5)]\<rparr>]"
  have rows: "?rows = [\<lparr>row_metric = ''up'', row_labels = [(''job'', ''a'')], row_ts = 10, row_value = Num 1\<rparr>,
          \<lparr>row_metric = ''up'', row_labels = [(''job'', ''a'')], row_ts = 20, row_value = Num 2\<rparr>,
          \<lparr>row_metric = ''up'', row_labels = [(''job'', ''b'')], row_ts = 20, row_value = Num 5\<rparr>]"
    by code_simp
  have run: "run_selector_query demo_env up_selector 0 20 = Inr ?rows"
    unfolding run_selector_query_def by (simp add: demo_run_stmt)
  have "range_selector demo_env up_selector 0 20 = Inr ?inner"
    unfolding range_selector_def run rows by code_simp
  moreover obtain out where out: "scalar_vector_range_via_sql demo_env (Num 1) up_selector Gt False False 0 20 = Inr out"
    unfolding scalar_vector_range_via_sql_def by (simp add: demo_run_stmt)
  moreover have "keys_identify ?rows" "\<forall>r \<in> set ?rows. \<not> is_nan (row_value r)"
    unfolding rows by (simp_all add: keys_identify_def series_key_def)
  moreover have "effective_metric_name up_selector = Some ''up''" by (simp add: effective_metric_name_def up_selector_def)
  ultimately have "out = apply_scalar_vector_range (pe_powf (qe_prom demo_env)) (Num 1) ?inner Gt False False"
    by (intro scalar_range_pushdown_matches [OF _ out run]) (simp_all add: demo_reads_back demo_ieee)
  also have "\<dots> = [\<lparr>rp_metric = ''up'', rp_labels = [(''job'', ''a'')], rp_points = [(20, Num 2)]\<rparr>,
          \<lparr>rp_metric = ''up'', rp_labels = [(''job'', ''b'')], rp_points = [(20, Num 5)]\<rparr>]" by code_simp
  finally show ?thesis using out by simp
qed

end
