(* ===== verification/Pushdown_Agg_Range.thy ===== *)
theory Pushdown_Agg_Range
  imports Pushdown_Agg_Equiv Pushdown_Binary_Range
begin

text \<open>
  \<open>sum\<close>, \<open>avg\<close>, \<open>min\<close>, \<open>max\<close> and \<open>count\<close> of a selector over a range, pushed into SQL, against the same
  aggregation in Rust: the same series with the same timestamps, and at each of them the aggregate of
  the same values.
\<close>

section \<open>Samples with their labels\<close>

type_synonym labelled = "labels \<times> int \<times> f64"

definition times_of :: "(labels \<Rightarrow> labels) \<Rightarrow> labelled list \<Rightarrow> labels \<Rightarrow> int set" where
  "times_of h xs L = {t. \<exists>x \<in> set xs. h (fst x) = L \<and> fst (snd x) = t}"

definition values_at :: "(labels \<Rightarrow> labels) \<Rightarrow> labelled list \<Rightarrow> labels \<Rightarrow> int \<Rightarrow> f64 list" where
  "values_at h xs L t = map (\<lambda>x. snd (snd x)) (filter (\<lambda>x. h (fst x) = L \<and> fst (snd x) = t) xs)"

text \<open>The answer an aggregation gives for labelled samples, grouped by what \<open>h\<close> makes of the labels.\<close>

definition aggregated :: "(f64 list \<Rightarrow> f64) \<Rightarrow> (labels \<Rightarrow> labels) \<Rightarrow> labelled list \<Rightarrow> range_points list" where
  "aggregated agg h xs =
     map (\<lambda>L. \<lparr>rp_metric = [], rp_labels = L,
              rp_points = map (\<lambda>t. (t, agg (values_at h xs L t))) (sorted_list_of_set (times_of h xs L))\<rparr>)
       (sorted_list_of_set ((\<lambda>x. h (fst x)) ` set xs))"

lemma finite_times_of [simp]: "finite (times_of h xs L)"
proof -
  have "times_of h xs L \<subseteq> (\<lambda>x. fst (snd x)) ` set xs" by (auto simp: times_of_def)
  then show ?thesis by (rule finite_subset) simp
qed

section \<open>The statement\<close>

definition labelled_tuple :: "series_tuple \<times> int \<times> f64 \<Rightarrow> labelled" where
  "labelled_tuple r = (st_labels (fst r), snd r)"

text \<open>
  A key for each row: the label part \<open>lab\<close> of a row's key is what \<open>h\<close> makes of its labels, its time part
  is the row's time, and rows of one group have keys in the order of their times.
\<close>

definition row_keys :: "(labels \<Rightarrow> labels) \<Rightarrow> ('k::linorder \<Rightarrow> labels) \<Rightarrow> ('k \<Rightarrow> int) \<Rightarrow>
    (series_tuple \<times> int \<times> f64 \<Rightarrow> 'k) \<Rightarrow> (series_tuple \<times> int \<times> f64) list \<Rightarrow> bool" where
  "row_keys h lab tm key W \<longleftrightarrow>
     (\<forall>r \<in> set W. lab (key r) = h (st_labels (fst r)) \<and> tm (key r) = fst (snd r) \<and>
        (\<exists>e. strict_mono e \<and>
           (\<forall>x \<in> set W. h (st_labels (fst x)) = h (st_labels (fst r)) \<longrightarrow> key x = e (fst (snd x)))))"

lemma collected_groups:
  fixes key :: "series_tuple \<times> int \<times> f64 \<Rightarrow> 'k :: linorder"
  assumes "row_keys h lab tm key W"
  shows "collect_groups (map (\<lambda>k. (lab k, tm k, agg (map (\<lambda>x. snd (snd x)) (filter (\<lambda>x. key x = k) W))))
      (sorted_list_of_set (key ` set W))) = aggregated agg h (map labelled_tuple W)"
proof -
  let ?P = "sorted_list_of_set (key ` set W)" and ?xs = "map labelled_tuple W"
  let ?a = "\<lambda>k. agg (map (\<lambda>x. snd (snd x)) (filter (\<lambda>x. key x = k) W))"
  have lab: "lab (key x) = h (st_labels (fst x))" and tm: "tm (key x) = fst (snd x)" if "x \<in> set W" for x
    using assms that by (auto simp: row_keys_def)
  have labels: "lab ` (key ` set W) = (\<lambda>x. h (fst x)) ` set ?xs"
    unfolding image_image set_map by (intro image_cong refl) (simp add: lab labelled_tuple_def)
  have points: "map (\<lambda>k. (tm k, ?a k)) (filter (\<lambda>k. lab k = L) ?P) =
      map (\<lambda>t. (t, agg (values_at h ?xs L t))) (sorted_list_of_set (times_of h ?xs L))"
    if L: "L \<in> (\<lambda>x. h (fst x)) ` set ?xs" for L
  proof -
    obtain r where r: "r \<in> set W" "L = h (st_labels (fst r))" using L by (auto simp: labelled_tuple_def)
    obtain e where e: "strict_mono e" "\<And>x. x \<in> set W \<Longrightarrow> h (st_labels (fst x)) = L \<Longrightarrow> key x = e (fst (snd x))"
      using assms r by (auto simp: row_keys_def)
    have "{k \<in> key ` set W. lab k = L} = e ` times_of h ?xs L"
    proof (intro set_eqI iffI)
      fix k assume "k \<in> {k \<in> key ` set W. lab k = L}"
      then obtain x where "x \<in> set W" "k = key x" "h (st_labels (fst x)) = L" using lab by auto
      then show "k \<in> e ` times_of h ?xs L" using e(2) by (auto simp: times_of_def labelled_tuple_def)
    next
      fix k assume "k \<in> e ` times_of h ?xs L"
      then obtain x where "x \<in> set W" "h (st_labels (fst x)) = L" "k = e (fst (snd x))"
        by (auto simp: times_of_def labelled_tuple_def)
      then have "x \<in> set W" "k = key x" "lab k = L" using e(2) lab by metis+
      then show "k \<in> {k \<in> key ` set W. lab k = L}" by simp
    qed
    then have ks: "filter (\<lambda>k. lab k = L) ?P = map e (sorted_list_of_set (times_of h ?xs L))"
      by (simp add: sorted_list_of_set_filter sorted_list_of_set_image [OF finite_times_of e(1)])
    have "(tm (e t), ?a (e t)) = (t, agg (values_at h ?xs L t))" if t: "t \<in> times_of h ?xs L" for t
    proof -
      obtain x where x: "x \<in> set W" "h (st_labels (fst x)) = L" "t = fst (snd x)"
        using t by (auto simp: times_of_def labelled_tuple_def)
      then have k: "e t = key x" using e(2) by simp
      have "key y = key x \<longleftrightarrow> h (st_labels (fst y)) = L \<and> fst (snd y) = t" if "y \<in> set W" for y
        using that x lab tm e(2) by metis
      then have "filter (\<lambda>y. key y = key x) W = filter (\<lambda>y. h (st_labels (fst y)) = L \<and> fst (snd y) = t) W"
        by (intro filter_cong refl) simp
      then show ?thesis
        unfolding k values_at_def by (simp add: tm [OF x(1)] x(3) filter_map comp_def labelled_tuple_def)
    qed
    then show ?thesis unfolding ks map_map by (intro map_cong refl) simp
  qed
  have "collect_groups (map (\<lambda>k. (lab k, tm k, ?a k)) ?P) =
      map (\<lambda>L. \<lparr>rp_metric = [], rp_labels = L, rp_points = map (\<lambda>k. (tm k, ?a k)) (filter (\<lambda>k. lab k = L) ?P)\<rparr>)
        (sorted_list_of_set (lab ` (key ` set W)))"
    unfolding collect_groups_def bt_group_eq_map by (simp add: filter_map comp_def image_image)
  also have "\<dots> = aggregated agg h ?xs"
    unfolding aggregated_def labels by (rule map_cong [OF refl]) (simp add: points)
  finally show ?thesis .
qed

text \<open>Keys of \<open>by (...)\<close>: the values of the labels, then the time.\<close>

abbreviation key_time :: "string list \<Rightarrow> series_tuple \<times> int \<times> f64 \<Rightarrow> string option list \<times> int" where
  "key_time ks \<equiv> \<lambda>x. (key_values ks (fst x), fst (snd x))"

lemma strict_mono_Pair: "strict_mono (Pair (k :: 'a :: linorder) :: int \<Rightarrow> 'a \<times> int)"
  by (rule strict_monoI) simp

lemma by_row_keys:
  assumes "\<forall>r \<in> set W. bt_wf (st_labels (fst r))"
  shows "row_keys (keep_keys ks) (\<lambda>k. key_labels ks (fst k)) snd (key_time ks) W"
  unfolding row_keys_def
proof (intro ballI conjI)
  fix r assume r: "r \<in> set W"
  then show "key_labels ks (fst (key_time ks r)) = keep_keys ks (st_labels (fst r))"
    using assms by (simp add: key_labels_values)
  have "key_time ks x = Pair (key_values ks (fst r)) (fst (snd x))"
    if "x \<in> set W" "keep_keys ks (st_labels (fst x)) = keep_keys ks (st_labels (fst r))" for x
    using key_values_eq_iff [of "fst x" "fst r" ks] assms that r by simp
  then show "\<exists>e. strict_mono e \<and> (\<forall>x \<in> set W. keep_keys ks (st_labels (fst x)) = keep_keys ks (st_labels (fst r)) \<longrightarrow>
      key_time ks x = e (fst (snd x)))"
    using strict_mono_Pair by blast
qed simp

lemma range_by_aggregated:
  assumes "\<forall>r \<in> set W. bt_wf (st_labels (fst r))"
  shows "range_by Q (\<lambda>_. True) op ks W = aggregated (\<lambda>vs. the (agg_call_sql Q op vs)) (keep_keys ks) (map labelled_tuple W)"
proof -
  let ?G = "bt_group (\<lambda>(s, t, v). (key_values ks s, t)) (\<lambda>(s, t, v). v) W"
  have "List.map_filter (\<lambda>((key, t), vs). map_option (\<lambda>v. (key_labels ks key, t, v)) (kept_agg Q (\<lambda>_. True) op vs)) ?G =
      map (\<lambda>g. (key_labels ks (fst (fst g)), snd (fst g), the (agg_call_sql Q op (snd g)))) ?G"
    by (rule map_filter_all) (auto dest!: bt_group_nonempty simp: kept_agg_some)
  then show ?thesis
    unfolding range_by_def collected_groups [OF by_row_keys [OF assms], symmetric]
    by (simp add: bt_group_eq_map comp_def case_prod_unfold)
qed

text \<open>Keys of \<open>without (...)\<close>: the time, then the text of the labels that are left.\<close>

abbreviation time_text :: "string list \<Rightarrow> series_tuple \<times> int \<times> f64 \<Rightarrow> int \<times> string" where
  "time_text ex \<equiv> \<lambda>x. (fst (snd x), rest_text ex (fst x))"

abbreviation "group_labels ex W k \<equiv> drop_labels ex (st_labels (fst (hd (filter (\<lambda>x. rest_text ex (fst x) = snd k) W))))"

lemma strict_mono_time: "strict_mono (\<lambda>t :: int. (t, k :: 'a :: linorder))"
  by (rule strict_monoI) simp

lemma group_labels_of:
  assumes "fst ` set W \<subseteq> picked db sel" "remaining_tell db sel modi" "modifier_excluded_keys modi = Some ex"
    "r \<in> set W" "snd k = rest_text ex (fst r)"
  shows "group_labels ex W k = drop_labels ex (st_labels (fst r))"
proof -
  let ?F = "filter (\<lambda>x. rest_text ex (fst x) = snd k) W"
  have "?F \<noteq> []" using assms(4,5) by (auto simp: filter_empty_conv)
  then have "hd ?F \<in> set ?F" by (rule hd_in_set)
  then have "fst (hd ?F) \<in> picked db sel" "rest_text ex (fst (hd ?F)) = rest_text ex (fst r)"
    using assms(1,5) by auto
  then show ?thesis using remaining_tell_without(2) [OF assms(2,3)] assms(1,4) by blast
qed

lemma without_row_keys:
  assumes "fst ` set W \<subseteq> picked db sel" "remaining_tell db sel modi" "modifier_excluded_keys modi = Some ex"
  shows "row_keys (drop_labels ex) (group_labels ex W) fst (time_text ex) W"
  unfolding row_keys_def
proof (intro ballI conjI)
  fix r assume r: "r \<in> set W"
  show "group_labels ex W (time_text ex r) = drop_labels ex (st_labels (fst r))"
    by (rule group_labels_of [OF assms r]) simp
  have "time_text ex x = (fst (snd x), rest_text ex (fst r))"
    if "drop_labels ex (st_labels (fst x)) = drop_labels ex (st_labels (fst r))" for x :: "series_tuple \<times> int \<times> f64"
    using that by simp
  then show "\<exists>e. strict_mono e \<and> (\<forall>x \<in> set W. drop_labels ex (st_labels (fst x)) = drop_labels ex (st_labels (fst r)) \<longrightarrow>
      time_text ex x = e (fst (snd x)))"
    using strict_mono_time by blast
qed simp

lemma range_without_aggregated:
  assumes "ids_unique (qe_db Q)" "db_wf (qe_db Q)" "fst ` set W \<subseteq> picked (qe_db Q) sel"
    "remaining_tell (qe_db Q) sel modi" "modifier_excluded_keys modi = Some ex"
  shows "range_without Q (\<lambda>_. True) op ex (map (\<lambda>(s, t, v). (st_id s, t, v)) W) =
    aggregated (\<lambda>vs. the (agg_call_sql Q op vs)) (drop_labels ex) (map labelled_tuple W)"
proof -
  let ?K = "time_text ex" and ?id = "\<lambda>x :: series_tuple \<times> int \<times> f64. (st_id (fst x), snd (snd x))"
  let ?F = "\<lambda>k. filter (\<lambda>x. ?K x = k) W"
  have W: "fst x \<in> picked (qe_db Q) sel" if "x \<in> set W" for x using assms(3) that by blast
  have rest: "\<forall>x \<in> set W. fst x \<in> set (db_series (qe_db Q)) \<and> drop_labels ex (st_labels (fst x)) \<noteq> []"
    using W remaining_tell_without(1) [OF assms(4,5) W W] by (simp add: picked_def)
  have row: "(case kept_agg Q (\<lambda>_. True) op (map snd (map ?id (?F k))) of
          None \<Rightarrow> []
        | Some v \<Rightarrow> map (\<lambda>lbls. (lbls, fst k, v)) (rep_labels (qe_db Q) ex (map fst (map ?id (?F k))))) =
      [(group_labels ex W k, fst k, the (agg_call_sql Q op (map (\<lambda>x. snd (snd x)) (?F k))))]"
    if k: "k \<in> ?K ` set W" for k
  proof -
    obtain r where r: "r \<in> set W" "k = ?K r" using k by blast
    have ne: "?F k \<noteq> []" using r by (auto simp: filter_empty_conv)
    have L: "group_labels ex W k = drop_labels ex (st_labels (fst x))" if "x \<in> set (?F k)" for x
      using that by (intro group_labels_of [OF assms(3-5)]) auto
    have "rep_labels (qe_db Q) ex (map fst (map ?id (?F k))) = [group_labels ex W k]"
    proof (rule rep_labels_group [OF assms(1,2)])
      show "map fst (map ?id (?F k)) \<noteq> []" using ne by simp
      have "fst x \<in> set (db_series (qe_db Q)) \<and> drop_labels ex (st_labels (fst x)) = group_labels ex W k" if "x \<in> set (?F k)" for x
        using rest L [OF that] that by simp
      then show "\<forall>sid \<in> set (map fst (map ?id (?F k))).
          \<exists>s \<in> set (db_series (qe_db Q)). st_id s = sid \<and> drop_labels ex (st_labels s) = group_labels ex W k"
        by auto
    qed
    moreover have "map snd (map ?id (?F k)) = map (\<lambda>x. snd (snd x)) (?F k)" by (simp add: comp_def)
    ultimately show ?thesis using ne by (simp only: kept_agg_some map_is_Nil_conv option.case list.map simp_thms)
  qed
  have "bt_group (\<lambda>(g, sid, t, v). (t, g)) (\<lambda>(g, sid, t, v). (sid, v))
      (join_gk (qe_db Q) ex (map (\<lambda>(s, t, v). (st_id s, t, v)) W)) =
      map (\<lambda>k. (k, map ?id (?F k))) (sorted_list_of_set (?K ` set W))"
    using join_gk_texts [OF assms(1,2) rest] unfolding bt_group_eq_map
    by (simp add: filter_map comp_def case_prod_unfold image_image)
  then have "range_without Q (\<lambda>_. True) op ex (map (\<lambda>(s, t, v). (st_id s, t, v)) W) =
      collect_groups (concat (map (\<lambda>k. case kept_agg Q (\<lambda>_. True) op (map snd (map ?id (?F k))) of
          None \<Rightarrow> []
        | Some v \<Rightarrow> map (\<lambda>lbls. (lbls, fst k, v)) (rep_labels (qe_db Q) ex (map fst (map ?id (?F k)))))
        (sorted_list_of_set (?K ` set W))))"
    by (simp add: range_without_def comp_def case_prod_unfold cong: option.case_cong)
  also have "\<dots> = collect_groups (concat (map (\<lambda>k. [(group_labels ex W k, fst k,
        the (agg_call_sql Q op (map (\<lambda>x. snd (snd x)) (?F k))))]) (sorted_list_of_set (?K ` set W))))"
    using row by (intro arg_cong [where f = collect_groups] arg_cong [where f = concat] map_cong refl) simp
  also have "\<dots> = aggregated (\<lambda>vs. the (agg_call_sql Q op vs)) (drop_labels ex) (map labelled_tuple W)"
    unfolding concat_map_singleton by (rule collected_groups [OF without_row_keys [OF assms(3-5)]])
  finally show ?thesis .
qed

text \<open>Either, as the modifier asks.\<close>

definition range_grouped :: "query_env \<Rightarrow> (f64 \<Rightarrow> bool) \<Rightarrow> agg_op \<Rightarrow> label_modifier option \<Rightarrow>
    (series_tuple \<times> int \<times> f64) list \<Rightarrow> range_points list" where
  "range_grouped Q keep op modi W =
     (case modifier_excluded_keys modi of
        Some ex \<Rightarrow> range_without Q keep op ex (map (\<lambda>(s, t, v). (st_id s, t, v)) W)
      | None \<Rightarrow> range_by Q keep op (aggregate_group_keys modi) W)"

lemma range_grouped_aggregated:
  assumes "ids_unique (qe_db Q)" "db_wf (qe_db Q)" "fst ` set W \<subseteq> picked (qe_db Q) sel" "remaining_tell (qe_db Q) sel modi"
  shows "range_grouped Q (\<lambda>_. True) op modi W =
    aggregated (\<lambda>vs. the (agg_call_sql Q op vs)) (\<lambda>l. retained_labels l modi) (map labelled_tuple W)"
proof (cases "modifier_excluded_keys modi")
  case None
  have "\<forall>r \<in> set W. bt_wf (st_labels (fst r))" using assms(2,3) by (auto simp: picked_def db_wf_def)
  then show ?thesis by (simp add: range_grouped_def None range_by_aggregated retained_by_keys [OF None])
next
  case (Some ex)
  then show ?thesis
    using range_without_aggregated [OF assms Some] by (simp add: range_grouped_def retained_without [OF Some])
qed

section \<open>The Rust path\<close>

definition labelled_points :: "range_points list \<Rightarrow> labelled list" where
  "labelled_points series = concat (map (\<lambda>s. map (Pair (rp_labels s)) (rp_points s)) series)"

lemma labelled_points_group:
  "filter (\<lambda>x. h (fst x) = L) (labelled_points inner) = labelled_points (filter (\<lambda>s. h (rp_labels s) = L) inner)"
  by (induction inner) (auto simp: labelled_points_def filter_map comp_def)

lemma labelled_points_snd: "map snd (labelled_points inner) = concat (map rp_points inner)"
  by (induction inner) (simp_all add: labelled_points_def comp_def)

lemma values_at_group:
  "values_at h (labelled_points inner) L t =
     map snd (filter (\<lambda>p. fst p = t) (concat (map rp_points (filter (\<lambda>s. h (rp_labels s) = L) inner))))"
proof -
  have c: "concat (map rp_points (filter (\<lambda>s. h (rp_labels s) = L) inner)) =
      map snd (filter (\<lambda>x. h (fst x) = L) (labelled_points inner))"
    unfolding labelled_points_group labelled_points_snd ..
  show ?thesis unfolding c by (simp add: values_at_def filter_map comp_def conj_commute)
qed

lemma aggregate_range_aggregated:
  assumes "\<forall>s \<in> set inner. rp_points s \<noteq> []"
  shows "aggregate_range_points inner op modi =
    aggregated (apply_agg op) (\<lambda>l. retained_labels l modi) (labelled_points inner)"
proof -
  let ?h = "\<lambda>l. retained_labels l modi" and ?xs = "labelled_points inner"
  let ?m = "\<lambda>L. filter (\<lambda>s. ?h (rp_labels s) = L) inner"
  have labels: "(\<lambda>s. ?h (rp_labels s)) ` set inner = (\<lambda>x. ?h (fst x)) ` set ?xs"
    using assms by (force simp: labelled_points_def neq_Nil_conv image_iff)
  have grp: "aggregate_group op (L, ?m L) = [\<lparr>rp_metric = [], rp_labels = L, rp_points =
      map (\<lambda>t. (t, apply_agg op (values_at ?h ?xs L t))) (sorted_list_of_set (times_of ?h ?xs L))\<rparr>]"
    if "L \<in> (\<lambda>s. ?h (rp_labels s)) ` set inner" for L
  proof -
    have c: "concat (map rp_points (?m L)) = map snd (filter (\<lambda>x. ?h (fst x) = L) ?xs)"
      unfolding labelled_points_group [of ?h] labelled_points_snd ..
    have t: "fst ` set (concat (map rp_points (?m L))) = times_of ?h ?xs L"
      unfolding c by (auto simp: times_of_def image_image)
    have v: "map snd (filter (\<lambda>p. fst p = t) (concat (map rp_points (?m L)))) = values_at ?h ?xs L t" for t
      by (rule values_at_group [symmetric])
    have "times_of ?h ?xs L \<noteq> {}"
      unfolding t [symmetric] using that assms by (force simp: neq_Nil_conv)
    then have "sorted_list_of_set (times_of ?h ?xs L) \<noteq> []" by simp
    then show ?thesis
      unfolding aggregate_group_def Let_def case_prod_conv bt_group_eq_map t v map_map comp_def by simp
  qed
  have "aggregate_range_points inner op modi =
      concat (map (\<lambda>L. aggregate_group op (L, ?m L)) (sorted_list_of_set ((\<lambda>s. ?h (rp_labels s)) ` set inner)))"
    by (simp add: aggregate_range_points_def bt_group_eq_map comp_def)
  also have "\<dots> = concat (map (\<lambda>L. [\<lparr>rp_metric = [], rp_labels = L, rp_points =
      map (\<lambda>t. (t, apply_agg op (values_at ?h ?xs L t))) (sorted_list_of_set (times_of ?h ?xs L))\<rparr>])
      (sorted_list_of_set ((\<lambda>s. ?h (rp_labels s)) ` set inner)))"
    by (intro arg_cong [where f = concat] map_cong refl) (simp add: grp)
  finally show ?thesis unfolding labels aggregated_def by (simp add: concat_map_singleton)
qed

section \<open>The same samples on both sides\<close>

text \<open>Collecting rows into series keeps every sample under its labels.\<close>

lemma collect_series_labelled:
  assumes "keys_identify rows"
  shows "mset (labelled_points (collect_series rows)) = image_mset (\<lambda>r. (row_labels r, row_ts r, row_value r)) (mset rows)"
    and "\<forall>s \<in> set (collect_series rows). rp_points s \<noteq> []"
proof -
  let ?tr = "\<lambda>r. (row_labels r, row_ts r, row_value r)"
  show "\<forall>s \<in> set (collect_series rows). rp_points s \<noteq> []"
    unfolding collect_series_groups using bt_group_nonempty by (fastforce simp: regrouped_def)
  have "map (\<lambda>s. map (Pair (rp_labels s)) (rp_points s)) (collect_series rows) = map (\<lambda>g. map ?tr (snd g)) (rows_by_key rows)"
    unfolding collect_series_groups map_map
    by (rule map_cong) (auto simp: regrouped_def dest: rows_by_key_mem(3) [OF _ assms])
  then have "labelled_points (collect_series rows) = map ?tr (concat (map snd (rows_by_key rows)))"
    by (simp add: labelled_points_def map_concat comp_def)
  then show "mset (labelled_points (collect_series rows)) = image_mset ?tr (mset rows)"
    using bt_group_partition [of "\<lambda>r. row_key r" "\<lambda>r. r" rows] by (simp only: mset_map) simp
qed

text \<open>Aggregates of the same samples, read in different orders.\<close>

lemma aggregated_mset:
  assumes "mset xs = mset ys"
  shows "map (\<lambda>s. (rp_metric s, rp_labels s, map fst (rp_points s))) (aggregated f ks xs) =
      map (\<lambda>s. (rp_metric s, rp_labels s, map fst (rp_points s))) (aggregated g ks ys)"
    and "mset (values_at ks xs L t) = mset (values_at ks ys L t)"
proof -
  have "set xs = set ys" using assms by (rule mset_eq_setD)
  then show "map (\<lambda>s. (rp_metric s, rp_labels s, map fst (rp_points s))) (aggregated f ks xs) =
      map (\<lambda>s. (rp_metric s, rp_labels s, map fst (rp_points s))) (aggregated g ks ys)"
    by (simp add: aggregated_def times_of_def comp_def)
  show "mset (values_at ks xs L t) = mset (values_at ks ys L t)"
    using assms by (simp add: values_at_def)
qed

lemma aggregated_value:
  assumes "s \<in> set (aggregated f ks xs)" "(t, v) \<in> set (rp_points s)"
  shows "v = f (values_at ks xs (rp_labels s) t)" "values_at ks xs (rp_labels s) t \<noteq> []"
  using assms by (auto simp: aggregated_def values_at_def times_of_def filter_empty_conv)

text \<open>
  The same series with the same timestamps, and at each of them the engine's aggregate of exactly the
  values that the series of the group have there.
\<close>

definition aggregates_as :: "query_env \<Rightarrow> range_points list \<Rightarrow> agg_op \<Rightarrow> label_modifier option \<Rightarrow> range_points list \<Rightarrow> bool" where
  "aggregates_as Q inner op modi out \<longleftrightarrow>
    map (\<lambda>s. (rp_metric s, rp_labels s, map fst (rp_points s))) out =
      map (\<lambda>s. (rp_metric s, rp_labels s, map fst (rp_points s))) (aggregate_range_points inner op modi) \<and>
    (\<forall>s \<in> set out. \<forall>(t, v) \<in> set (rp_points s). \<exists>vs.
       mset vs = mset (map snd (filter (\<lambda>p. fst p = t)
         (concat (map rp_points (filter (\<lambda>i. retained_labels (rp_labels i) modi = rp_labels s) inner))))) \<and>
       agg_call_sql Q op vs = Some v)"

lemma range_grouped_aggregates:
  assumes "mset (labelled_points inner) = mset (map labelled_tuple W)" "\<forall>s \<in> set inner. rp_points s \<noteq> []"
    "ids_unique (qe_db Q)" "db_wf (qe_db Q)" "fst ` set W \<subseteq> picked (qe_db Q) sel" "remaining_tell (qe_db Q) sel modi"
  shows "aggregates_as Q inner op modi (range_grouped Q (\<lambda>_. True) op modi W)"
proof -
  let ?h = "\<lambda>l. retained_labels l modi" and ?xs = "map labelled_tuple W" and ?ys = "labelled_points inner"
  have sql: "range_grouped Q (\<lambda>_. True) op modi W = aggregated (\<lambda>vs. the (agg_call_sql Q op vs)) ?h ?xs"
    using assms(3-6) by (rule range_grouped_aggregated)
  have rust: "aggregate_range_points inner op modi = aggregated (apply_agg op) ?h ?ys"
    using assms(2) by (rule aggregate_range_aggregated)
  have "\<exists>vs. mset vs = mset (map snd (filter (\<lambda>p. fst p = t)
        (concat (map rp_points (filter (\<lambda>i. retained_labels (rp_labels i) modi = rp_labels s) inner))))) \<and>
      agg_call_sql Q op vs = Some v"
    if p: "s \<in> set (aggregated (\<lambda>vs. the (agg_call_sql Q op vs)) ?h ?xs)" "(t, v) \<in> set (rp_points s)" for s t v
  proof (intro exI conjI)
    let ?vs = "values_at ?h ?xs (rp_labels s) t"
    have "v = the (agg_call_sql Q op ?vs)" "?vs \<noteq> []" using aggregated_value p by blast+
    then show "agg_call_sql Q op ?vs = Some v" using agg_call_sql_some [of ?vs Q op] by auto
    have "mset ?vs = mset (values_at ?h ?ys (rp_labels s) t)"
      using assms(1) by (intro aggregated_mset(2)) simp
    then show "mset ?vs = mset (map snd (filter (\<lambda>p. fst p = t)
        (concat (map rp_points (filter (\<lambda>i. retained_labels (rp_labels i) modi = rp_labels s) inner)))))"
      by (simp only: values_at_group)
  qed
  then show ?thesis
    unfolding aggregates_as_def sql rust using aggregated_mset(1) [OF assms(1) [symmetric]] by auto
qed

text \<open>The rows of a selector's window, as the Rust path collects them.\<close>

lemma window_picked: "fst ` set (window_join db sel lo hi) \<subseteq> picked db sel"
  using windowed_picked by (simp add: windowed_def)

lemma rows_of_window:
  assumes "db_wf db"
  shows "mset (selector_rows db (without_regex sel) lo hi) = mset (map row_of_tuple (window_join db sel lo hi))"
  by (simp add: selector_rows_all [OF assms regex_true_without])

lemma window_aggregates:
  assumes "ids_unique (qe_db Q)" "db_wf (qe_db Q)" "keys_identify rows" "remaining_tell (qe_db Q) sel modi"
    "mset rows = mset (map row_of_tuple (window_join (qe_db Q) sel lo hi))"
  shows "aggregates_as Q (collect_series rows) op modi
    (range_grouped Q (\<lambda>_. True) op modi (window_join (qe_db Q) sel lo hi))"
proof (rule range_grouped_aggregates [OF _ collect_series_labelled(2) [OF assms(3)] assms(1,2) window_picked assms(4)])
  show "mset (labelled_points (collect_series rows)) = mset (map labelled_tuple (window_join (qe_db Q) sel lo hi))"
    unfolding collect_series_labelled(1) [OF assms(3)] assms(5)
    by (simp add: multiset.map_comp comp_def row_of_tuple_def labelled_tuple_def [abs_def])
qed

text \<open>Rows of the series table are told apart by their keys.\<close>

lemma keys_identify_mset: "mset rows = mset rows' \<Longrightarrow> keys_identify rows \<longleftrightarrow> keys_identify rows'"
  using mset_eq_setD [of rows rows'] by (simp add: keys_identify_def)

lemma tuples_identified:
  assumes "series_table_ok db" "\<forall>x \<in> set W. fst x \<in> set (db_series db)"
  shows "keys_identify (map row_of_tuple W)"
proof -
  have "fst x = fst y" if "x \<in> set W" "y \<in> set W" "tuple_key (fst x) = tuple_key (fst y)" for x y
    using inj_onD [of tuple_key "set (db_series db)" "fst x" "fst y"] assms that by (auto simp: series_table_ok_def)
  then show ?thesis by (fastforce simp: keys_identify_def row_of_tuple_def)
qed

lemma range_aggregate_grouped:
  assumes "range_aggregate_via_sql Q sel op modi lo hi = Inr out" "reads_back Q lo" "reads_back Q hi"
  shows "out = range_grouped Q (\<lambda>_. True) op modi (window_join (qe_db Q) sel lo hi)"
  using assms
  by (auto simp: range_aggregate_via_sql_def range_aggregate_without_via_sql_def range_grouped_def run_stmt_def reads_back_def
      split: option.splits)

text \<open>
  (C17) An aggregation over a range pushed into SQL aggregates the series of the selector with its \<open>=~\<close>
  and \<open>!~\<close> matchers removed, which the statement does not read, and changes nothing but the order in which
  values are added up: it answers the same list of series, in the same order and with the same
  timestamps, as the Rust path makes of these series, and at each timestamp the engine's aggregate of
  exactly the values that the group's series have there. Where no regular expression filters anything out,
  they are the series of the selector itself. The series table must tell its series apart; for
  \<open>without (...)\<close> every selected series must keep a label and the texts of the labels that are left tell them
  apart.
\<close>

theorem range_aggregate_pushdown_matches:
  assumes "range_selector Q (without_regex sel) lo hi = Inr inner" "range_aggregate_via_sql Q sel op modi lo hi = Inr out"
    "reads_back Q lo" "reads_back Q hi" "series_table_ok (qe_db Q)" "remaining_tell (qe_db Q) sel modi"
  shows "map (\<lambda>s. (rp_metric s, rp_labels s, map fst (rp_points s))) out =
      map (\<lambda>s. (rp_metric s, rp_labels s, map fst (rp_points s))) (aggregate_range_points inner op modi) \<and>
    (\<forall>s \<in> set out. \<forall>(t, v) \<in> set (rp_points s). \<exists>vs.
       mset vs = mset (map snd (filter (\<lambda>p. fst p = t)
         (concat (map rp_points (filter (\<lambda>i. retained_labels (rp_labels i) modi = rp_labels s) inner))))) \<and>
       agg_call_sql Q op vs = Some v) \<and>
    (regex_true (qe_db Q) sel \<longrightarrow> range_selector Q sel lo hi = Inr inner)"
proof -
  let ?W = "window_join (qe_db Q) sel lo hi"
  have ids: "ids_unique (qe_db Q)" and wf: "db_wf (qe_db Q)" using assms(5) by (simp_all add: series_table_ok_def)
  obtain rows where run: "run_selector_query Q (without_regex sel) lo hi = Inr rows"
    using assms(1) by (cases "run_selector_query Q (without_regex sel) lo hi") (auto simp: range_selector_def)
  then have inner: "inner = collect_series rows"
    using range_selector_groups [OF assms(1)] by (simp add: collect_series_groups)
  have rows: "mset rows = mset (map row_of_tuple ?W)"
    using run_selector_rows [OF run assms(3,4)] rows_of_window [OF wf] by simp
  have "keys_identify (map row_of_tuple ?W)"
    using window_picked [of "qe_db Q" sel lo hi] by (intro tuples_identified [OF assms(5)]) (auto simp: picked_def)
  then have "keys_identify rows" using keys_identify_mset [OF rows] by simp
  then have "aggregates_as Q inner op modi (range_grouped Q (\<lambda>_. True) op modi ?W)"
    unfolding inner using rows by (intro window_aggregates [OF ids wf _ assms(6)])
  then have "aggregates_as Q inner op modi out"
    unfolding range_aggregate_grouped [OF assms(2-4), symmetric] .
  moreover have "range_selector Q sel lo hi = Inr inner" if "regex_true (qe_db Q) sel"
    using assms(1) run_without_regex [OF wf that] by (simp add: range_selector_def)
  ultimately show ?thesis unfolding aggregates_as_def by blast
qed

theorem range_aggregate_pushdown_matches_witness:
  "\<exists>a b c. range_aggregate_via_sql demo_env up_selector Max (Some (Include [''job''])) 0 20 =
     Inr [\<lparr>rp_metric = [], rp_labels = [(''job'', ''a'')], rp_points = [(10, a), (20, b)]\<rparr>,
          \<lparr>rp_metric = [], rp_labels = [(''job'', ''b'')], rp_points = [(20, c)]\<rparr>] \<and>
     agg_call_sql demo_env Max [Num 2] = Some b"
proof -
  let ?rows = "selector_rows (qe_db demo_env) up_selector 0 20" and ?modi = "Some (Include [''job''])"
  let ?inner = "[\<lparr>rp_metric = ''up'', rp_labels = [(''job'', ''a'')], rp_points = [(10, Num 1), (20, Num 2)]\<rparr>,
          \<lparr>rp_metric = ''up'', rp_labels = [(''job'', ''b'')], rp_points = [(20, Num 5)]\<rparr>]"
  have rows: "?rows = [\<lparr>row_metric = ''up'', row_labels = [(''job'', ''a'')], row_ts = 10, row_value = Num 1\<rparr>,
          \<lparr>row_metric = ''up'', row_labels = [(''job'', ''a'')], row_ts = 20, row_value = Num 2\<rparr>,
          \<lparr>row_metric = ''up'', row_labels = [(''job'', ''b'')], row_ts = 20, row_value = Num 5\<rparr>]"
    by code_simp
  have run: "run_selector_query demo_env up_selector 0 20 = Inr ?rows"
    unfolding run_selector_query_def by (simp add: demo_run_stmt)
  have inner: "range_selector demo_env up_selector 0 20 = Inr ?inner"
    unfolding range_selector_def run rows by code_simp
  obtain out where out: "range_aggregate_via_sql demo_env up_selector Max ?modi 0 20 = Inr out"
    unfolding range_aggregate_via_sql_def by (simp add: demo_run_stmt modifier_excluded_keys_def)
  have table: "series_table_ok (qe_db demo_env)"
    using demo_db_wf by (auto simp: series_table_ok_def ids_unique_def demo_env_def demo_db_def series_key_def)
  have plain: "without_regex up_selector = up_selector" by (simp add: without_regex_def up_selector_def)
  have m: "map (\<lambda>s. (rp_metric s, rp_labels s, map fst (rp_points s))) out =
      map (\<lambda>s. (rp_metric s, rp_labels s, map fst (rp_points s))) (aggregate_range_points ?inner Max ?modi) \<and>
    (\<forall>s \<in> set out. \<forall>(t, v) \<in> set (rp_points s). \<exists>vs.
       mset vs = mset (map snd (filter (\<lambda>p. fst p = t)
         (concat (map rp_points (filter (\<lambda>i. retained_labels (rp_labels i) ?modi = rp_labels s) ?inner))))) \<and>
       agg_call_sql demo_env Max vs = Some v)"
    using range_aggregate_pushdown_matches [OF _ out _ _ table] inner
    by (simp add: demo_reads_back plain remaining_tell_def)
  have "map (\<lambda>s. (rp_metric s, rp_labels s, map fst (rp_points s))) (aggregate_range_points ?inner Max ?modi) =
      [([], [(''job'', ''a'')], [10, 20]), ([], [(''job'', ''b'')], [20])]" by code_simp
  from trans [OF m [THEN conjunct1] this] obtain s1 s2 a b c where s: "out = [s1, s2]"
      "rp_metric s1 = []" "rp_labels s1 = [(''job'', ''a'')]" "rp_points s1 = [(10, a), (20, b)]"
      "rp_metric s2 = []" "rp_labels s2 = [(''job'', ''b'')]" "rp_points s2 = [(20, c)]"
    by (auto simp: map_eq_Cons_conv)
  then have o: "out = [\<lparr>rp_metric = [], rp_labels = [(''job'', ''a'')], rp_points = [(10, a), (20, b)]\<rparr>,
          \<lparr>rp_metric = [], rp_labels = [(''job'', ''b'')], rp_points = [(20, c)]\<rparr>]"
    by (cases s1; cases s2) simp
  with m have "\<exists>vs. mset vs = {#Num 2#} \<and> agg_call_sql demo_env Max vs = Some b"
    by (simp add: retained_labels_def)
  with o out show ?thesis by auto
qed

end
