(* ===== verification/End_To_End.thy ===== *)
theory End_To_End
  imports Write_Read Evaluate_Props Pushdown_Agg_Range
begin

text \<open>
  From the first ingest to the answer of \<open>/api/v1/query_range\<close>: the write path, the tables, the
  classification of the query, the statements and the collection into series, composed.
\<close>

section \<open>The request\<close>

text \<open>A request whose parameters parse.\<close>

definition asks :: "query_env \<Rightarrow> query_range_params \<Rightarrow> expr \<Rightarrow> int \<Rightarrow> int \<Rightarrow> bool" where
  "asks Q p e lo hi \<longleftrightarrow> parse_timestamp (qe_prom Q) (qr_start p) = Inr lo \<and> parse_timestamp (qe_prom Q) (qr_end p) = Inr hi \<and>
     (\<exists>step. parse_duration_us (qr_step p) = Returns (Inr step) \<and> 0 < step) \<and>
     pe_parse (qe_prom Q) (qr_query p) = Inr e"

lemma asked:
  assumes "asks Q p e lo hi" "\<And>step. evaluate_range Q e lo hi step = Inr ss"
  shows "range_query_inner Q p = Returns (Inr (success_matrix (range_points_to_json (qe_prom Q) ss)))"
  using assms by (auto simp: asks_def range_query_inner_def)

lemma engine_runs:
  assumes "engine_answers Q" "reads_back Q lo" "reads_back Q hi"
  shows "run_stmt Q tag lo hi f = Inr (f lo hi)"
  using assms by (simp add: run_stmt_def engine_answers_def reads_back_def)

lemma selector_evaluated: "evaluate_range Q (EVector sel) lo hi step = range_selector Q sel lo hi"
  by (simp add: evaluate_range.simps [of Q "EVector sel"] detect_query_kind_def)

lemma aggregate_evaluated:
  "parse_agg_op tok = Some op \<Longrightarrow>
     evaluate_range Q (EAggregate tok (EVector sel) None modi) lo hi step = range_aggregate_via_sql Q sel op modi lo hi"
  by (simp add: evaluate_range.simps [of Q "EAggregate tok (EVector sel) None modi"] detect_query_kind_def push_down_def)

section \<open>The series keys of what was acknowledged\<close>

abbreviation "answer_row \<equiv> \<lambda>s. \<lparr>row_metric = vs_metric s, row_labels = vs_labels s, row_ts = vs_ts_us s, row_value = vs_value s\<rparr>"

definition keys_tell :: "validated_sample list \<Rightarrow> bool" where
  "keys_tell acked \<longleftrightarrow> (\<forall>s \<in> set acked. \<forall>t \<in> set acked.
     series_key (vs_metric s) (vs_labels s) = series_key (vs_metric t) (vs_labels t) \<longrightarrow>
     vs_metric s = vs_metric t \<and> vs_labels s = vs_labels t)"

lemma answer_rows_identified:
  assumes "keys_tell acked" "mset rows = mset (map answer_row (filter P acked))"
  shows "keys_identify rows"
proof -
  have "set rows = answer_row ` set (filter P acked)" using mset_eq_setD [OF assms(2)] by simp
  then show ?thesis using assms(1) unfolding keys_identify_def keys_tell_def by auto
qed

section \<open>The answers\<close>

text \<open>
  (C2) From ingest to the query endpoint: start on an empty warehouse, ingest and flush in any order, with
  failing appends in between but no failing flush, until the buffer is empty. A range query over a
  selector is then answered with exactly the acknowledged samples that lie in its window and that
  PromQL's matchers select, each once, under its own metric, labels, time and value, in one series for
  each set of labels, in time order. The acknowledged samples of one series id are of one series, their
  series keys tell the series apart, and the matchers are those the code handles: no \<open>=\<close> against the
  empty string, and on \<open>__name__\<close> nothing but an \<open>=\<close> that names the metric.
\<close>

theorem acked_samples_answered:
  assumes "app_open X cf ok q c \<lparr>wh_samples = [], wh_series = []\<rparr> [] = Inr st0"
    "live_run X ps st0 = (acked, errs, st)" "flush_error_free errs" "is_empty (sv_buffer st)"
    "ids_consistent acked" "keys_tell acked" "matchers_handled sel"
    "qe_db Q = database_of (sv_tables st)" "engine_answers Q" "reads_back Q lo" "reads_back Q hi"
    "asks Q p (EVector sel) lo hi"
  shows "\<exists>ss. range_query_inner Q p = Returns (Inr (success_matrix (range_points_to_json (qe_prom Q) ss))) \<and>
    mset (concat (map rows_of_series ss)) =
      mset (map (\<lambda>s. \<lparr>row_metric = vs_metric s, row_labels = vs_labels s, row_ts = vs_ts_us s, row_value = vs_value s\<rparr>)
        (filter (\<lambda>s. selects sel (vs_metric s) (vs_labels s) \<and> lo \<le> vs_ts_us s \<and> vs_ts_us s \<le> hi) acked)) \<and>
    series_distinct ss \<and> (\<forall>s \<in> set ss. sorted (map fst (rp_points s)))"
proof (intro exI conjI)
  let ?rows = "selector_rows (qe_db Q) sel lo hi"
  let ?ss = "map (\<lambda>g. regrouped (snd g)) (rows_by_key ?rows)"
  note acked = acked_selected [OF assms(1-5,7), folded assms(8)]
  have run: "run_selector_query Q sel lo hi = Inr ?rows"
    unfolding run_selector_query_def by (rule engine_runs [OF assms(9-11)])
  have keys: "keys_identify ?rows" by (rule answer_rows_identified [OF assms(6) acked(2)])
  obtain ss where sel: "range_selector Q sel lo hi = Inr ss" using run by (simp add: range_selector_def)
  have ss: "ss = ?ss" by (rule range_selector_groups [OF sel run])
  show "range_query_inner Q p = Returns (Inr (success_matrix (range_points_to_json (qe_prom Q) ?ss)))"
    by (rule asked [OF assms(12)]) (simp only: selector_evaluated sel ss)
  show "mset (concat (map rows_of_series ?ss)) =
      mset (map answer_row (filter (\<lambda>s. selects sel (vs_metric s) (vs_labels s) \<and> lo \<le> vs_ts_us s \<and> vs_ts_us s \<le> hi) acked))"
    unfolding regrouped_rows [OF keys] by (rule acked(2))
  show "series_distinct ?ss" by (rule regrouped_distinct)
  show "\<forall>s \<in> set ?ss. sorted (map fst (rp_points s))" by (auto intro: regrouped_sorted [OF run keys])
qed

text \<open>
  (C3) The same for \<open>sum\<close>, \<open>avg\<close>, \<open>min\<close>, \<open>max\<close> and \<open>count\<close> of a selector, grouped by nothing, by \<open>by (...)\<close> or
  by \<open>without (...)\<close>. The pushed-down statement does not read the selector's \<open>=~\<close> and \<open>!~\<close> matchers, so the range
  query is answered with the groups and timestamps of PromQL's aggregation of the acknowledged samples
  that the other matchers select, and at each of them with the engine's aggregate of exactly the
  acknowledged values of the group at that time. The acknowledged samples of one series id are of one
  series and their series keys tell the series apart; no remaining matcher is an \<open>=\<close> against the empty string,
  nor on \<open>__name__\<close> anything but an \<open>=\<close> that names the metric; and for \<open>without\<close> every selected series keeps a
  label and the texts of the labels that are left tell them apart.
\<close>

theorem acked_samples_aggregated:
  assumes "app_open X cf ok q c \<lparr>wh_samples = [], wh_series = []\<rparr> [] = Inr st0"
    "live_run X ps st0 = (acked, errs, st)" "flush_error_free errs" "is_empty (sv_buffer st)"
    "ids_consistent acked" "keys_tell acked" "matchers_handled (without_regex sel)"
    "qe_db Q = database_of (sv_tables st)" "engine_answers Q" "reads_back Q lo" "reads_back Q hi"
    "asks Q p (EAggregate tok (EVector sel) None modi) lo hi" "parse_agg_op tok = Some op"
    "remaining_tell (qe_db Q) sel modi"
  shows "\<exists>ss. range_query_inner Q p = Returns (Inr (success_matrix (range_points_to_json (qe_prom Q) ss))) \<and>
    (\<exists>inner. mset (concat (map rows_of_series inner)) =
        mset (map (\<lambda>s. \<lparr>row_metric = vs_metric s, row_labels = vs_labels s, row_ts = vs_ts_us s, row_value = vs_value s\<rparr>)
          (filter (\<lambda>s. selects (without_regex sel) (vs_metric s) (vs_labels s) \<and> lo \<le> vs_ts_us s \<and> vs_ts_us s \<le> hi) acked)) \<and>
      aggregates_as Q inner op modi ss)"
proof (intro exI conjI)
  let ?rows = "selector_rows (qe_db Q) (without_regex sel) lo hi" and ?W = "window_join (qe_db Q) sel lo hi"
  let ?inner = "collect_series ?rows" and ?ss = "range_grouped Q (\<lambda>_. True) op modi ?W"
  note acked = acked_selected [OF assms(1-5,7), folded assms(8)]
  have ids: "ids_unique (qe_db Q)" unfolding ids_unique_def assms(8) by (rule acked_ids [OF assms(1-3,5)])
  have keys: "keys_identify ?rows" by (rule answer_rows_identified [OF assms(6) acked(2)])
  have "\<exists>out. range_aggregate_via_sql Q sel op modi lo hi = Inr out"
    by (simp add: range_aggregate_via_sql_def range_aggregate_without_via_sql_def engine_runs [OF assms(9-11)] split: option.split)
  then have "range_aggregate_via_sql Q sel op modi lo hi = Inr ?ss"
    using range_aggregate_grouped [OF _ assms(10,11)] by blast
  then show "range_query_inner Q p = Returns (Inr (success_matrix (range_points_to_json (qe_prom Q) ?ss)))"
    by (intro asked [OF assms(12)]) (simp only: aggregate_evaluated [OF assms(13)])
  show "mset (concat (map rows_of_series ?inner)) =
      mset (map answer_row (filter (\<lambda>s. selects (without_regex sel) (vs_metric s) (vs_labels s) \<and> lo \<le> vs_ts_us s \<and> vs_ts_us s \<le> hi) acked))"
    unfolding collect_series_groups regrouped_rows [OF keys] by (rule acked(2))
  show "aggregates_as Q ?inner op modi ?ss"
    by (rule window_aggregates [OF ids acked(1) keys assms(14) rows_of_window [OF acked(1)]])
qed

section \<open>Witnesses\<close>

text \<open>One batch, ingested and flushed, and a server that reads the given expression.\<close>

definition asking :: "expr \<Rightarrow> service \<Rightarrow> query_env" where
  "asking e st = demo_env\<lparr>qe_db := database_of (sv_tables st), qe_prom := demo_prom\<lparr>pe_parse := (\<lambda>_. Inr e)\<rparr>\<rparr>"

definition two_seconds :: query_range_params where
  "two_seconds = \<lparr>qr_query = ''q'', qr_start = dec_of_nat 0, qr_end = dec_of_nat 2, qr_step = dec_of_nat 1\<rparr>"

lemma asking_ok:
  "qe_db (asking e st) = database_of (sv_tables st)" "engine_answers (asking e st)"
  "0 \<le> us \<Longrightarrow> reads_back (asking e st) us" "asks (asking e st) two_seconds e 0 2000000"
  by (simp_all add: asking_def demo_env_def demo_prom_def engine_answers_def reads_back_def us_to_ts_lit_def asks_def
      two_seconds_def parse_timestamp_def parse_duration_us_def f64_of_string_dec_of_nat secs_to_us_def f64_to_i64_def
      f64_mul_def signed_zero_def rat_trunc_def i64_sat_def i64_min_def i64_max_def)

lemma demo_batch_ok: "ids_consistent demo_batch" "keys_tell demo_batch" "flush_error_free []" "matchers_handled up_selector"
  "without_regex up_selector = up_selector"
  by (simp_all add: ids_consistent_def keys_tell_def demo_batch_def bt_wf_def flush_error_free_def matchers_handled_def
      without_regex_def up_selector_def)

lemma demo_batch_selected:
  "map answer_row (filter (\<lambda>s. selects up_selector (vs_metric s) (vs_labels s) \<and> 0 \<le> vs_ts_us s \<and> vs_ts_us s \<le> 2000000) demo_batch) =
     [\<lparr>row_metric = ''up'', row_labels = [], row_ts = 1000000, row_value = Num 1\<rparr>]"
  by (simp add: demo_batch_def selects_def effective_metric_name_def up_selector_def)

theorem acked_samples_answered_witness:
  "\<exists>st ss. live_run demo_codec [Ingest IoOk demo_batch, Flush \<lparr>fio_samples = Committed 1, fio_series = Committed 1\<rparr>]
       (fresh_service default_rotation_bytes) = (demo_batch, [], st) \<and>
     range_query_inner (asking (EVector up_selector) st) two_seconds =
       Returns (Inr (success_matrix (range_points_to_json (qe_prom (asking (EVector up_selector) st)) ss))) \<and>
     mset (concat (map rows_of_series ss)) = {#\<lparr>row_metric = ''up'', row_labels = [], row_ts = 1000000, row_value = Num 1\<rparr>#}"
proof -
  obtain st where st: "live_run demo_codec [Ingest IoOk demo_batch, Flush \<lparr>fio_samples = Committed 1, fio_series = Committed 1\<rparr>]
      (fresh_service default_rotation_bytes) = (demo_batch, [], st)" "is_empty (sv_buffer st)"
    by (rule demo_flushed)
  let ?Q = "asking (EVector up_selector) st"
  have rb: "reads_back ?Q 0" "reads_back ?Q 2000000" by (simp_all add: asking_ok)
  from acked_samples_answered [OF fresh_open st(1) demo_batch_ok(3) st(2) demo_batch_ok(1,2,4) asking_ok(1,2) rb asking_ok(4)]
  obtain ss where "range_query_inner ?Q two_seconds = Returns (Inr (success_matrix (range_points_to_json (qe_prom ?Q) ss)))"
    "mset (concat (map rows_of_series ss)) = mset [\<lparr>row_metric = ''up'', row_labels = [], row_ts = 1000000, row_value = Num 1\<rparr>]"
    unfolding demo_batch_selected by blast
  with st(1) show ?thesis by auto
qed

text \<open>\<open>max(up)\<close>.\<close>

theorem acked_samples_aggregated_witness:
  "\<exists>st ss inner. live_run demo_codec [Ingest IoOk demo_batch, Flush \<lparr>fio_samples = Committed 1, fio_series = Committed 1\<rparr>]
       (fresh_service default_rotation_bytes) = (demo_batch, [], st) \<and>
     range_query_inner (asking (EAggregate T_MAX (EVector up_selector) None None) st) two_seconds =
       Returns (Inr (success_matrix (range_points_to_json
         (qe_prom (asking (EAggregate T_MAX (EVector up_selector) None None) st)) ss))) \<and>
     mset (concat (map rows_of_series inner)) = {#\<lparr>row_metric = ''up'', row_labels = [], row_ts = 1000000, row_value = Num 1\<rparr>#} \<and>
     aggregates_as (asking (EAggregate T_MAX (EVector up_selector) None None) st) inner Max None ss"
proof -
  obtain st where st: "live_run demo_codec [Ingest IoOk demo_batch, Flush \<lparr>fio_samples = Committed 1, fio_series = Committed 1\<rparr>]
      (fresh_service default_rotation_bytes) = (demo_batch, [], st)" "is_empty (sv_buffer st)"
    by (rule demo_flushed)
  let ?e = "EAggregate T_MAX (EVector up_selector) None None"
  have rb: "reads_back (asking ?e st) 0" "reads_back (asking ?e st) 2000000" by (simp_all add: asking_ok)
  have op: "parse_agg_op T_MAX = Some Max" "remaining_tell (qe_db (asking ?e st)) up_selector None"
    by (simp_all add: remaining_tell_def)
  have handled: "matchers_handled (without_regex up_selector)" using demo_batch_ok(4) by (simp only: demo_batch_ok(5))
  from acked_samples_aggregated [OF fresh_open st(1) demo_batch_ok(3) st(2) demo_batch_ok(1,2) handled asking_ok(1,2) rb asking_ok(4) op]
  obtain ss inner where "range_query_inner (asking ?e st) two_seconds =
      Returns (Inr (success_matrix (range_points_to_json (qe_prom (asking ?e st)) ss)))"
    "mset (concat (map rows_of_series inner)) = mset [\<lparr>row_metric = ''up'', row_labels = [], row_ts = 1000000, row_value = Num 1\<rparr>]"
    "aggregates_as (asking ?e st) inner Max None ss"
    unfolding demo_batch_ok(5) demo_batch_selected by blast
  with st(1) show ?thesis by auto
qed

end
