(* ===== verification/Views.thy ===== *)
theory Views
  imports Write_Read Rangefn Hazards
begin

text \<open>
  The helper views of \<open>src/src/state.rs\<close>, which SQL users read: \<open>sk_metric\<close> joins the samples with their
  series, \<open>sk_rate_of\<close> adds the change per second against the sample before. After ingesting and flushing
  \<open>sk_metric\<close> is the acknowledged samples; after a start-up that could not read the series table it
  shows samples twice.
\<close>

section \<open>The views\<close>

datatype view = SkMetric | SkRateOf

text \<open>A failing \<open>sk_metric\<close> fails the start-up, a failing \<open>sk_rate_of\<close> is skipped with a warning.\<close>

definition register_helper_views :: "(view \<Rightarrow> string option) \<Rightarrow> string + view list" where
  "register_helper_views fails =
     (case fails SkMetric of
        Some e \<Rightarrow> Inl (''create sk_metric view: '' @ e)
      | None \<Rightarrow> Inr (SkMetric # (case fails SkRateOf of Some e \<Rightarrow> [] | None \<Rightarrow> [SkRateOf])))"

definition sk_metric :: "database \<Rightarrow> (series_tuple \<times> int \<times> f64) list" where
  "sk_metric db =
     concat (map (\<lambda>(sid, ts, v). map (\<lambda>s. (s, ts, v)) (filter (\<lambda>s. sid = st_id s) (db_series db))) (db_samples db))"

text \<open>
  The window \<open>PARTITION BY series_id ORDER BY timestamp\<close> with \<open>LAG\<close>; \<open>epoch\<close> is what the engine makes of
  \<open>EXTRACT(EPOCH FROM ...)\<close> of a time difference in microseconds.
\<close>

fun value_per_sec :: "(int \<Rightarrow> f64) \<Rightarrow> (int \<times> f64) option \<Rightarrow> int \<times> f64 \<Rightarrow> f64 option" where
  "value_per_sec epoch None (ts, v) = None"
| "value_per_sec epoch (Some (lag_ts, lag_v)) (ts, v) =
     (let secs = epoch (ts - lag_ts) in if f64_eq secs (Num 0) then None else Some (f64_div (f64_sub v lag_v) secs))"

fun with_rates :: "(int \<Rightarrow> f64) \<Rightarrow> (int \<times> f64) option \<Rightarrow> (series_tuple \<times> int \<times> f64) list \<Rightarrow>
    (series_tuple \<times> int \<times> f64 option) list" where
  "with_rates epoch lag [] = []"
| "with_rates epoch lag ((s, ts, v) # rows) =
     (s, ts, value_per_sec epoch lag (ts, v)) # with_rates epoch (Some (ts, v)) rows"

definition sk_rate_of :: "(int \<Rightarrow> f64) \<Rightarrow> database \<Rightarrow> (series_tuple \<times> int \<times> f64 option) list" where
  "sk_rate_of epoch db =
     concat (map (\<lambda>(sid, rows). with_rates epoch None (sort_key (\<lambda>(s, ts, v). ts) rows))
       (bt_group (\<lambda>(s, ts, v). st_id s) (\<lambda>r. r) (sk_metric db)))"

section \<open>What they show\<close>

text \<open>Each sample appears once for every row of the series table that has its id.\<close>

lemma sk_metric_count:
  "length (filter (\<lambda>r. st_id (fst r) = sid) (sk_metric db)) =
     length (filter (\<lambda>r. fst r = sid) (db_samples db)) * length (filter (\<lambda>s. st_id s = sid) (db_series db))"
proof -
  have "length (filter (\<lambda>r. st_id (fst r) = sid) (concat (map (\<lambda>(sid, ts, v). map (\<lambda>s. (s, ts, v))
        (filter (\<lambda>s. sid = st_id s) ss)) rows))) =
      length (filter (\<lambda>r. fst r = sid) rows) * length (filter (\<lambda>s. st_id s = sid) ss)" for ss rows
  proof (induction rows)
    case (Cons r rows)
    have "length (filter (\<lambda>r. st_id (fst r) = sid) (map (\<lambda>s. (s, t, v)) (filter (\<lambda>s. i = st_id s) ss))) =
        (if i = sid then length (filter (\<lambda>s. st_id s = sid) ss) else 0)" for i t and v :: f64
      by (auto simp: filter_map comp_def intro!: arg_cong [where f = length] filter_cong)
    with Cons show ?case by (cases r) simp
  qed simp
  then show ?thesis by (simp add: sk_metric_def)
qed

text \<open>\<open>sk_rate_of\<close> has the rows of \<open>sk_metric\<close>, whatever the rates are.\<close>

lemma with_rates_rows: "map (\<lambda>(s, ts, w). (s, ts)) (with_rates epoch lag rows) = map (\<lambda>(s, ts, v). (s, ts)) rows"
  by (induction epoch lag rows rule: with_rates.induct) auto

theorem sk_rate_of_rows:
  "mset (map (\<lambda>(s, ts, w). (s, ts)) (sk_rate_of epoch db)) = mset (map (\<lambda>(s, ts, v). (s, ts)) (sk_metric db))"
proof -
  let ?g = "bt_group (\<lambda>(s, ts, v). st_id s) (\<lambda>r. r) (sk_metric db)"
  have "mset (map (\<lambda>(s, ts, w). (s, ts)) (sk_rate_of epoch db)) =
      mset (concat (map (\<lambda>(sid, rows). map (\<lambda>(s, ts, v). (s, ts)) (sort_key (\<lambda>(s, ts, v). ts) rows)) ?g))"
    by (simp add: sk_rate_of_def map_concat comp_def case_prod_unfold with_rates_rows [unfolded case_prod_unfold])
  also have "\<dots> = mset (concat (map (\<lambda>g. map (\<lambda>(s, ts, v). (s, ts)) (snd g)) ?g))"
    by (rule mset_concat_cong) auto
  also have "concat (map (\<lambda>g. map (\<lambda>(s, ts, v). (s, ts)) (snd g)) ?g) = map (\<lambda>(s, ts, v). (s, ts)) (concat (map snd ?g))"
    by (simp add: map_concat comp_def)
  also have "mset \<dots> = mset (map (\<lambda>(s, ts, v). (s, ts)) (sk_metric db))"
    using bt_group_partition [of "\<lambda>(s, ts, v). st_id s" "\<lambda>r. r" "sk_metric db"] by (simp only: mset_map map_ident)
  finally show ?thesis .
qed

text \<open>
  \<open>sk_rate_of\<close> is not \<open>rate\<close>: it does not know that a counter restarts from zero, so after a reset it
  shows a negative rate where \<open>rate\<close> shows the increase since the reset.
\<close>

theorem sk_rate_of_counter_reset:
  "value_per_sec (\<lambda>us. f64_div (f64_of_int us) (Num 1000000)) (Some (0, Num 5)) (1000000, Num 1) = Some (Num (- 4)) \<and>
   rangefn_value demo_env Rate [(0, Num 5), (1000000, Num 1)] = Some (Num 1)"
  by (simp add: f64_div_def f64_sub_def f64_mul_def f64_of_int_def per_second_def total_delta_def reset_delta_def demo_env_def
    f64_ge_def f64_le_def f64_sum_def Let_def)

section \<open>From ingest to \<open>sk_metric\<close>\<close>

text \<open>The view as the statement of a selector that matches everything.\<close>

definition every_series :: vector_selector where
  "every_series = \<lparr>vsel_name = None, vsel_matchers = []\<rparr>"

definition metric_row :: "series_tuple \<times> int \<times> f64 \<Rightarrow> selector_row" where
  "metric_row r = \<lparr>row_metric = st_metric (fst r), row_labels = st_labels (fst r), row_ts = fst (snd r), row_value = snd (snd r)\<rparr>"

lemma sk_metric_matching:
  assumes "\<forall>(sid, ts, v) \<in> set (db_samples db). lo \<le> ts \<and> ts \<le> hi"
  shows "map metric_row (sk_metric db) = matching_rows db every_series lo hi"
proof -
  have "map metric_row (map (\<lambda>s. (s, ts, v)) (filter (\<lambda>s. sid = st_id s) (db_series db))) =
      map (\<lambda>s. \<lparr>row_metric = st_metric s, row_labels = st_labels s, row_ts = ts, row_value = v\<rparr>)
        (filter (\<lambda>s. st_id s = sid \<and> selects every_series (st_metric s) (st_labels s) \<and> lo \<le> ts \<and> ts \<le> hi) (db_series db))"
    if "(sid, ts, v) \<in> set (db_samples db)" for sid ts v
  proof -
    have "lo \<le> ts \<and> ts \<le> hi" using bspec [OF assms that] by simp
    then show ?thesis by (simp add: metric_row_def comp_def selects_def every_series_def eq_commute [of sid])
  qed
  then show ?thesis
    unfolding sk_metric_def matching_rows_def map_concat map_map comp_def
    by (intro arg_cong [where f = concat] map_cong refl) (auto simp: comp_def)
qed

text \<open>
  Ingest and flush in any order on an empty warehouse, with no failing flush, until the buffer is
  empty: \<open>sk_metric\<close> has exactly the acknowledged samples, each once, with its metric and labels.
\<close>

theorem sk_metric_acked:
  assumes "app_open X cf ok q c \<lparr>wh_samples = [], wh_series = []\<rparr> [] = Inr st0"
    "live_run X ps st0 = (acked, errs, st)" "flush_error_free errs" "is_empty (sv_buffer st)" "ids_consistent acked"
  shows "mset (map metric_row (sk_metric (database_of (sv_tables st)))) =
    mset (map (\<lambda>s. \<lparr>row_metric = vs_metric s, row_labels = vs_labels s, row_ts = vs_ts_us s, row_value = vs_value s\<rparr>) acked)"
proof -
  let ?D = "meaning acked" and ?db = "database_of (sv_tables st)"
  have d: "described ?D s" if "s \<in> set acked" for s using that by (rule meaning_described [OF assms(5)])
  have "buffer_inv X (sv_buffer st0)" "service_rows st0 = {#}" using app_open_fresh [OF assms(1)] by auto
  from live_run_rows [OF this(1) assms(2,3)] this(2)
  have all: "service_rows st = mset (map row_of acked)" and bi: "buffer_inv X (sv_buffer st)" by auto
  have rows: "warehouse_rows (sv_tables st) = mset (map row_of acked)"
    using all assms(4) buffer_empty_iff [OF bi] by (simp add: service_rows_def)
  have inv: "store_inv X ?D st"
    using d by (intro store_inv_run [OF assms(2) store_inv_fresh [OF assms(1)] assms(3)]) blast
  let ?T = "insert 0 ((\<lambda>r. fst (snd r)) ` set (db_samples ?db))"
  have "\<forall>(sid, ts, v) \<in> set (db_samples ?db). linorder_class.Min ?T \<le> ts \<and> ts \<le> linorder_class.Max ?T"
    by (force intro!: Min_le Max_ge)
  from sk_metric_matching [OF this]
  have "mset (map metric_row (sk_metric ?db)) = image_mset (row_answer ?D)
      (filter_mset (row_selected ?D every_series (linorder_class.Min ?T) (linorder_class.Max ?T)) (warehouse_rows (sv_tables st)))"
    using matching_rows_warehouse [OF inv] by simp
  also have "filter_mset (row_selected ?D every_series (linorder_class.Min ?T) (linorder_class.Max ?T)) (warehouse_rows (sv_tables st)) =
      warehouse_rows (sv_tables st)"
  proof -
    have "row_selected ?D every_series (linorder_class.Min ?T) (linorder_class.Max ?T) r" if "r \<in># warehouse_rows (sv_tables st)" for r
    proof -
      have "fst (snd r) \<in> ?T" using that unfolding mset_db_samples [symmetric] by simp
      then show ?thesis by (simp add: row_selected_def selects_def every_series_def Min_le Max_ge del: Min_insert Max_insert)
    qed
    then have "filter_mset (row_selected ?D every_series (linorder_class.Min ?T) (linorder_class.Max ?T)) (warehouse_rows (sv_tables st)) =
        filter_mset (\<lambda>_. True) (warehouse_rows (sv_tables st))" by (intro filter_mset_cong) simp_all
    then show ?thesis by simp
  qed
  also have "image_mset (row_answer ?D) (warehouse_rows (sv_tables st)) = mset (map (row_answer ?D \<circ> row_of) acked)"
    by (simp add: rows multiset.map_comp)
  also have "map (row_answer ?D \<circ> row_of) acked =
      map (\<lambda>s. \<lparr>row_metric = vs_metric s, row_labels = vs_labels s, row_ts = vs_ts_us s, row_value = vs_value s\<rparr>) acked"
    by (rule map_cong) (simp_all add: answer_of_sample d)
  finally show ?thesis .
qed

section \<open>A start-up that cannot read the series table\<close>

lemma app_open_state:
  assumes "app_open X cf ok q c wh d = Inr st"
  shows "sv_tables st = wh \<and> buffer_inv X (sv_buffer st) \<and> bf_known (sv_buffer st) = set (read_known_series q wh)"
proof -
  let ?b = "with_known_series (read_known_series q wh)"
  obtain ingest b n where i: "ingest_open d wh (read_known_series q wh) = Inr ingest"
    "replay_wal X (snd (sv_wal ingest)) (sv_buffer ingest) = Inr (b, n)" "st = ingest\<lparr>sv_buffer := b\<rparr>"
    using assms by (auto simp: app_open_def split: sum.splits if_splits prod.splits)
  have o: "sv_tables ingest = wh" "sv_buffer ingest = ?b"
    using i(1) by (cases "wal_open d"; auto simp: ingest_open_def)+
  have "\<exists>recs. fold (replay_record X) recs (?b, 0) = (b, n)"
    using i(2) o(2) by (auto simp: replay_wal_def split: sum.splits)
  then obtain recs where "b = fst (fold (replay_record X) recs (?b, 0))" by (metis fst_conv)
  then show ?thesis
    using replay_fold(1,3) [where X = X and b = ?b and recs = recs and n = 0] buffer_inv_start i(3) o(1) by simp
qed

text \<open>
  A start-up whose query for the known series fails goes on with none. The next flush registers series
  that are registered already, and from then on every one of their samples, the old ones included, is
  shown twice by \<open>sk_metric\<close>.
\<close>

theorem unread_series_duplicated:
  assumes "app_open X cf ok False c wh d = Inr st0" "append_validated X io ss st0 = (Inr n, st1)"
    "flush_once fio st1 = (Inr True, st2)" "sid \<in> vs_series_id ` set ss" "sid \<in> fst ` set (warehouse_series wh)"
  shows "2 * length (filter (\<lambda>r. fst r = sid) (db_samples (database_of (sv_tables st2)))) \<le>
    length (filter (\<lambda>r. st_id (fst r) = sid) (sk_metric (database_of (sv_tables st2))))"
proof -
  have st0: "sv_tables st0 = wh" "buffer_inv X (sv_buffer st0)" "bf_known (sv_buffer st0) = {}"
    using app_open_state [OF assms(1)] by (simp_all add: read_known_series_def)
  have b1: "sv_buffer st1 = insert_batch X n ss (sv_buffer st0)" "sv_tables st1 = wh"
    using assms(2) append_wal_frame [of X io ss st0] st0(1) by (auto simp: append_validated_def split: prod.splits sum.splits)
  have bi: "buffer_inv X (sv_buffer st1)" using st0(2) by (simp add: b1)
  have "sid \<in> fst ` set_mset (buffer_rows (sv_buffer st1))" using assms(4) by (force simp: b1 row_of_def)
  moreover have "fst ` set (bf_new_series (sv_buffer st1)) = fst ` set_mset (buffer_rows (sv_buffer st1)) - bf_known (sv_buffer st1)"
    using bi by (simp only: buffer_inv_def)
  ultimately have "sid \<in> fst ` set (registered (bf_new_series (sv_buffer st1)))"
    unfolding fst_registered using st0(3) by (simp add: b1)
  then have "0 < length (filter (\<lambda>r. fst r = sid) (registered (bf_new_series (sv_buffer st1))))"
    "0 < length (filter (\<lambda>r. fst r = sid) (warehouse_series wh))"
    using assms(5) by (force simp: filter_empty_conv)+
  moreover have "length (filter (\<lambda>s. st_id s = sid) (db_series (database_of (sv_tables st2)))) =
      length (filter (\<lambda>r. fst r = sid) (warehouse_series wh)) + length (filter (\<lambda>r. fst r = sid) (registered (bf_new_series (sv_buffer st1))))"
    using flush_acked(5) [OF assms(3)] by (simp add: database_of_def b1(2) filter_map comp_def case_prod_unfold)
  ultimately have "2 \<le> length (filter (\<lambda>s. st_id s = sid) (db_series (database_of (sv_tables st2))))" by linarith
  then show ?thesis unfolding sk_metric_count by (metis mult.commute mult_le_mono2)
qed

section \<open>Witnesses\<close>

theorem sk_metric_acked_witness:
  "\<exists>st. live_run demo_codec [Ingest IoOk demo_batch, Flush \<lparr>fio_samples = Committed 1, fio_series = Committed 1\<rparr>]
       (fresh_service default_rotation_bytes) = (demo_batch, [], st) \<and>
     mset (map metric_row (sk_metric (database_of (sv_tables st)))) =
       {#\<lparr>row_metric = ''up'', row_labels = [], row_ts = 1000000, row_value = Num 1\<rparr>#}"
proof -
  obtain st where st: "live_run demo_codec [Ingest IoOk demo_batch, Flush \<lparr>fio_samples = Committed 1, fio_series = Committed 1\<rparr>]
      (fresh_service default_rotation_bytes) = (demo_batch, [], st)" "is_empty (sv_buffer st)"
    by (rule demo_flushed)
  have "flush_error_free []" "ids_consistent demo_batch"
    by (simp_all add: flush_error_free_def ids_consistent_def demo_batch_def bt_wf_def)
  from sk_metric_acked [OF fresh_open st(1) this(1) st(2) this(2)] st(1) show ?thesis
    by (auto simp: demo_batch_def)
qed

text \<open>A warehouse with one flushed series and a log that holds nothing.\<close>

definition stored_batch :: warehouse where
  "stored_batch = snd (flush flush_fine (fst (take_snapshot (insert_batch demo_codec 1 demo_batch (with_known_series []))))
     \<lparr>wh_samples = [], wh_series = []\<rparr>)"

lemma stored_batch_series: "7 \<in> fst ` set (warehouse_series stored_batch)"
proof -
  let ?b = "insert_batch demo_codec 1 demo_batch (with_known_series [])"
  have "buffer_inv demo_codec ?b" using buffer_inv_start by simp
  then have "fst ` set (bf_new_series ?b) = fst ` set_mset (buffer_rows ?b) - bf_known ?b" by (simp only: buffer_inv_def)
  then have "7 \<in> fst ` set (bf_new_series ?b)" by (simp add: demo_batch_def row_of_def)
  then show ?thesis
    unfolding stored_batch_def flush_series_rows
    by (simp add: samples_acked_def flush_fine_def image_Un fst_registered)
qed

theorem unread_series_duplicated_witness:
  "\<exists>st0 st1 st2. app_open demo_codec (\<lambda>_. False) True False demo_catalog stored_batch [] = Inr st0 \<and>
     append_validated demo_codec IoOk demo_batch st0 = (Inr 1, st1) \<and> flush_once flush_fine st1 = (Inr True, st2) \<and>
     2 * length (filter (\<lambda>r. fst r = 7) (db_samples (database_of (sv_tables st2)))) \<le>
       length (filter (\<lambda>r. st_id (fst r) = 7) (sk_metric (database_of (sv_tables st2))))"
proof -
  let ?X = demo_codec
  obtain st0 where o: "app_open ?X (\<lambda>_. False) True False demo_catalog stored_batch [] = Inr st0"
    "sv_wal st0 = sv_wal (fresh_service default_rotation_bytes)"
    unfolding demo_catalog_def fresh_log_open by simp
  obtain st1 where a: "append_validated ?X IoOk demo_batch st0 = (Inr 1, st1)"
    using append_validated_ok [of ?X st0 demo_batch "replicate 100 1"] fresh_good fresh_room [of "replicate 100 1"]
    by (simp add: o(2) fresh_simps)
  have "sv_buffer st1 = insert_batch ?X 1 demo_batch (sv_buffer st0)"
    using a append_wal_frame [of ?X IoOk demo_batch st0] by (auto simp: append_validated_def split: prod.splits sum.splits)
  then have "\<not> is_empty (sv_buffer st1)"
    using filled_buffer(1) [OF _ demo_batches_nonempty(1)] app_open_state [OF o(1)] by metis
  then obtain st2 where f: "flush_once flush_fine st1 = (Inr True, st2)"
    using flush_ok_exists unfolding flush_fine_def by blast
  have "7 \<in> vs_series_id ` set demo_batch" by (simp add: demo_batch_def)
  from unread_series_duplicated [OF o(1) a f this stored_batch_series] o(1) a f show ?thesis by blast
qed

end
