(* ===== verification/Pushdown_Agg_Rate.thy ===== *)
theory Pushdown_Agg_Rate
  imports Pushdown_Agg_Range
begin

text \<open>
  \<open>sum\<close>, \<open>avg\<close>, \<open>min\<close>, \<open>max\<close> and \<open>count\<close> over \<open>rate\<close>, \<open>irate\<close>, \<open>increase\<close> and \<open>delta\<close>, pushed into one
  statement, against the same aggregation in Rust of what the range function answers: at an instant and
  over a range.
\<close>

section \<open>Dropping the values that are not finite\<close>

text \<open>The statement drops an aggregate that is not finite when it decodes the result.\<close>

lemma instant_by_keep:
  "instant_by Q keep op ks t rows = filter (\<lambda>p. keep (ip_value p)) (instant_by Q (\<lambda>_. True) op ks t rows)"
proof -
  have "List.map_filter (\<lambda>(key, vs). map_option (nameless (key_labels ks key) t) (kept_agg Q keep op vs)) gs =
      filter (\<lambda>p. keep (ip_value p))
        (List.map_filter (\<lambda>(key, vs). map_option (nameless (key_labels ks key) t) (kept_agg Q (\<lambda>_. True) op vs)) gs)" for gs
    by (induction gs) (auto simp: List.map_filter_simps kept_agg_def nameless_def split: option.splits)
  then show ?thesis by (simp add: instant_by_def)
qed

lemma instant_without_keep:
  "instant_without Q keep op ex t rows = filter (\<lambda>p. keep (ip_value p)) (instant_without Q (\<lambda>_. True) op ex t rows)"
proof -
  have "concat (map (\<lambda>(g, ms). case kept_agg Q keep op (map snd ms) of
           None \<Rightarrow> []
         | Some v \<Rightarrow> map (\<lambda>lbls. nameless lbls t v) (lab ms)) gs) =
      filter (\<lambda>p. keep (ip_value p)) (concat (map (\<lambda>(g, ms). case kept_agg Q (\<lambda>_. True) op (map snd ms) of
           None \<Rightarrow> []
         | Some v \<Rightarrow> map (\<lambda>lbls. nameless lbls t v) (lab ms)) gs))"
    for gs :: "(string \<times> (int \<times> f64) list) list" and lab
    by (induction gs) (auto simp: kept_agg_def nameless_def filter_map comp_def split: option.splits)
  then show ?thesis by (simp add: instant_without_def)
qed

lemma instant_grouped_keep:
  "instant_grouped Q keep op modi t rows = filter (\<lambda>p. keep (ip_value p)) (instant_grouped Q (\<lambda>_. True) op modi t rows)"
  using instant_by_keep [of Q keep] instant_without_keep [of Q keep] by (simp add: instant_grouped_def split: option.split)

definition keep_points :: "(f64 \<Rightarrow> bool) \<Rightarrow> range_points list \<Rightarrow> range_points list" where
  "keep_points keep series = filter (\<lambda>s. rp_points s \<noteq> [])
     (map (\<lambda>s. s\<lparr>rp_points := filter (\<lambda>p. keep (snd p)) (rp_points s)\<rparr>) series)"

lemma keys_of_filter: "f ` set (filter p xs) = {L \<in> f ` set xs. filter p (filter (\<lambda>x. f x = L) xs) \<noteq> []}"
  by (auto simp: filter_empty_conv image_iff) metis

lemma collect_groups_filter:
  "collect_groups (filter (\<lambda>x. keep (snd (snd x))) rows) = keep_points keep (collect_groups rows)"
proof -
  let ?G = "\<lambda>L. filter (\<lambda>x. fst x = L) rows" and ?p = "\<lambda>x. keep (snd (snd x))"
  have keys: "fst ` set (filter ?p rows) = {L \<in> fst ` set rows. filter ?p (?G L) \<noteq> []}"
    by (rule keys_of_filter)
  have grp: "map snd (filter (\<lambda>x. fst x = L) (filter ?p rows)) = filter (\<lambda>p. keep (snd p)) (map snd (?G L))" for L
    by (simp add: filter_map comp_def conj_commute)
  have ne: "filter (\<lambda>p. keep (snd p)) (map snd xs) \<noteq> [] \<longleftrightarrow> filter ?p xs \<noteq> []" for xs :: "(labels \<times> int \<times> f64) list"
    by (simp add: filter_map comp_def)
  show ?thesis
    unfolding collect_groups_def keep_points_def bt_group_eq_map keys grp
    by (simp add: filter_map comp_def ne sorted_list_of_set_filter)
qed

lemma range_by_keep: "range_by Q keep op ks rows = keep_points keep (range_by Q (\<lambda>_. True) op ks rows)"
proof -
  have keep: "List.map_filter (\<lambda>((key, t), vs). map_option (\<lambda>v. (key_labels ks key, t, v)) (kept_agg Q keep op vs)) gs =
      filter (\<lambda>x. keep (snd (snd x)))
        (List.map_filter (\<lambda>((key, t), vs). map_option (\<lambda>v. (key_labels ks key, t, v)) (kept_agg Q (\<lambda>_. True) op vs)) gs)" for gs
    by (induction gs) (auto simp: List.map_filter_simps kept_agg_def split: option.splits)
  show ?thesis unfolding range_by_def keep collect_groups_filter ..
qed

lemma range_without_keep: "range_without Q keep op ex rows = keep_points keep (range_without Q (\<lambda>_. True) op ex rows)"
proof -
  have "concat (map (\<lambda>((t, g), ms). case kept_agg Q keep op (map snd ms) of
           None \<Rightarrow> []
         | Some v \<Rightarrow> map (\<lambda>lbls. (lbls, t, v)) (lab ms)) gs) =
      filter (\<lambda>x. keep (snd (snd x))) (concat (map (\<lambda>((t, g), ms). case kept_agg Q (\<lambda>_. True) op (map snd ms) of
           None \<Rightarrow> []
         | Some v \<Rightarrow> map (\<lambda>lbls. (lbls, t, v)) (lab ms)) gs))"
    for gs :: "((int \<times> string) \<times> (int \<times> f64) list) list" and lab :: "(int \<times> f64) list \<Rightarrow> labels list"
    by (induction gs) (auto simp: kept_agg_def filter_map comp_def split: option.splits)
  then show ?thesis unfolding range_without_def by (simp only: collect_groups_filter)
qed

lemma range_grouped_keep: "range_grouped Q keep op modi W = keep_points keep (range_grouped Q (\<lambda>_. True) op modi W)"
  using range_by_keep [of Q keep] range_without_keep [of Q keep] by (simp add: range_grouped_def split: option.split)

section \<open>The series behind a rate\<close>

lemma per_series_ids: "(sid, v) \<in> set (per_series Q op base) \<Longrightarrow> sid \<in> fst ` set base"
  using bt_group_keys [of fst snd base] by (force simp: per_series_def by_series_time_def set_map_filter)

lemma instant_rates_picked: "fst ` set (instant_rates Q sel op lo hi) \<subseteq> st_id ` picked (qe_db Q) sel"
proof
  fix sid assume "sid \<in> fst ` set (instant_rates Q sel op lo hi)"
  then obtain v where "(sid, v) \<in> set (instant_rates Q sel op lo hi)" by auto
  from per_series_ids [OF this [unfolded instant_rates_def]]
  show "sid \<in> st_id ` picked (qe_db Q) sel"
    using windowed_picked [of "qe_db Q" sel lo hi] by (force simp: base_rows_def windowed_def)
qed

lemma range_rates_picked:
  "fst ` set (map (\<lambda>(t, sid, v). (sid, (t, v))) (range_rates Q sel r op evals lo hi)) \<subseteq> st_id ` picked (qe_db Q) sel"
proof
  fix sid assume "sid \<in> fst ` set (map (\<lambda>(t, sid, v). (sid, (t, v))) (range_rates Q sel r op evals lo hi))"
  then obtain t v where "(sid, v) \<in> set (per_series Q op (eval_window r t (base_rows (window_join (qe_db Q) sel lo hi))))"
    by (auto simp: range_rates_def)
  from per_series_ids [OF this] show "sid \<in> st_id ` picked (qe_db Q) sel"
    using windowed_picked [of "qe_db Q" sel lo hi] by (force simp: eval_window_def base_rows_def windowed_def)
qed

text \<open>What the decoders make of rows of selected series, when no regular expression filters anything out.\<close>

lemma decode_picked:
  assumes "db_wf db" "regex_true db sel" "s \<in> picked db sel"
  shows "labels_to_btree (st_labels s) = st_labels s" "regex_passes sel (st_labels s)"
  using assms by (auto simp: labels_to_btree_def picked_def db_wf_def bt_collect_id regex_true_def)

lemma decode_instant_picked:
  assumes "db_wf db" "regex_true db sel" "fst ` set J \<subseteq> picked db sel"
  shows "decode_instant sel t J = map (\<lambda>(s, v). \<lparr>ip_metric = st_metric s, ip_labels = st_labels s, ip_ts = t, ip_value = v\<rparr>) J"
proof -
  have "filter (\<lambda>(s, v). regex_passes sel (labels_to_btree (st_labels s))) J = J"
    using assms(3) decode_picked [OF assms(1,2)] by (intro filter_True) auto
  then show ?thesis
    unfolding decode_instant_def using assms(3) decode_picked(1) [OF assms(1,2)] by (auto intro!: map_cong)
qed

lemma decode_range_picked:
  assumes "db_wf db" "regex_true db sel" "fst ` set W \<subseteq> picked db sel"
  shows "decode_range sel W = collect_series (map row_of_tuple (sort_key (\<lambda>(s, t, v). (st_metric s, t)) W))"
proof -
  let ?W = "sort_key (\<lambda>(s, t, v). (st_metric s, t)) W"
  have W: "fst x \<in> picked db sel" if "x \<in> set ?W" for x using assms(3) that by auto
  have "map (\<lambda>(s, t, v). \<lparr>row_metric = st_metric s, row_labels = labels_to_btree (st_labels s), row_ts = t, row_value = v\<rparr>) ?W =
      map row_of_tuple ?W"
    using decode_picked(1) [OF assms(1,2) W] by (intro map_cong refl) (auto simp: row_of_tuple_def)
  moreover have "filter (\<lambda>r. regex_passes sel (row_labels r)) (map row_of_tuple ?W) = map row_of_tuple ?W"
  proof (rule filter_True, rule ballI)
    fix r assume "r \<in> set (map row_of_tuple ?W)"
    then obtain x where x: "x \<in> set ?W" "r = row_of_tuple x" unfolding set_map by blast
    then show "regex_passes sel (row_labels r)"
      using decode_picked(2) [OF assms(1,2) W] by (simp add: row_of_tuple_def del: set_sort)
  qed
  ultimately show ?thesis by (simp only: decode_range_def)
qed

lemma filter_finite_picked: "fst ` set J \<subseteq> A \<Longrightarrow> fst ` set (filter P J) \<subseteq> A"
  by auto

section \<open>At an instant\<close>

lemma rates_without_regex:
  assumes "series_table_ok (qe_db Q)" "regex_true (qe_db Q) sel"
  shows "instant_range_fn_via_sql Q (without_regex sel) r f t = instant_range_fn_via_sql Q sel r f t"
proof -
  have ids: "ids_unique (qe_db Q)" and wf: "db_wf (qe_db Q)" using assms(1) by (simp_all add: series_table_ok_def)
  have "decode_instant (without_regex sel) t (filter P (join_series (qe_db Q) (instant_rates Q sel f lo hi))) =
      decode_instant sel t (filter P (join_series (qe_db Q) (instant_rates Q sel f lo hi)))" for P lo hi
  proof -
    have J: "fst ` set (filter P (join_series (qe_db Q) (instant_rates Q sel f lo hi))) \<subseteq> picked (qe_db Q) sel"
      by (rule filter_finite_picked) (rule join_series_picked(2) [OF ids instant_rates_picked])
    show ?thesis
      using decode_instant_picked [OF wf assms(2) J] decode_instant_picked [OF wf regex_true_without, of _ sel] J by simp
  qed
  then show ?thesis by (simp add: instant_range_fn_via_sql_def run_stmt_def)
qed

text \<open>
  (C18) An aggregation of a rate pushed into SQL aggregates the rates of the selector with its \<open>=~\<close> and
  \<open>!~\<close> matchers removed, which the statement does not read. As long as every rate is finite, the
  statement's groups are those the Rust path forms from the answer of the range function over these
  series, the value of each is the engine's aggregate of exactly that group's rates, and what is missing is
  only an aggregate that overflowed. Where no regular expression filters anything out, the rates are those
  of the selector itself. For \<open>without (...)\<close> every selected series must keep a label and the texts of the
  labels that are left tell them apart; \<open>count\<close> with no labels to group by must have something to count.
\<close>

theorem rate_aggregate_pushdown_matches:
  assumes "instant_range_fn_via_sql Q (without_regex sel) r f t = Inr inner"
    "instant_aggregate_over_rangefn_via_sql Q sel r f op modi t = Inr pts"
    "reads_back Q (i64_wrap (t - r))" "reads_back Q t" "series_table_ok (qe_db Q)" "remaining_tell (qe_db Q) sel modi"
    "inner \<noteq> [] \<or> \<not> ungrouped_count op modi"
    "\<forall>(sid, v) \<in> set (instant_rates Q sel f (i64_wrap (t - r)) t). is_finite v"
  shows "\<exists>all. pts = filter (\<lambda>p. is_finite (ip_value p)) all \<and> distinct (map ip_labels all) \<and>
    ip_labels ` set all = ip_labels ` set (aggregate_instant_points inner op modi t) \<and>
    (\<forall>p \<in> set all. \<exists>vs.
       mset vs = mset (map ip_value (filter (\<lambda>x. retained_labels (ip_labels x) modi = ip_labels p) inner)) \<and>
       agg_call_sql Q op vs = Some (ip_value p)) \<and>
    (regex_true (qe_db Q) sel \<longrightarrow> instant_range_fn_via_sql Q sel r f t = Inr inner)"
proof -
  let ?lo = "i64_wrap (t - r)"
  let ?R = "instant_rates Q sel f ?lo t"
  let ?J = "join_series (qe_db Q) ?R" and ?all = "instant_grouped Q (\<lambda>_. True) op modi t ?R"
  have ids: "ids_unique (qe_db Q)" and wf: "db_wf (qe_db Q)" using assms(5) by (simp_all add: series_table_ok_def)
  note J = join_series_picked [OF ids instant_rates_picked [of Q sel f ?lo t]]
  have "is_finite v" if "(s, v) \<in> set ?J" for s v
    using assms(8) that by (auto simp: join_series_def)
  then have fin: "filter (\<lambda>(s, v). is_finite v) ?J = ?J" by (auto simp: filter_id_conv)
  have "inner = decode_instant (without_regex sel) t (filter (\<lambda>(s, v). is_finite v) ?J)"
    using assms(1,3,4) by (auto simp: instant_range_fn_via_sql_def run_stmt_def reads_back_def split: option.splits)
  then have inner: "inner = map (\<lambda>(s, v). \<lparr>ip_metric = st_metric s, ip_labels = st_labels s, ip_ts = t, ip_value = v\<rparr>) ?J"
    using decode_instant_picked [OF wf regex_true_without, of ?J sel t] J(2) unfolding fin by simp
  then have pairs: "mset (map (\<lambda>x. (st_labels (fst x), snd x)) ?J) = mset (map (\<lambda>x. (ip_labels x, ip_value x)) inner)"
    by (simp add: comp_def case_prod_unfold)
  have "?R = [] \<Longrightarrow> inner = []" by (simp add: inner join_series_def)
  then have "grouped_as Q op (\<lambda>l. retained_labels l modi) (map (\<lambda>x. (st_labels (fst x), snd x)) ?J) ?all"
    using assms(7) by (intro instant_grouped_matches [OF assms(5) instant_rates_picked assms(6)]) blast
  note match = grouped_as_aggregates [OF this pairs, of t]
  have "pts = instant_grouped Q is_finite op modi t ?R"
    using assms(2-4)
    by (auto simp: instant_aggregate_over_rangefn_via_sql_def instant_aggregate_over_rangefn_without_via_sql_def
        instant_grouped_def run_stmt_def reads_back_def split: option.splits)
  then have "pts = filter (\<lambda>p. is_finite (ip_value p)) ?all" by (simp only: instant_grouped_keep [of Q is_finite])
  then show ?thesis
    using match rates_without_regex [OF assms(5), of sel r f t] assms(1) by (intro exI [of _ ?all]) simp
qed

text \<open>\<open>sum by (job) (increase(up[20us]))\<close>: one of the two series has two samples.\<close>

lemma demo_window_up:
  assumes "hi = 20 \<or> hi = 30"
  shows "window_join (qe_db demo_env) up_selector 0 hi =
    [(\<lparr>st_id = 1, st_metric = ''up'', st_labels = [(''job'', ''a'')]\<rparr>, 10, Num 1),
     (\<lparr>st_id = 1, st_metric = ''up'', st_labels = [(''job'', ''a'')]\<rparr>, 20, Num 2),
     (\<lparr>st_id = 2, st_metric = ''up'', st_labels = [(''job'', ''b'')]\<rparr>, 20, Num 5)]"
  using assms by (auto simp: window_join_def demo_env_def demo_db_def where_holds_def selector_conds_def up_selector_def
      effective_metric_name_def)

lemma demo_increase: "rangefn_value demo_env Increase [(10, Num 1), (20, Num 2)] = Some (Num 1)"
  by (simp add: total_delta_def reset_delta_def demo_env_def f64_sum_def f64_sub_def f64_ge_def f64_le_def)

lemma demo_rates: "instant_rates demo_env up_selector Increase 0 20 = [(1, Num 1)]"
  by (simp add: instant_rates_def demo_window_up base_rows_def per_series_def by_series_time_def
      bt_group_def bt_push_def List.map_filter_simps demo_increase del: rangefn_value.simps) simp

theorem rate_aggregate_pushdown_matches_witness:
  "\<exists>p. instant_aggregate_over_rangefn_via_sql demo_env up_selector 20 Increase Sum (Some (Include [''job''])) 20 = Inr [p] \<and>
     ip_labels p = [(''job'', ''a'')] \<and> ip_value p = Num 1"
proof -
  let ?modi = "Some (Include [''job''])"
  let ?inner = "[\<lparr>ip_metric = ''up'', ip_labels = [(''job'', ''a'')], ip_ts = 20, ip_value = Num 1\<rparr>]"
  have lo: "i64_wrap (20 - 20) = 0" by (simp add: i64_wrap_def)
  have inner: "instant_range_fn_via_sql demo_env (without_regex up_selector) 20 Increase 20 = Inr ?inner"
    unfolding up_plain instant_range_fn_via_sql_def lo by (simp add: demo_run_stmt demo_rates) code_simp
  obtain pts where pts: "instant_aggregate_over_rangefn_via_sql demo_env up_selector 20 Increase Sum ?modi 20 = Inr pts"
    unfolding instant_aggregate_over_rangefn_via_sql_def lo by (simp add: demo_run_stmt modifier_excluded_keys_def)
  have hyps: "reads_back demo_env (i64_wrap (20 - 20))" "reads_back demo_env 20" "remaining_tell (qe_db demo_env) up_selector ?modi"
    "?inner \<noteq> [] \<or> \<not> ungrouped_count Sum ?modi"
    "\<forall>(sid, v) \<in> set (instant_rates demo_env up_selector Increase (i64_wrap (20 - 20)) 20). is_finite v"
    unfolding lo by (simp_all add: demo_reads_back demo_rates remaining_tell_def)
  from rate_aggregate_pushdown_matches [OF inner pts hyps(1,2) up_table(1) hyps(3-5)]
  obtain all where all: "pts = filter (\<lambda>p. is_finite (ip_value p)) all" "distinct (map ip_labels all)"
    "ip_labels ` set all = ip_labels ` set (aggregate_instant_points ?inner Sum ?modi 20)"
    "\<forall>p \<in> set all. \<exists>vs.
       mset vs = mset (map ip_value (filter (\<lambda>x. retained_labels (ip_labels x) ?modi = ip_labels p) ?inner)) \<and>
       agg_call_sql demo_env Sum vs = Some (ip_value p)"
    by blast
  have "ip_labels ` set (aggregate_instant_points ?inner Sum ?modi 20) = {[(''job'', ''a'')]}"
    by (simp add: aggregate_instant_points_def bt_group_def bt_push_def retained_labels_def)
  with all(3) have d: "set (map ip_labels all) = {[(''job'', ''a'')]}" by simp
  then have "length (map ip_labels all) = 1" using distinct_card [OF all(2)] by simp
  then obtain q where q: "all = [q]" by (auto simp: length_Suc_conv)
  with d have l: "ip_labels q = [(''job'', ''a'')]" by simp
  moreover have "agg_call_sql demo_env Sum [Num 1] = Some (Num 1)"
    by (simp add: agg_call_sql_def demo_env_def f64_sum_def)
  with all(4) q l have "ip_value q = Num 1" by (auto simp: retained_labels_def)
  ultimately show ?thesis using pts all(1) q by (auto simp: is_finite_def)
qed

section \<open>Over a range\<close>

definition rate_rows :: "query_env \<Rightarrow> vector_selector \<Rightarrow> int \<Rightarrow> range_fn_op \<Rightarrow> int list \<Rightarrow> int \<Rightarrow> int \<Rightarrow>
    (series_tuple \<times> int \<times> f64) list" where
  "rate_rows Q sel r f evals lo hi = timed_join (qe_db Q) (range_rates Q sel r f evals lo hi)"

lemma rate_rows_picked:
  assumes "ids_unique (qe_db Q)"
  shows "fst ` set (rate_rows Q sel r f evals lo hi) \<subseteq> picked (qe_db Q) sel"
    "map (\<lambda>(s, t, v). (st_id s, t, v)) (rate_rows Q sel r f evals lo hi) =
      map (\<lambda>(t, sid, v). (sid, t, v)) (range_rates Q sel r f evals lo hi)"
  using join_series_picked [OF assms range_rates_picked]
  by (simp_all add: rate_rows_def timed_join_def case_prod_unfold)

lemma rate_rows_none: "evals = [] \<Longrightarrow> rate_rows Q sel r f evals lo hi = []"
  by (simp add: rate_rows_def timed_join_def join_series_def range_rates_def)

text \<open>What the Rust path collects of rates that are finite.\<close>

lemma rate_rows_decoded:
  assumes "series_table_ok (qe_db Q)" "\<forall>(t, sid, v) \<in> set (range_rates Q sel r f evals lo hi). is_finite v"
  shows "\<exists>rows. decode_range (without_regex sel) (filter (\<lambda>(s, t, v). is_finite v) (rate_rows Q sel r f evals lo hi)) =
      collect_series rows \<and>
    keys_identify rows \<and> mset rows = mset (map row_of_tuple (rate_rows Q sel r f evals lo hi))"
proof (intro exI conjI)
  let ?W = "rate_rows Q sel r f evals lo hi"
  let ?rows = "map row_of_tuple (sort_key (\<lambda>(s, t, v). (st_metric s, t)) ?W)"
  have ids: "ids_unique (qe_db Q)" and wf: "db_wf (qe_db Q)" using assms(1) by (simp_all add: series_table_ok_def)
  note W = rate_rows_picked(1) [OF ids]
  have "\<forall>x \<in> set ?W. is_finite (snd (snd x))"
    using assms(2) by (fastforce simp: rate_rows_def timed_join_def join_series_def)
  then have fin: "filter (\<lambda>(s, t, v). is_finite v) ?W = ?W" by (auto simp: filter_id_conv)
  show "decode_range (without_regex sel) (filter (\<lambda>(s, t, v). is_finite v) ?W) = collect_series ?rows"
    unfolding fin by (rule decode_range_picked [OF wf regex_true_without]) (simp add: W)
  show "keys_identify ?rows"
    using W [of sel r f evals lo hi] by (intro tuples_identified [OF assms(1)]) (auto simp: picked_def)
  show "mset ?rows = mset (map row_of_tuple ?W)" by simp
qed

lemma range_rates_without:
  assumes "series_table_ok (qe_db Q)" "regex_true (qe_db Q) sel"
  shows "range_range_fn_via_sql Q (without_regex sel) r f lo hi step = range_range_fn_via_sql Q sel r f lo hi step"
proof -
  have ids: "ids_unique (qe_db Q)" and wf: "db_wf (qe_db Q)" using assms(1) by (simp_all add: series_table_ok_def)
  have "decode_range (without_regex sel) (filter P (rate_rows Q sel r f evals lo hi)) =
      decode_range sel (filter P (rate_rows Q sel r f evals lo hi))" for P evals lo hi
  proof -
    have W: "fst ` set (filter P (rate_rows Q sel r f evals lo hi)) \<subseteq> picked (qe_db Q) sel"
      by (rule filter_finite_picked) (rule rate_rows_picked(1) [OF ids])
    show ?thesis
      using decode_range_picked [OF wf assms(2) W] decode_range_picked [OF wf regex_true_without, of _ sel] W by simp
  qed
  then show ?thesis by (simp add: range_range_fn_via_sql_def with_evals_def run_stmt_def rate_rows_def cong: option.case_cong)
qed

text \<open>
  (C19) The same over a range: as long as every rate is finite, the statement answers the series and the
  timestamps that the Rust path makes of the range function over the selector without its \<open>=~\<close> and \<open>!~\<close>
  matchers, and at each timestamp the engine's aggregate of exactly the rates that the series of the group
  have there, up to aggregates that overflowed. Where no regular expression filters anything out, the rates
  are those of the selector itself. For \<open>without (...)\<close> every selected series must keep a label and the texts
  of the labels that are left tell them apart.
\<close>

theorem rate_range_pushdown_matches:
  assumes "range_range_fn_via_sql Q (without_regex sel) r f lo hi step = Inr inner"
    "range_aggregate_over_rangefn_via_sql Q sel r f op modi lo hi step = Inr out"
    "eval_loop lo hi step 0 = Some evals" "reads_back Q (i64_sat (lo - r))" "reads_back Q hi"
    "series_table_ok (qe_db Q)" "remaining_tell (qe_db Q) sel modi"
    "\<forall>(t, sid, v) \<in> set (range_rates Q sel r f evals (i64_sat (lo - r)) hi). is_finite v"
  shows "\<exists>all. out = keep_points is_finite all \<and> aggregates_as Q inner op modi all \<and>
    (regex_true (qe_db Q) sel \<longrightarrow> range_range_fn_via_sql Q sel r f lo hi step = Inr inner)"
proof (intro exI conjI)
  let ?from = "i64_sat (lo - r)"
  let ?W = "rate_rows Q sel r f evals ?from hi"
  let ?all = "range_grouped Q (\<lambda>_. True) op modi ?W"
  have ids: "ids_unique (qe_db Q)" and wf: "db_wf (qe_db Q)" using assms(6) by (simp_all add: series_table_ok_def)
  have none: "range_grouped Q keep op modi [] = []" for keep
    by (simp add: range_grouped_def range_by_def range_without_def collect_groups_def bt_group_eq_map join_gk_def
        List.map_filter_simps split: option.split)
  obtain rows where rows: "decode_range (without_regex sel) (filter (\<lambda>(s, t, v). is_finite v) ?W) = collect_series rows"
    "keys_identify rows" "mset rows = mset (map row_of_tuple ?W)"
    using rate_rows_decoded [OF assms(6,8)] by blast
  have "evals = [] \<Longrightarrow> decode_range (without_regex sel) (filter (\<lambda>(s, t, v). is_finite v) ?W) = []"
    by (simp add: rate_rows_none decode_range_def collect_series_groups bt_group_eq_map)
  then have inner: "inner = collect_series rows"
    using assms(1,3-5) unfolding rows(1) [symmetric]
    by (auto simp: range_range_fn_via_sql_def with_evals_def run_stmt_def reads_back_def rate_rows_def split: option.splits if_splits)
  have "out = range_grouped Q is_finite op modi ?W"
  proof (cases "evals = []")
    case True
    then show ?thesis
      using assms(2,3) by (auto simp: range_aggregate_over_rangefn_via_sql_def range_aggregate_over_rangefn_without_via_sql_def
          with_evals_def rate_rows_none none split: option.splits)
  next
    case False
    then show ?thesis
      using assms(2-5) rate_rows_picked(2) [OF ids, of sel r f evals ?from hi]
      by (auto simp: range_aggregate_over_rangefn_via_sql_def range_aggregate_over_rangefn_without_via_sql_def range_grouped_def
          with_evals_def run_stmt_def reads_back_def rate_rows_def split: option.splits)
  qed
  then show "out = keep_points is_finite ?all" by (simp only: range_grouped_keep [of Q is_finite])
  have "mset (labelled_points inner) = mset (map labelled_tuple ?W)"
    unfolding inner collect_series_labelled(1) [OF rows(2)] rows(3)
    by (simp add: multiset.map_comp comp_def row_of_tuple_def labelled_tuple_def [abs_def])
  moreover have "\<forall>s \<in> set inner. rp_points s \<noteq> []" unfolding inner by (rule collect_series_labelled(2) [OF rows(2)])
  ultimately show "aggregates_as Q inner op modi ?all"
    using ids wf rate_rows_picked(1) [OF ids] assms(7) by (rule range_grouped_aggregates)
  show "regex_true (qe_db Q) sel \<longrightarrow> range_range_fn_via_sql Q sel r f lo hi step = Inr inner"
    using range_rates_without [OF assms(6), of sel r f lo hi step] assms(1) by simp
qed

text \<open>\<open>sum by (job) (increase(up[20us]))\<close> at 20 and at 30.\<close>

theorem rate_range_pushdown_matches_witness:
  "\<exists>all. range_aggregate_over_rangefn_via_sql demo_env up_selector 20 Increase Sum (Some (Include [''job''])) 20 30 10 =
       Inr (keep_points is_finite all) \<and>
     map (\<lambda>s. (rp_metric s, rp_labels s, map fst (rp_points s))) all = [([], [(''job'', ''a'')], [20])]"
proof -
  let ?modi = "Some (Include [''job''])"
  let ?inner = "[\<lparr>rp_metric = ''up'', rp_labels = [(''job'', ''a'')], rp_points = [(20, Num 1)]\<rparr>]"
  have lo: "i64_sat (20 - 20) = 0" by (simp add: i64_sat_def i64_min_def i64_max_def)
  have evals: "eval_loop 20 30 10 0 = Some [20, 30]"
    by (simp add: eval_loop.simps max_range_evals_def i64_sat_def i64_min_def i64_max_def)
  have rates: "range_rates demo_env up_selector 20 Increase [20, 30] 0 30 = [(20, 1, Num 1)]"
    by (simp add: range_rates_def eval_window_def demo_window_up base_rows_def per_series_def by_series_time_def
        bt_group_def bt_push_def List.map_filter_simps demo_increase del: rangefn_value.simps) simp
  have inner: "range_range_fn_via_sql demo_env (without_regex up_selector) 20 Increase 20 30 10 = Inr ?inner"
    unfolding up_plain range_range_fn_via_sql_def with_evals_def evals lo by (simp add: demo_run_stmt rates) code_simp
  obtain out where out:
    "range_aggregate_over_rangefn_via_sql demo_env up_selector 20 Increase Sum ?modi 20 30 10 = Inr out"
    unfolding range_aggregate_over_rangefn_via_sql_def with_evals_def evals lo
    by (simp add: demo_run_stmt modifier_excluded_keys_def)
  have hyps: "reads_back demo_env (i64_sat (20 - 20))" "reads_back demo_env 30" "remaining_tell (qe_db demo_env) up_selector ?modi"
    "\<forall>(t, sid, v) \<in> set (range_rates demo_env up_selector 20 Increase [20, 30] (i64_sat (20 - 20)) 30). is_finite v"
    unfolding lo by (simp_all add: demo_reads_back rates remaining_tell_def)
  from rate_range_pushdown_matches [OF inner out evals hyps(1,2) up_table(1) hyps(3,4)]
  obtain all where "out = keep_points is_finite all" "aggregates_as demo_env ?inner Sum ?modi all" by blast
  moreover have "map (\<lambda>s. (rp_metric s, rp_labels s, map fst (rp_points s))) (aggregate_range_points ?inner Sum ?modi) =
      [([], [(''job'', ''a'')], [20])]"
    by (simp add: aggregate_range_points_def aggregate_group_def bt_group_def bt_push_def retained_labels_def)
  ultimately show ?thesis using out by (auto simp: aggregates_as_def)
qed

end
