(* ===== verification/Pushdown_Vector_Range.thy ===== *)
theory Pushdown_Vector_Range
  imports Pushdown_Agg_Rate
begin

text \<open>
  Two selectors over a range, joined in one statement on the text of their labels and on the time,
  against the operator in Rust on the series of the two selectors: the same samples, each once.
\<close>

section \<open>Rows and series\<close>

lemma collect_series_rows:
  assumes "keys_identify rows"
  shows "mset (concat (map rows_of_series (collect_series rows))) = mset rows"
  unfolding collect_series_groups by (rule regrouped_rows [OF assms])

text \<open>The samples of a selector that pass its regular expressions.\<close>

definition passing_window :: "database \<Rightarrow> vector_selector \<Rightarrow> int \<Rightarrow> int \<Rightarrow> (series_tuple \<times> int \<times> f64) list" where
  "passing_window db sel lo hi = filter (\<lambda>r. tuple_passes sel (fst r)) (window_join db sel lo hi)"

lemma range_selector_tuples:
  assumes "range_selector Q sel lo hi = Inr out" "reads_back Q lo" "reads_back Q hi" "series_table_ok (qe_db Q)"
  shows "mset (concat (map rows_of_series out)) = mset (map row_of_tuple (passing_window (qe_db Q) sel lo hi))"
proof -
  let ?db = "passing (qe_db Q) sel"
  obtain rows where run: "run_selector_query Q sel lo hi = Inr rows"
    using assms(1) by (auto simp: range_selector_def split: sum.splits)
  have ok: "series_table_ok ?db" "regex_true ?db sel" by (rule passing_ok [OF assms(4)])+
  then have "rows = map row_of_tuple (sort_key (\<lambda>r. (st_metric (fst r), fst (snd r))) (window_join ?db sel lo hi))"
    using run_selector_rows [OF run assms(2,3)] selector_rows_all [of ?db sel lo hi]
    by (simp add: selector_rows_passing series_table_ok_def)
  then have rows: "mset rows = mset (map row_of_tuple (passing_window (qe_db Q) sel lo hi))"
    by (simp add: window_join_passing passing_window_def)
  have "\<forall>x \<in> set (passing_window (qe_db Q) sel lo hi). fst x \<in> set (db_series (qe_db Q))"
    by (auto simp: passing_window_def window_join_def)
  from tuples_identified [OF assms(4) this] have "keys_identify rows" by (simp only: keys_identify_mset [OF rows])
  moreover have "out = collect_series rows"
    using range_selector_groups [OF assms(1) run] by (simp add: collect_series_groups)
  ultimately show ?thesis using collect_series_rows rows by simp
qed

section \<open>The join of the statement\<close>

lemma join_gk_all:
  assumes "series_table_ok db" "label_texts_ok db" "\<forall>r \<in> set W. fst r \<in> set (db_series db)"
  shows "join_gk db [] (map (\<lambda>r. (st_id (fst r), h r)) W) =
    map (\<lambda>r. (label_text (st_labels (fst r)), st_id (fst r), h r)) W"
  using assms(3)
proof (induction W)
  case (Cons r W)
  have "group_key (map (\<lambda>s. (st_id s, st_labels s)) (db_series db)) [] (st_id (fst r)) = Some (label_text (st_labels (fst r)))"
    using assms(1,2) Cons.prems by (intro group_key_labels) (auto simp: series_table_ok_def label_texts_ok_def)
  with Cons show ?case by (simp add: join_gk_def List.map_filter_simps)
qed (simp add: join_gk_def List.map_filter_simps)

lemma vector_side_range_eq:
  assumes "series_table_ok db" "label_texts_ok db"
  shows "vector_side_range db sel lo hi =
    map (\<lambda>r. (label_text (st_labels (fst r)), st_id (fst r), fst (snd r), f64_add (snd (snd r)) (Num 0))) (window_join db sel lo hi)"
proof -
  have "\<forall>r \<in> set (window_join db sel lo hi). fst r \<in> set (db_series db)" by (auto simp: window_join_def)
  from join_gk_all [OF assms this, of "\<lambda>r. (fst (snd r), f64_add (snd (snd r)) (Num 0))"]
  show ?thesis by (simp add: vector_side_range_def case_prod_unfold)
qed

definition same_slot :: "series_tuple \<times> int \<times> f64 \<Rightarrow> series_tuple \<times> int \<times> f64 \<Rightarrow> bool" where
  "same_slot x y \<longleftrightarrow> st_labels (fst y) = st_labels (fst x) \<and> fst (snd y) = fst (snd x)"

lemma join_series_joined_range:
  assumes "ids_unique db" "label_texts_ok db" "\<forall>x \<in> set xs. fst x \<in> set (db_series db)" "\<forall>y \<in> set ys. fst y \<in> set (db_series db)"
  shows "join_series db (joined_range
      (map (\<lambda>x. (label_text (st_labels (fst x)), st_id (fst x), fst (snd x), f x)) xs)
      (map (\<lambda>y. (label_text (st_labels (fst y)), st_id (fst y), fst (snd y), g y)) ys)) =
    concat (map (\<lambda>x. map (\<lambda>y. (fst x, fst (snd x), f x, g y)) (filter (same_slot x) ys)) xs)"
  using assms(3)
proof (induction xs)
  case (Cons x xs)
  let ?F = "\<lambda>x. (label_text (st_labels (fst x)), st_id (fst x), fst (snd x), f x)"
  let ?G = "\<lambda>y. (label_text (st_labels (fst y)), st_id (fst y), fst (snd y), g y)"
  have "filter (\<lambda>y. label_text (st_labels (fst y)) = label_text (st_labels (fst x)) \<and> fst (snd y) = fst (snd x)) ys =
      filter (same_slot x) ys"
    using assms(2,4) Cons.prems by (intro filter_cong refl) (auto simp: label_texts_ok_def same_slot_def)
  then have "joined_range (map ?F (x # xs)) (map ?G ys) =
      map (\<lambda>y. (st_id (fst x), (fst (snd x), f x, g y))) (filter (same_slot x) ys) @ joined_range (map ?F xs) (map ?G ys)"
    by (simp add: joined_range_def filter_map comp_def)
  then show ?case
    using Cons join_series_const [OF assms(1), of "fst x" "\<lambda>y. (fst (snd x), f x, g y)"]
    by (simp add: join_series_append)
qed (simp add: joined_range_def join_series_def)

lemma joined_range_passing:
  assumes "series_table_ok db" "label_texts_ok db"
  defines "m \<equiv> \<lambda>x ys. map (\<lambda>y. (fst x, fst (snd x), f64_add (snd (snd x)) (Num 0), f64_add (snd (snd y)) (Num 0)))
    (filter (same_slot x) ys)"
  shows "filter (\<lambda>z. both_pass lsel rsel (labels_to_btree (st_labels (fst z))))
      (join_series db (joined_range (vector_side_range db lsel lo hi) (vector_side_range db rsel lo hi))) =
    concat (map (\<lambda>x. m x (passing_window db rsel lo hi)) (passing_window db lsel lo hi))"
proof -
  let ?WL = "window_join db lsel lo hi" and ?WR = "window_join db rsel lo hi"
  have "ids_unique db" using assms(1) by (simp add: series_table_ok_def)
  then have "join_series db (joined_range (vector_side_range db lsel lo hi) (vector_side_range db rsel lo hi)) =
      concat (map (\<lambda>x. m x ?WR) ?WL)"
    unfolding vector_side_range_eq [OF assms(1,2)] m_def
    by (intro join_series_joined_range assms(2)) (auto simp: window_join_def)
  then have "filter (\<lambda>z. both_pass lsel rsel (labels_to_btree (st_labels (fst z))))
      (join_series db (joined_range (vector_side_range db lsel lo hi) (vector_side_range db rsel lo hi))) =
    concat (map (\<lambda>x. m x ?WR) (filter (\<lambda>x. tuple_passes lsel (fst x) \<and> tuple_passes rsel (fst x)) ?WL))"
    unfolding m_def
    using filter_concat_fst [of "\<lambda>s. both_pass lsel rsel (labels_to_btree (st_labels s))"] by (simp add: both_pass_def)
  also have "\<dots> = concat (map (\<lambda>x. m x (passing_window db rsel lo hi)) (passing_window db lsel lo hi))"
    unfolding passing_window_def [of _ lsel]
  proof (rule concat_map_guard)
    fix x
    show "m x (passing_window db rsel lo hi) = (if tuple_passes rsel (fst x) then m x ?WR else [])"
      unfolding m_def passing_window_def filter_filter
      by (auto simp: filter_empty_conv same_slot_def intro!: arg_cong [where f = "map _"] filter_cong)
  qed
  finally show ?thesis .
qed

section \<open>The operator on rows\<close>

definition values_for :: "selector_row list \<Rightarrow> selector_row \<Rightarrow> f64 list" where
  "values_for rs l = map row_value (filter (\<lambda>r. row_labels r = row_labels l \<and> row_ts r = row_ts l) rs)"

definition row_match :: "(f64 \<Rightarrow> f64 \<Rightarrow> f64) \<Rightarrow> bin_op \<Rightarrow> bool \<Rightarrow> selector_row list \<Rightarrow> selector_row \<Rightarrow> selector_row list" where
  "row_match powf op rb rs l =
     List.map_filter (\<lambda>rv. map_option (\<lambda>w. l\<lparr>row_metric := result_name op rb (row_metric l), row_value := w\<rparr>)
       (vector_vector_value powf op rb (row_value l) rv)) (values_for rs l)"

lemma row_match_mset: "mset rs = mset rs' \<Longrightarrow> mset (row_match powf op rb rs l) = mset (row_match powf op rb rs' l)"
  unfolding row_match_def values_for_def by (rule mset_map_filter_cong) simp

text \<open>In Rust: the index by labels, then by time, finds the one value of the slot.\<close>

lemma values_of_series:
  "distinct (map fst (rp_points s)) \<Longrightarrow> values_for (rows_of_series s) l =
     (if rp_labels s = row_labels l then (case map_of (rp_points s) (row_ts l) of None \<Rightarrow> [] | Some v \<Rightarrow> [v]) else [])"
proof -
  have "map snd (filter (\<lambda>p. fst p = t) ps) = (case map_of ps t of None \<Rightarrow> [] | Some v \<Rightarrow> [v])"
    if "distinct (map fst ps)" for ps :: "(int \<times> f64) list" and t
    using that by (induction ps) (auto simp: filter_empty_conv image_iff split: option.splits)
  then show "distinct (map fst (rp_points s)) \<Longrightarrow> ?thesis"
    by (auto simp: values_for_def rows_of_series_def filter_map comp_def case_prod_unfold split: option.splits)
qed

lemma values_of_all:
  assumes "distinct (map rp_labels rhs)" "\<forall>r \<in> set rhs. distinct (map fst (rp_points r))"
  shows "values_for (concat (map rows_of_series rhs)) l =
    (case map_of (map (\<lambda>r. (rp_labels r, rp_points r)) rhs) (row_labels l) of
       None \<Rightarrow> [] | Some pts \<Rightarrow> (case map_of pts (row_ts l) of None \<Rightarrow> [] | Some v \<Rightarrow> [v]))"
  using assms
proof (induction rhs)
  case (Cons r rhs)
  have app: "values_for (xs @ ys) l = values_for xs l @ values_for ys l" for xs ys by (simp add: values_for_def)
  have "row_labels l = rp_labels r \<Longrightarrow> map_of (map (\<lambda>r. (rp_labels r, rp_points r)) rhs) (row_labels l) = None"
    using Cons.prems(1) by (auto simp: map_of_eq_None_iff)
  then show ?case using Cons by (auto simp: app values_of_series)
qed (simp add: values_for_def)

lemma rust_row_match:
  assumes "distinct (map rp_labels rhs)" "\<forall>r \<in> set rhs. distinct (map fst (rp_points r))"
  shows "concat (map rows_of_series (apply_vector_vector_range powf lhs rhs op rb)) =
    concat (map (row_match powf op rb (concat (map rows_of_series rhs))) (concat (map rows_of_series lhs)))"
proof -
  let ?rows = "concat (map rows_of_series rhs)"
  let ?idx = "bt_collect (map (\<lambda>r. (rp_labels r, bt_collect (rp_points r))) rhs)"
  have "map_of (map (\<lambda>r. (rp_labels r, bt_collect (rp_points r))) xs) L =
      map_option bt_collect (map_of (map (\<lambda>r. (rp_labels r, rp_points r)) xs) L)" for xs L
    by (induction xs) auto
  then have "map_of ?idx L = map_option bt_collect (map_of (map (\<lambda>r. (rp_labels r, rp_points r)) rhs) L)" for L
    using assms(1) by (simp add: map_of_bt_collect_distinct comp_def)
  moreover have "map_of (bt_collect pts) = map_of pts"
    if "map_of (map (\<lambda>r. (rp_labels r, rp_points r)) rhs) L = Some pts" for L pts
    using assms(2) map_of_SomeD [OF that] by (auto intro: map_of_bt_collect_distinct)
  ultimately have vals: "values_for ?rows l = (case map_of ?idx (row_labels l) of
       None \<Rightarrow> [] | Some pts \<Rightarrow> (case map_of pts (row_ts l) of None \<Rightarrow> [] | Some v \<Rightarrow> [v]))" for l
    unfolding values_of_all [OF assms] by (auto split: option.splits)
  have one: "concat (map (row_match powf op rb ?rows) (rows_of_series l)) =
      (case map_of ?idx (rp_labels l) of None \<Rightarrow> []
       | Some r_pts \<Rightarrow> rows_of_series \<lparr>rp_metric = (if is_filter op rb then rp_metric l else []), rp_labels = rp_labels l,
           rp_points = List.map_filter (\<lambda>(ts, lv). case map_of r_pts ts of None \<Rightarrow> None
             | Some rv \<Rightarrow> map_option (\<lambda>v. (ts, v)) (vector_vector_value powf op rb lv rv)) (rp_points l)\<rparr>)" for l
  proof (cases "map_of ?idx (rp_labels l)")
    case None
    then show ?thesis by (simp add: row_match_def vals rows_of_series_def case_prod_unfold List.map_filter_simps)
  next
    case (Some r_pts)
    have "concat (map (row_match powf op rb ?rows) (map (\<lambda>(ts, v). \<lparr>row_metric = rp_metric l, row_labels = rp_labels l, row_ts = ts, row_value = v\<rparr>) ps)) =
      map (\<lambda>(ts, v). \<lparr>row_metric = (if is_filter op rb then rp_metric l else []), row_labels = rp_labels l, row_ts = ts, row_value = v\<rparr>)
        (List.map_filter (\<lambda>(ts, lv). case map_of r_pts ts of None \<Rightarrow> None
             | Some rv \<Rightarrow> map_option (\<lambda>v. (ts, v)) (vector_vector_value powf op rb lv rv)) ps)" for ps
      by (induction ps) (auto simp: row_match_def vals Some result_name_def List.map_filter_simps split: option.splits)
    with Some show ?thesis by (simp add: rows_of_series_def)
  qed
  have nil: "rows_of_series \<lparr>rp_metric = m, rp_labels = L, rp_points = []\<rparr> = []" for m L by (simp add: rows_of_series_def)
  have "concat (map rows_of_series (apply_vector_vector_range powf lhs rhs op rb)) =
      concat (map (\<lambda>l. concat (map (row_match powf op rb ?rows) (rows_of_series l))) lhs)"
    unfolding apply_vector_vector_range_def Let_def one
    by (induction lhs) (auto simp: List.map_filter_simps nil split: option.splits)
  also have "\<dots> = concat (map (row_match powf op rb ?rows) (concat (map rows_of_series lhs)))"
    by (induction lhs) simp_all
  finally show ?thesis .
qed

section \<open>The statement\<close>

text \<open>The result rows of the statement, before they are collected.\<close>

definition vector_rows :: "query_env \<Rightarrow> vector_selector \<Rightarrow> vector_selector \<Rightarrow> bin_op \<Rightarrow> bool \<Rightarrow> int \<Rightarrow> int \<Rightarrow> selector_row list" where
  "vector_rows Q lsel rsel op rb lo hi =
     concat (map (row_match (pe_powf (qe_prom Q)) op rb (map row_of_tuple (passing_window (qe_db Q) rsel lo hi)))
       (map row_of_tuple (passing_window (qe_db Q) lsel lo hi)))"

lemma vector_rows_identified:
  assumes "series_table_ok (qe_db Q)" "label_texts_ok (qe_db Q)"
  shows "keys_identify (vector_rows Q lsel rsel op rb lo hi)"
proof -
  have row: "\<exists>s \<in> set (db_series (qe_db Q)). row_metric r = result_name op rb (st_metric s) \<and> row_labels r = st_labels s"
    if r: "r \<in> set (vector_rows Q lsel rsel op rb lo hi)" for r
  proof -
    obtain x where x: "x \<in> set (passing_window (qe_db Q) lsel lo hi)" and "r \<in> set (row_match (pe_powf (qe_prom Q)) op rb
        (map row_of_tuple (passing_window (qe_db Q) rsel lo hi)) (row_of_tuple x))"
      using r unfolding vector_rows_def set_concat set_map image_image by blast
    then have "row_metric r = result_name op rb (st_metric (fst x))" "row_labels r = st_labels (fst x)"
      by (auto simp: row_match_def set_map_filter row_of_tuple_def)
    moreover have "fst x \<in> set (db_series (qe_db Q))" using x by (auto simp: passing_window_def window_join_def)
    ultimately show ?thesis by blast
  qed
  have key: "s = s' \<or> \<not> is_filter op rb \<and> st_labels s = st_labels s'"
    if "s \<in> set (db_series (qe_db Q))" "s' \<in> set (db_series (qe_db Q))"
      "series_key (result_name op rb (st_metric s)) (st_labels s) = series_key (result_name op rb (st_metric s')) (st_labels s')"
    for s s'
  proof (cases "is_filter op rb")
    case True
    with that show ?thesis
      using inj_onD [of tuple_key "set (db_series (qe_db Q))" s s'] assms(1) by (simp add: series_table_ok_def result_name_def)
  next
    case False
    with that(3) have "label_text (st_labels s) = label_text (st_labels s')"
      by (simp add: result_name_def series_key_def label_text_def)
    with False that(1,2) assms(2) show ?thesis by (simp add: label_texts_ok_def)
  qed
  show ?thesis
    unfolding keys_identify_def
  proof (intro ballI impI)
    fix r r' assume r: "r \<in> set (vector_rows Q lsel rsel op rb lo hi)" "r' \<in> set (vector_rows Q lsel rsel op rb lo hi)"
      "row_key r = row_key r'"
    obtain s where s: "s \<in> set (db_series (qe_db Q))" "row_metric r = result_name op rb (st_metric s)" "row_labels r = st_labels s"
      using row [OF r(1)] by blast
    obtain s' where s': "s' \<in> set (db_series (qe_db Q))" "row_metric r' = result_name op rb (st_metric s')" "row_labels r' = st_labels s'"
      using row [OF r(2)] by blast
    show "row_metric r = row_metric r' \<and> row_labels r = row_labels r'"
      using key [OF s(1) s'(1)] r(3) s(2,3) s'(2,3) by (auto simp: result_name_def)
  qed
qed

lemma vector_range_rows:
  assumes "vector_vector_range_via_sql Q lsel rsel op rb lo hi = Inr out"
    "reads_back Q lo" "reads_back Q hi" "series_table_ok (qe_db Q)" "label_texts_ok (qe_db Q)" "ieee_engine Q"
    "\<forall>x \<in> set (passing_window (qe_db Q) lsel lo hi) \<union> set (passing_window (qe_db Q) rsel lo hi).
       \<not> is_nan (snd (snd x)) \<and> f64_add (snd (snd x)) (Num 0) = snd (snd x)"
  shows "\<exists>rows. out = collect_series rows \<and> mset rows = mset (vector_rows Q lsel rsel op rb lo hi)"
proof (intro exI conjI)
  let ?db = "qe_db Q"
  let ?J = "join_series ?db (joined_range (vector_side_range ?db lsel lo hi) (vector_side_range ?db rsel lo hi))"
  let ?PL = "passing_window ?db lsel lo hi" and ?PR = "passing_window ?db rsel lo hi"
  let ?g = "\<lambda>(s, t, lv, rv). map_option (\<lambda>w. (s, t, w)) (sql_bin_row Q op rb lv rv lv)"
  let ?mk = "\<lambda>(s, t, v). \<lparr>row_metric = result_name op rb (st_metric s), row_labels = labels_to_btree (st_labels s), row_ts = t, row_value = v\<rparr>"
  let ?K = "sort_key (\<lambda>(s, t, v). (st_metric s, t))"
  let ?B = "\<lambda>z. both_pass lsel rsel (labels_to_btree (st_labels (fst z)))"
  let ?rows = "filter (\<lambda>r. both_pass lsel rsel (row_labels r)) (map ?mk (?K (List.map_filter ?g ?J)))"
  show "out = collect_series ?rows"
    using assms(1-3) by (auto simp: vector_vector_range_via_sql_def decode_bin_range_def run_stmt_def reads_back_def split: option.splits)
  have "filter (\<lambda>r. both_pass lsel rsel (row_labels r)) (map ?mk xs) = map ?mk (filter ?B xs)" for xs
    by (induction xs) auto
  then have "mset ?rows = mset (map ?mk (filter ?B (?K (List.map_filter ?g ?J))))" by (rule arg_cong)
  also have "\<dots> = mset (map ?mk (filter ?B (List.map_filter ?g ?J)))" by (simp only: mset_map mset_filter mset_sort)
  also have "filter ?B (List.map_filter ?g ?J) = List.map_filter ?g (filter ?B ?J)"
    by (rule filter_map_filter) auto
  also have "map ?mk \<dots> = vector_rows Q lsel rsel op rb lo hi"
    unfolding joined_range_passing [OF assms(4,5)] map_filter_concat map_concat map_map comp_def vector_rows_def
  proof (intro arg_cong [where f = concat] map_cong refl)
    fix x assume x: "x \<in> set ?PL"
    have vs: "values_for (map row_of_tuple ?PR) (row_of_tuple x) = map (\<lambda>y. snd (snd y)) (filter (same_slot x) ?PR)"
      by (simp add: values_for_def filter_map comp_def row_of_tuple_def same_slot_def [abs_def])
    have lbls: "labels_to_btree (st_labels (fst x)) = st_labels (fst x)"
      using x assms(4) by (auto simp: passing_window_def window_join_def labels_to_btree_def series_table_ok_def db_wf_def bt_collect_id)
    show "map ?mk (List.map_filter ?g (map (\<lambda>y. (fst x, fst (snd x), f64_add (snd (snd x)) (Num 0), f64_add (snd (snd y)) (Num 0)))
        (filter (same_slot x) ?PR))) = row_match (pe_powf (qe_prom Q)) op rb (map row_of_tuple ?PR) (row_of_tuple x)"
      unfolding row_match_def vs map_of_map_filter_result map_filter_of_map
      by (rule map_filter_result_cong)
        (use x assms(7) in \<open>simp add: row_of_tuple_def lbls sql_bin_row_ieee [OF assms(6)] vector_vector_value_def option.map_comp comp_def\<close>)
  qed
  finally show "mset ?rows = mset (vector_rows Q lsel rsel op rb lo hi)" .
qed

text \<open>
  (C20) Two selectors over a range: the statement answers the samples that the operator in Rust makes of
  the series of the two selectors, each once, with the same name, labels, time and value, when the right
  side has one series per label set and one sample per time, every series has a label, the texts tell the
  label sets apart and no value is \<open>-0\<close> or \<open>NaN\<close>; ids and keys tell the series of the table apart, and
  the engine compares as IEEE does.
\<close>

theorem vector_range_pushdown_matches:
  assumes "range_selector Q lsel lo hi = Inr lhs" "range_selector Q rsel lo hi = Inr rhs"
    "vector_vector_range_via_sql Q lsel rsel op rb lo hi = Inr out"
    "reads_back Q lo" "reads_back Q hi" "series_table_ok (qe_db Q)" "label_texts_ok (qe_db Q)" "ieee_engine Q"
    "distinct (map rp_labels rhs)" "\<forall>r \<in> set rhs. distinct (map fst (rp_points r))"
    "\<forall>s \<in> set lhs \<union> set rhs. \<forall>(t, v) \<in> set (rp_points s). \<not> is_nan v \<and> f64_add v (Num 0) = v"
  shows "mset (concat (map rows_of_series out)) =
    mset (concat (map rows_of_series (apply_vector_vector_range (pe_powf (qe_prom Q)) lhs rhs op rb)))"
proof -
  let ?PL = "passing_window (qe_db Q) lsel lo hi" and ?PR = "passing_window (qe_db Q) rsel lo hi"
  note L = range_selector_tuples [OF assms(1,4,5,6)] and R = range_selector_tuples [OF assms(2,4,5,6)]
  have "\<not> is_nan (snd (snd x)) \<and> f64_add (snd (snd x)) (Num 0) = snd (snd x)" if "x \<in> set ?PL \<union> set ?PR" for x
  proof -
    have "row_of_tuple x \<in># mset (concat (map rows_of_series lhs)) + mset (concat (map rows_of_series rhs))"
      using that unfolding L R by auto
    then show ?thesis using assms(11) by (fastforce simp: rows_of_series_def row_of_tuple_def)
  qed
  then obtain rows where "out = collect_series rows" "mset rows = mset (vector_rows Q lsel rsel op rb lo hi)"
    using vector_range_rows [OF assms(3-8)] by blast
  moreover then have "keys_identify rows"
    using keys_identify_mset vector_rows_identified [OF assms(6,7)] by blast
  ultimately have "mset (concat (map rows_of_series out)) = mset (vector_rows Q lsel rsel op rb lo hi)"
    by (simp add: collect_series_rows)
  also have "\<dots> = mset (concat (map (row_match (pe_powf (qe_prom Q)) op rb (concat (map rows_of_series rhs))) (concat (map rows_of_series lhs))))"
    unfolding vector_rows_def by (intro mset_concat_cong row_match_mset L [symmetric] R [symmetric])
  finally show ?thesis unfolding rust_row_match [OF assms(9,10)] .
qed

text \<open>\<open>up - up\<close> over twenty microseconds.\<close>

theorem vector_range_pushdown_matches_witness:
  "\<exists>out. vector_vector_range_via_sql demo_env up_selector up_selector Ge False 0 20 = Inr out \<and>
     mset (concat (map rows_of_series out)) =
       {#\<lparr>row_metric = ''up'', row_labels = [(''job'', ''a'')], row_ts = 10, row_value = Num 1\<rparr>,
         \<lparr>row_metric = ''up'', row_labels = [(''job'', ''a'')], row_ts = 20, row_value = Num 2\<rparr>,
         \<lparr>row_metric = ''up'', row_labels = [(''job'', ''b'')], row_ts = 20, row_value = Num 5\<rparr>#}"
proof -
  let ?lhs = "[\<lparr>rp_metric = ''up'', rp_labels = [(''job'', ''a'')], rp_points = [(10, Num 1), (20, Num 2)]\<rparr>,
          \<lparr>rp_metric = ''up'', rp_labels = [(''job'', ''b'')], rp_points = [(20, Num 5)]\<rparr>]"
  have rows: "selector_rows (qe_db demo_env) up_selector 0 20 =
      [\<lparr>row_metric = ''up'', row_labels = [(''job'', ''a'')], row_ts = 10, row_value = Num 1\<rparr>,
       \<lparr>row_metric = ''up'', row_labels = [(''job'', ''a'')], row_ts = 20, row_value = Num 2\<rparr>,
       \<lparr>row_metric = ''up'', row_labels = [(''job'', ''b'')], row_ts = 20, row_value = Num 5\<rparr>]"
    by code_simp
  have run: "run_selector_query demo_env up_selector 0 20 = Inr (selector_rows (qe_db demo_env) up_selector 0 20)"
    unfolding run_selector_query_def by (simp add: demo_run_stmt)
  have lhs: "range_selector demo_env up_selector 0 20 = Inr ?lhs"
    unfolding range_selector_def run rows by code_simp
  obtain out where out: "vector_vector_range_via_sql demo_env up_selector up_selector Ge False 0 20 = Inr out"
    unfolding vector_vector_range_via_sql_def by (simp add: demo_run_stmt)
  have texts: "label_texts_ok (qe_db demo_env)"
    by (simp add: label_texts_ok_def label_text_def demo_env_def demo_db_def)
  have "mset (concat (map rows_of_series out)) =
      mset (concat (map rows_of_series (apply_vector_vector_range (pe_powf (qe_prom demo_env)) ?lhs ?lhs Ge False)))"
    by (rule vector_range_pushdown_matches [OF lhs lhs out _ _ up_table(1) texts demo_ieee])
      (simp_all add: demo_reads_back)
  also have "apply_vector_vector_range (pe_powf (qe_prom demo_env)) ?lhs ?lhs Ge False = ?lhs" by code_simp
  also have "mset (concat (map rows_of_series ?lhs)) =
       {#\<lparr>row_metric = ''up'', row_labels = [(''job'', ''a'')], row_ts = 10, row_value = Num 1\<rparr>,
         \<lparr>row_metric = ''up'', row_labels = [(''job'', ''a'')], row_ts = 20, row_value = Num 2\<rparr>,
         \<lparr>row_metric = ''up'', row_labels = [(''job'', ''b'')], row_ts = 20, row_value = Num 5\<rparr>#}"
    by (simp add: rows_of_series_def)
  finally show ?thesis using out by blast
qed

end
