(* ===== verification/Metadata_Props.thy ===== *)
theory Metadata_Props
  imports Selector_Props
begin

text \<open>
  The metadata endpoints (\<open>src/src/prometheus.rs\<close>): label names and label values are the ones of the
  stored series, sorted and without duplicates, and the series endpoint lists each series once.
\<close>

section \<open>Names and values\<close>

lemma distinct_sorted_eq: "distinct_sorted xs = sorted_list_of_set (set xs)"
  unfolding distinct_sorted_def
proof (rule sorted_distinct_set_unique)
  let ?m = "bt_collect (map (\<lambda>x. (x, ())) xs)"
  have "fst ` set ?m = dom (map_of ?m)" by (simp add: dom_map_of_conv_image_fst)
  also have "\<dots> = set xs" by (auto simp: map_of_bt_collect dom_map_of_conv_image_fst image_image)
  finally show "set (map fst ?m) = set (sorted_list_of_set (set xs))" by simp
qed (use bt_wf_collect [of "map (\<lambda>x. (x, ())) xs"] in \<open>simp_all add: bt_wf_def strict_sorted_iff\<close>)

text \<open>
  (C31) With an engine that runs its statements, \<open>/labels\<close> answers \<open>__name__\<close> and every label name that
  occurs, and \<open>/label/{name}/values\<close> every value that the label has in some series, or every metric
  name; both sorted and each once.
\<close>

theorem metadata_endpoints_exact:
  assumes "qe_fault Q ''labels'' = None" "qe_fault Q ''label_values'' = None"
  shows "labels_endpoint Q = Inr (success_data (map JStr
      (sorted_list_of_set (insert ''__name__'' (\<Union>s \<in> set (db_series (qe_db Q)). fst ` set (st_labels s)))))) \<and>
    label_values Q name = Inr (success_data (map JStr (sorted_list_of_set
      (if name = ''__name__'' then st_metric ` set (db_series (qe_db Q))
       else {v. \<exists>s \<in> set (db_series (qe_db Q)). map_of (st_labels s) name = Some v}))))"
proof
  show "labels_endpoint Q = Inr (success_data (map JStr
      (sorted_list_of_set (insert ''__name__'' (\<Union>s \<in> set (db_series (qe_db Q)). fst ` set (st_labels s))))))"
    using assms(1) by (simp add: labels_endpoint_def run_meta_def distinct_sorted_eq)
  have "set (List.map_filter (\<lambda>s. map_of (st_labels s) name) ss) = {v. \<exists>s \<in> set ss. map_of (st_labels s) name = Some v}" for ss :: "series_tuple list"
    by (force simp: set_map_filter)
  then show "label_values Q name = Inr (success_data (map JStr (sorted_list_of_set
      (if name = ''__name__'' then st_metric ` set (db_series (qe_db Q))
       else {v. \<exists>s \<in> set (db_series (qe_db Q)). map_of (st_labels s) name = Some v}))))"
    using assms(2) by (simp add: label_values_def run_meta_def distinct_sorted_eq)
qed

theorem metadata_endpoints_exact_witness:
  "labels_endpoint demo_env = Inr (success_data [JStr ''__name__'', JStr ''job'']) \<and>
   label_values demo_env ''job'' = Inr (success_data [JStr ''a'', JStr ''b''])"
proof -
  have "{v. \<exists>s \<in> set (db_series demo_db). map_of (st_labels s) ''job'' = Some v} = {''a'', ''b''}"
    by (auto simp: demo_db_def)
  moreover have "sorted_list_of_set {''a'', ''b''} = [''a'', ''b'']" "sorted_list_of_set {''__name__'', ''job''} = [''__name__'', ''job'']"
    by (simp_all add: less_eq_char_def less_char_def)
  moreover have "(\<Union>s \<in> set (db_series demo_db). fst ` set (st_labels s)) = {''job''}" by (auto simp: demo_db_def)
  ultimately show ?thesis
    using metadata_endpoints_exact [of demo_env "''job''"] by (simp add: demo_env_def)
qed

section \<open>Series\<close>

text \<open>The series of one selector, or of several in turn: the first of each key, in order.\<close>

fun first_of_key :: "string set \<Rightarrow> (string \<times> labels) list \<Rightarrow> (string \<times> labels) list" where
  "first_of_key seen [] = []"
| "first_of_key seen (c # cs) =
     (if series_key (fst c) (snd c) \<in> seen then first_of_key seen cs
      else c # first_of_key (insert (series_key (fst c) (snd c)) seen) cs)"

abbreviation "candidate_key c \<equiv> series_key (fst c) (snd c)"

lemma add_series_first:
  "snd (add_series cs (seen, out)) = out @ map (\<lambda>c. series_metric_obj (fst c) (snd c)) (first_of_key (set seen) cs) \<and>
   set (fst (add_series cs (seen, out))) = set seen \<union> candidate_key ` set cs"
  by (induction cs "(seen, out)" arbitrary: seen out rule: add_series.induct) (auto simp: Let_def)

lemma first_of_key_append:
  "first_of_key seen (cs @ ds) = first_of_key seen cs @ first_of_key (seen \<union> candidate_key ` set cs) ds"
  by (induction seen cs rule: first_of_key.induct) (auto simp: insert_absorb Un_insert_right)

lemma first_of_key_set: "candidate_key ` set (first_of_key seen cs) = candidate_key ` set cs - seen"
  by (induction seen cs rule: first_of_key.induct) auto

lemma first_of_key_distinct: "distinct (map candidate_key (first_of_key seen cs))"
proof (induction seen cs rule: first_of_key.induct)
  case (2 seen c cs)
  have "candidate_key c \<notin> candidate_key ` set (first_of_key (insert (candidate_key c) seen) cs)"
    unfolding first_of_key_set by simp
  with 2 show ?case by auto
qed simp

definition candidates_of :: "query_env \<Rightarrow> string \<Rightarrow> (string \<times> labels) list" where
  "candidates_of Q q =
     (case pe_parse (qe_prom Q) q of
        Inl e \<Rightarrow> []
      | Inr expr \<Rightarrow> (case extract_selector expr of None \<Rightarrow> [] | Some sel \<Rightarrow> series_candidates (qe_db Q) sel))"

lemma series_loop_first:
  assumes "qe_fault Q ''series'' = None" "\<forall>q \<in> set qs. \<exists>e. pe_parse (qe_prom Q) q = Inr e"
  shows "series_loop Q qs (seen, out) =
    Inr (out @ map (\<lambda>c. series_metric_obj (fst c) (snd c)) (first_of_key (set seen) (concat (map (candidates_of Q) qs))))"
  using assms(2)
proof (induction qs arbitrary: seen out)
  case (Cons q qs)
  obtain e where e: "pe_parse (qe_prom Q) q = Inr e" using Cons.prems by auto
  show ?case
  proof (cases "extract_selector e")
    case None
    then show ?thesis using Cons e by (simp add: candidates_of_def)
  next
    case (Some sel)
    obtain seen' out' where a: "add_series (series_candidates (qe_db Q) sel) (seen, out) = (seen', out')"
      by (cases "add_series (series_candidates (qe_db Q) sel) (seen, out)")
    have "candidates_of Q q = series_candidates (qe_db Q) sel" using e Some by (simp add: candidates_of_def)
    then show ?thesis
      using Cons e Some assms(1) add_series_first [of "series_candidates (qe_db Q) sel" seen out]
      by (simp add: run_meta_def a first_of_key_append)
  qed
qed simp

text \<open>
  \<open>/series\<close> answers, for selectors that parse, one object for each key among the candidates of all of
  them, in the order in which the candidates come first.
\<close>

theorem series_endpoint_once:
  assumes "qe_fault Q ''series'' = None" "\<forall>q \<in> set (parse_series_matches form qs). \<exists>e. pe_parse (qe_prom Q) q = Inr e"
  shows "\<exists>cs. series_endpoint Q form (Some qs) = Inr (success_data (map (\<lambda>c. series_metric_obj (fst c) (snd c)) cs)) \<and>
    distinct (map candidate_key cs) \<and>
    candidate_key ` set cs = (\<Union>q \<in> set (parse_series_matches form qs). candidate_key ` set (candidates_of Q q))"
proof -
  let ?cs = "first_of_key {} (concat (map (candidates_of Q) (parse_series_matches form qs)))"
  have "series_endpoint Q form (Some qs) = Inr (success_data (map (\<lambda>c. series_metric_obj (fst c) (snd c)) ?cs))"
    using series_loop_first [OF assms, of "[]" "[]"]
    by (cases "parse_series_matches form qs") (simp_all add: series_endpoint_def Let_def del: series_loop.simps(2))
  moreover have "candidate_key ` set ?cs = (\<Union>q \<in> set (parse_series_matches form qs). candidate_key ` set (candidates_of Q q))"
    unfolding first_of_key_set by auto
  ultimately show ?thesis using first_of_key_distinct by blast
qed

end
