(* ===== verification/Evaluate_Types.thy ===== *)
theory Evaluate_Types
  imports Evaluate Selector_Props
begin

text \<open>
  The type invariant of the evaluators: every answer, on every path, carries its labels as a map does
  (sorted, one value per name), and no series of a range answer is empty.
\<close>

section \<open>The invariant\<close>

definition point_ok :: "instant_point \<Rightarrow> bool" where
  "point_ok p \<longleftrightarrow> bt_wf (ip_labels p)"

definition points_ok :: "range_points \<Rightarrow> bool" where
  "points_ok s \<longleftrightarrow> bt_wf (rp_labels s) \<and> rp_points s \<noteq> []"

definition all_in :: "('a \<Rightarrow> bool) \<Rightarrow> prom_error + 'a list \<Rightarrow> bool" where
  "all_in P r \<longleftrightarrow> (case r of Inl _ \<Rightarrow> True | Inr xs \<Rightarrow> (\<forall>x \<in> set xs. P x))"

definition side_in :: "('a \<Rightarrow> bool) \<Rightarrow> prom_error + 'a list side \<Rightarrow> bool" where
  "side_in P r \<longleftrightarrow> (case r of Inr (Vector xs) \<Rightarrow> (\<forall>x \<in> set xs. P x) | _ \<Rightarrow> True)"

lemma all_in_simps [simp]: "all_in P (Inl e)" "all_in P (Inr xs) \<longleftrightarrow> (\<forall>x \<in> set xs. P x)"
  by (simp_all add: all_in_def)

lemma side_in_simps [simp]:
  "side_in P (Inl e)" "side_in P (Inr (Scalar v))" "side_in P (Inr (Vector xs)) \<longleftrightarrow> (\<forall>x \<in> set xs. P x)"
  by (simp_all add: side_in_def)

lemma all_in_run [intro]: "(\<And>a b. \<forall>x \<in> set (f a b). P x) \<Longrightarrow> all_in P (run_stmt Q tag lo hi f)"
  by (auto simp: run_stmt_def split: option.split)

lemma all_in_evals [intro]:
  "(\<And>evals a b. \<forall>x \<in> set (f evals a b). P x) \<Longrightarrow> all_in P (with_evals Q tag r s e step f)"
  by (auto simp: with_evals_def split: option.split)

lemma side_in_map: "all_in P r \<Longrightarrow> side_in P (map_sum (\<lambda>err. err) Vector r)"
  by (cases r) simp_all

lemma all_in_map:
  "all_in P r \<Longrightarrow> (\<And>xs. \<forall>x \<in> set xs. P x \<Longrightarrow> \<forall>y \<in> set (g xs). R y) \<Longrightarrow>
     all_in R (case r of Inl err \<Rightarrow> Inl err | Inr xs \<Rightarrow> Inr (g xs))"
  by (cases r) simp_all

lemma all_in_both:
  assumes "side_in P l" "side_in P r" "\<And>x y. side_in P (Inr x) \<Longrightarrow> side_in P (Inr y) \<Longrightarrow> \<forall>z \<in> set (g x y). P z"
  shows "all_in P (case l of Inl err \<Rightarrow> Inl err | Inr x \<Rightarrow> (case r of Inl err \<Rightarrow> Inl err | Inr y \<Rightarrow> Inr (g x y)))"
  using assms by (cases l; cases r) simp_all

section \<open>Labels\<close>

lemma labels_to_btree_wf [intro, simp]: "bt_wf (labels_to_btree kvs)"
  by (simp add: labels_to_btree_def bt_wf_collect)

lemma retained_labels_wf: "bt_wf lbls \<Longrightarrow> bt_wf (retained_labels lbls modi)"
  by (auto simp: retained_labels_def bt_wf_filter split: option.splits label_modifier.splits)

lemma key_labels_wf: "bt_wf (key_labels ks vs)"
  by (simp add: key_labels_def bt_wf_collect)

lemma rep_labels_wf: "lbls \<in> set (rep_labels db ex sids) \<Longrightarrow> bt_wf lbls"
  by (auto simp: rep_labels_def drop_labels_def bt_wf_filter)

lemma rep_bucket_labels_wf: "lbls \<in> set (rep_bucket_labels db sids) \<Longrightarrow> bt_wf lbls"
  by (auto simp: rep_bucket_labels_def bt_wf_remove)

section \<open>Instant vectors\<close>

lemma selector_rows_wf: "r \<in> set (selector_rows db sel lo hi) \<Longrightarrow> bt_wf (row_labels r)"
  by (auto simp: selector_rows_def)

lemma instant_selector_ok: "all_in point_ok (instant_selector Q sel t)"
proof (cases "run_selector_query Q sel (i64_wrap (t - lookback_us)) t")
  case (Inr rows)
  then have wf: "\<forall>r \<in> set rows. bt_wf (row_labels r)"
    using selector_rows_wf by (fastforce simp: run_selector_query_def run_stmt_def split: option.splits)
  have "r \<in> set rows" if "(k, r) \<in> set (latest_of rows)" for k r
    using that latest_of_lookup [of rows k] by (simp add: bt_wf_mem [OF latest_of_wf])
  then have "\<forall>(k, r) \<in> set (foldl (\<lambda>m r. latest_insert r m) [] rows). bt_wf (row_labels r)"
    using wf by (auto simp: latest_of_def)
  then show ?thesis using Inr by (auto simp: instant_selector_def point_ok_def)
qed (simp add: instant_selector_def)

lemma nameless_ok [simp]: "point_ok (nameless lbls t v) \<longleftrightarrow> bt_wf lbls"
  by (simp add: point_ok_def nameless_def)

lemma decode_instant_ok: "\<forall>p \<in> set (decode_instant sel t rows). point_ok p"
  by (auto simp: decode_instant_def point_ok_def)

lemma decode_bin_instant_ok: "\<forall>p \<in> set (decode_bin_instant passes name t rows). point_ok p"
  by (auto simp: decode_bin_instant_def point_ok_def)

lemma instant_by_ok: "\<forall>p \<in> set (instant_by Q keep op ks t rows). point_ok p"
  by (auto simp: instant_by_def set_map_filter key_labels_wf)

lemma instant_without_ok: "\<forall>p \<in> set (instant_without Q keep op ex t rows). point_ok p"
  by (auto simp: instant_without_def dest: rep_labels_wf split: option.splits)

lemma instant_quantiles_ok: "\<forall>p \<in> set (instant_quantiles Q q t rates). point_ok p"
  by (auto simp: instant_quantiles_def dest: rep_bucket_labels_wf split: option.splits)

lemma aggregate_instant_ok:
  "\<forall>p \<in> set pts. point_ok p \<Longrightarrow> \<forall>p \<in> set (aggregate_instant_points pts op modi t). point_ok p"
  by (auto simp: aggregate_instant_points_def bt_group_mem point_ok_def retained_labels_wf)

lemma topk_instant_ok:
  "\<forall>p \<in> set pts. point_ok p \<Longrightarrow> \<forall>p \<in> set (topk_instant_points pts n tp modi). point_ok p"
  by (auto simp: topk_instant_points_def bt_group_mem dest!: in_set_takeD)

lemma histogram_instant_ok:
  "\<forall>p \<in> set pts. point_ok p \<Longrightarrow> \<forall>p \<in> set (histogram_quantile_instant pts q t). point_ok p"
  by (auto simp: histogram_quantile_instant_def Let_def set_map_filter bt_group_mem point_ok_def bt_wf_remove)

lemma combine_instant_ok:
  assumes "side_in point_ok (Inr l)" "side_in point_ok (Inr r)"
  shows "\<forall>p \<in> set (combine_instant Q op b l r). point_ok p"
  using assms
  by (cases l; cases r)
    (auto simp: combine_instant_def apply_scalar_vector_instant_def apply_vector_vector_instant_def Let_def
      set_map_filter point_ok_def split: option.splits)

lemmas instant_ok =
  instant_selector_ok decode_instant_ok decode_bin_instant_ok instant_by_ok instant_without_ok instant_quantiles_ok

lemma instant_statements_ok:
  "all_in point_ok (instant_range_fn_via_sql Q sel r op t)"
  "all_in point_ok (instant_aggregate_via_sql Q sel ag modi t)"
  "all_in point_ok (instant_aggregate_over_rangefn_via_sql Q sel r op ag modi t)"
  "all_in point_ok (instant_topk_via_sql Q sel n tp modi t)"
  "all_in point_ok (instant_topk_over_rangefn_via_sql Q sel r op n tp modi t)"
  "all_in point_ok (instant_histogram_quantile_via_sql Q sel r op q t)"
  "all_in point_ok (scalar_vector_instant_via_sql Q s sel bop b l t)"
  "all_in point_ok (vector_vector_instant_via_sql Q sel rsel bop b t)"
  unfolding instant_range_fn_via_sql_def
    instant_aggregate_via_sql_def instant_aggregate_without_via_sql_def
    instant_aggregate_over_rangefn_via_sql_def instant_aggregate_over_rangefn_without_via_sql_def
    instant_topk_via_sql_def instant_topk_without_via_sql_def
    instant_topk_over_rangefn_via_sql_def instant_topk_over_rangefn_without_via_sql_def
    instant_histogram_quantile_via_sql_def scalar_vector_instant_via_sql_def vector_vector_instant_via_sql_def
  by (auto simp: instant_ok split: option.split)

lemma evaluate_instant_ok:
  "all_in point_ok (evaluate_instant Q e t)"
  "all_in point_ok (binary_instant_eval Q lhs rhs op b t)"
  "side_in point_ok (eval_side_instant Q e t)"
proof (induction Q e t and Q lhs rhs op b t and Q e t rule: evaluate_instant_binary_instant_eval_eval_side_instant.induct)
  case (1 Q e t)
  then show ?case
    by (subst evaluate_instant.simps)
      (auto simp: instant_selector_ok instant_statements_ok split: option.split query_kind.split push_source.split
        intro!: all_in_map dest: aggregate_instant_ok topk_instant_ok histogram_instant_ok)
next
  case (2 Q lhs rhs op b t)
  show ?case
  proof (cases "scalar_vector_pair lhs rhs = None \<and> (pure_selector lhs = None \<or> pure_selector rhs = None)")
    case True
    have "side_in point_ok (eval_side_instant Q lhs t)"
      using "2.IH"(1) [OF _ refl] "2.IH"(3) [OF _ refl] True by (cases "pure_selector lhs") auto
    moreover have "side_in point_ok (eval_side_instant Q rhs t)" if "eval_side_instant Q lhs t = Inr l" for l
      using "2.IH"(2) [OF _ refl] "2.IH"(4) [OF _ refl] True that by (cases "pure_selector lhs") auto
    ultimately show ?thesis using True
      by (subst binary_instant_eval.simps)
        (cases "pure_selector lhs"; cases "eval_side_instant Q lhs t"; cases "eval_side_instant Q rhs t";
          simp add: combine_instant_ok)
  next
    case False
    then show ?thesis
      by (subst binary_instant_eval.simps) (auto simp: instant_statements_ok split: option.split)
  qed
next
  case (3 Q e t)
  then show ?case by (subst eval_side_instant.simps) (auto simp: side_in_map split: expr.split)
qed

section \<open>Range vectors\<close>

lemma series_of_group_ok:
  "(k, m, lbls, pts) \<in> set (group_rows_by_series rows) \<Longrightarrow> \<forall>r \<in> set rows. bt_wf (row_labels r) \<Longrightarrow>
     bt_wf lbls \<and> pts \<noteq> []"
proof -
  assume g: "(k, m, lbls, pts) \<in> set (group_rows_by_series rows)" and wf: "\<forall>r \<in> set rows. bt_wf (row_labels r)"
  obtain rs where rs: "(k, rs) \<in> set (bt_group (\<lambda>r. row_key r) (\<lambda>r. r) rows)" "(m, lbls, pts) = series_of_rows rs"
    using g unfolding group_rows_eq by auto
  have "rs \<noteq> []" using bt_group_nonempty [OF rs(1)] .
  moreover have "set rs \<subseteq> set rows" using rs(1) by (auto simp: bt_group_mem)
  ultimately have "hd rs \<in> set rows" using hd_in_set by blast
  then show ?thesis using rs(2) wf \<open>rs \<noteq> []\<close> by (simp add: series_of_rows_def)
qed

lemma collect_series_ok: "\<forall>r \<in> set rows. bt_wf (row_labels r) \<Longrightarrow> \<forall>s \<in> set (collect_series rows). points_ok s"
  by (auto simp: collect_series_def points_ok_def dest: series_of_group_ok)

lemma decode_range_ok: "\<forall>s \<in> set (decode_range sel rows). points_ok s"
  unfolding decode_range_def by (rule collect_series_ok) auto

lemma decode_bin_range_ok: "\<forall>s \<in> set (decode_bin_range passes name rows). points_ok s"
  unfolding decode_bin_range_def by (rule collect_series_ok) auto

lemma collect_groups_ok: "\<forall>r \<in> set rows. bt_wf (fst r) \<Longrightarrow> \<forall>s \<in> set (collect_groups rows). points_ok s"
  by (auto simp: collect_groups_def points_ok_def bt_group_mem filter_empty_conv)

lemma range_by_ok: "\<forall>s \<in> set (range_by Q keep op ks rows). points_ok s"
  unfolding range_by_def by (rule collect_groups_ok) (auto simp: set_map_filter key_labels_wf)

lemma range_without_ok: "\<forall>s \<in> set (range_without Q keep op ex rows). points_ok s"
  unfolding range_without_def by (rule collect_groups_ok) (auto dest: rep_labels_wf split: option.splits)

lemma range_quantiles_ok: "\<forall>s \<in> set (range_quantiles Q q evals rates). points_ok s"
  unfolding range_quantiles_def Let_def
  by (rule collect_groups_ok) (auto dest: rep_bucket_labels_wf split: option.splits)

lemma range_selector_ok: "all_in points_ok (range_selector Q sel lo hi)"
proof (cases "run_selector_query Q sel lo hi")
  case (Inr rows)
  then have "\<forall>r \<in> set rows. bt_wf (row_labels r)"
    using selector_rows_wf by (fastforce simp: run_selector_query_def run_stmt_def split: option.splits)
  then show ?thesis using Inr by (auto simp: range_selector_def points_ok_def dest: series_of_group_ok)
qed (simp add: range_selector_def)

lemma aggregate_range_ok:
  "\<forall>s \<in> set ss. points_ok s \<Longrightarrow> \<forall>s \<in> set (aggregate_range_points ss op modi). points_ok s"
  by (auto simp: aggregate_range_points_def aggregate_group_def Let_def bt_group_mem points_ok_def
      retained_labels_wf split: if_splits)

lemma histogram_range_ok:
  "\<forall>s \<in> set ss. points_ok s \<Longrightarrow> \<forall>s \<in> set (histogram_quantile_range ss q). points_ok s"
  by (auto simp: histogram_quantile_range_def histogram_group_def Let_def set_map_filter bt_group_mem
      points_ok_def bt_wf_remove split: if_splits)

definition emitted_ok :: "(string, range_points) btree \<Rightarrow> bool" where
  "emitted_ok out \<longleftrightarrow> bt_wf out \<and> (\<forall>s \<in> snd ` set out. points_ok s)"

lemma topk_emit_ok:
  assumes "emitted_ok out" "bt_wf (rp_labels (fst mv))"
  shows "emitted_ok (topk_emit ts mv out)"
proof -
  have out: "bt_wf out" "\<forall>p \<in> set out. points_ok (snd p)" using assms(1) by (simp_all add: emitted_ok_def)
  have "\<forall>p \<in> set (topk_emit ts mv out). points_ok (snd p)"
    unfolding topk_emit_def case_prod_unfold
    by (rule ball_bt_upd [OF out(1), where P = "\<lambda>_. points_ok"])
      (use out(2) assms(2) in \<open>auto simp: points_ok_def split: option.split dest!: map_of_SomeD\<close>)
  then show ?thesis using out(1) by (simp add: emitted_ok_def topk_emit_def bt_wf_upd case_prod_unfold)
qed

lemma topk_fold_ok:
  "\<forall>mv \<in> set ms. bt_wf (rp_labels (fst mv)) \<Longrightarrow> emitted_ok out \<Longrightarrow>
     emitted_ok (foldl (\<lambda>out mv. topk_emit ts mv out) out ms)"
proof (induction ms arbitrary: out)
  case (Cons mv ms)
  then have "emitted_ok (topk_emit ts mv out)" by (intro topk_emit_ok) simp_all
  then show ?case using Cons.IH [of "topk_emit ts mv out"] Cons.prems(1) by simp
qed simp

lemma topk_at_members: "(m, v) \<in> set (topk_at members n tp ts) \<Longrightarrow> m \<in> set members"
  by (auto simp: topk_at_def Let_def split: option.splits dest!: in_set_takeD)

lemma topk_range_ok:
  assumes "\<forall>s \<in> set ss. points_ok s"
  shows "\<forall>s \<in> set (topk_range_points ss n tp modi). points_ok s"
proof -
  have times: "emitted_ok (foldl (\<lambda>out ts. foldl (\<lambda>out mv. topk_emit ts mv out) out (topk_at members n tp ts)) out tss)"
    if "emitted_ok out" "\<forall>m \<in> set members. points_ok m" for out members tss
    using that
  proof (induction tss arbitrary: out)
    case (Cons ts tss)
    have "\<forall>mv \<in> set (topk_at members n tp ts). bt_wf (rp_labels (fst mv))"
      using Cons.prems(2) topk_at_members by (fastforce simp: points_ok_def)
    then have "emitted_ok (foldl (\<lambda>out mv. topk_emit ts mv out) out (topk_at members n tp ts))"
      using Cons.prems(1) by (rule topk_fold_ok)
    then show ?case using Cons.IH Cons.prems(2) by simp
  qed simp
  have groups: "emitted_ok (foldl (\<lambda>out g. topk_group n tp (snd g) out) out gs)"
    if "emitted_ok out" "\<forall>g \<in> set gs. \<forall>m \<in> set (snd g). points_ok m" for out and gs :: "(labels \<times> range_points list) list"
    using that
  proof (induction gs arbitrary: out)
    case (Cons g gs)
    have "emitted_ok (topk_group n tp (snd g) out)"
      unfolding topk_group_def using Cons.prems by (intro times) auto
    then show ?case using Cons.IH Cons.prems(2) by simp
  qed simp
  have "emitted_ok (foldl (\<lambda>out g. topk_group n tp (snd g) out) []
      (bt_group (\<lambda>p. retained_labels (rp_labels p) modi) (\<lambda>p. p) ss))"
    using assms by (intro groups) (auto simp: bt_group_mem emitted_ok_def)
  then show ?thesis by (auto simp: topk_range_points_def emitted_ok_def)
qed

lemma combine_range_ok:
  assumes "side_in points_ok (Inr l)" "side_in points_ok (Inr r)"
  shows "\<forall>s \<in> set (combine_range Q op b l r). points_ok s"
  using assms
  by (cases l; cases r)
    (auto simp: combine_range_def apply_scalar_vector_range_def apply_vector_vector_range_def Let_def
      set_map_filter points_ok_def split: option.splits if_splits)

lemmas range_ok =
  range_selector_ok decode_range_ok decode_bin_range_ok range_by_ok range_without_ok range_quantiles_ok

lemma range_statements_ok:
  "all_in points_ok (range_range_fn_via_sql Q sel r op s e step)"
  "all_in points_ok (range_aggregate_via_sql Q sel ag modi s e)"
  "all_in points_ok (range_aggregate_over_rangefn_via_sql Q sel r op ag modi s e step)"
  "all_in points_ok (range_topk_via_sql Q sel n tp modi s e)"
  "all_in points_ok (range_topk_over_rangefn_via_sql Q sel r op n tp modi s e step)"
  "all_in points_ok (range_histogram_quantile_via_sql Q sel r op q s e step)"
  "all_in points_ok (scalar_vector_range_via_sql Q sc sel bop b l s e)"
  "all_in points_ok (vector_vector_range_via_sql Q sel rsel bop b s e)"
  unfolding range_range_fn_via_sql_def
    range_aggregate_via_sql_def range_aggregate_without_via_sql_def
    range_aggregate_over_rangefn_via_sql_def range_aggregate_over_rangefn_without_via_sql_def
    range_topk_via_sql_def range_topk_without_via_sql_def
    range_topk_over_rangefn_via_sql_def range_topk_over_rangefn_without_via_sql_def
    range_histogram_quantile_via_sql_def scalar_vector_range_via_sql_def vector_vector_range_via_sql_def
  by (auto simp: range_ok split: option.split)

lemma evaluate_range_ok:
  "all_in points_ok (evaluate_range Q e s f step)"
  "all_in points_ok (binary_range_eval Q lhs rhs op b s f step)"
  "side_in points_ok (eval_side_range Q e s f step)"
proof (induction Q e s f step and Q lhs rhs op b s f step and Q e s f step
    rule: evaluate_range_binary_range_eval_eval_side_range.induct)
  case (1 Q e s f step)
  then show ?case
    by (subst evaluate_range.simps)
      (auto simp: range_selector_ok range_statements_ok split: option.split query_kind.split push_source.split
        intro!: all_in_map dest: aggregate_range_ok topk_range_ok histogram_range_ok)
next
  case (2 Q lhs rhs op b s f step)
  show ?case
  proof (cases "scalar_vector_pair lhs rhs = None \<and> (pure_selector lhs = None \<or> pure_selector rhs = None)")
    case True
    have "side_in points_ok (eval_side_range Q lhs s f step)"
      using "2.IH"(1) [OF _ refl] "2.IH"(3) [OF _ refl] True by (cases "pure_selector lhs") auto
    moreover have "side_in points_ok (eval_side_range Q rhs s f step)" if "eval_side_range Q lhs s f step = Inr l" for l
      using "2.IH"(2) [OF _ refl] "2.IH"(4) [OF _ refl] True that by (cases "pure_selector lhs") auto
    ultimately show ?thesis using True
      by (subst binary_range_eval.simps)
        (cases "pure_selector lhs"; cases "eval_side_range Q lhs s f step"; cases "eval_side_range Q rhs s f step";
          simp add: combine_range_ok)
  next
    case False
    then show ?thesis
      by (subst binary_range_eval.simps) (auto simp: range_statements_ok split: option.split)
  qed
next
  case (3 Q e s f step)
  then show ?case by (subst eval_side_range.simps) (auto simp: side_in_map split: expr.split)
qed

section \<open>Every answer\<close>

text \<open>
  (C23) Every answer is well formed, on every path a query can take: the labels of each point and of
  each series are a map, in order of their names and with one value per name, and a range answer has
  no series without points.
\<close>

theorem answers_well_formed:
  "(evaluate_instant Q e t = Inr pts \<longrightarrow> (\<forall>p \<in> set pts. bt_wf (ip_labels p))) \<and>
   (evaluate_range Q e start_us end_us step_us = Inr ss \<longrightarrow>
      (\<forall>s \<in> set ss. bt_wf (rp_labels s) \<and> rp_points s \<noteq> []))"
  using evaluate_instant_ok(1) [of Q e t] evaluate_range_ok(1) [of Q e start_us end_us step_us]
  by (auto simp: point_ok_def points_ok_def)

theorem answers_well_formed_witness:
  "\<exists>pts. evaluate_instant demo_env (EVector demo_selector) lookback_us = Inr pts \<and>
     (\<forall>p \<in> set pts. bt_wf (ip_labels p))"
proof -
  have "\<exists>pts. evaluate_instant demo_env (EVector demo_selector) lookback_us = Inr pts"
    by (simp add: evaluate_instant.simps detect_query_kind_def instant_selector_def run_selector_query_def
        run_stmt_def demo_env_def demo_prom_def)
  then show ?thesis using answers_well_formed by blast
qed

end
