(* ===== verification/Startup.thy ===== *)
theory Startup
  imports Prom_Params Tables Wal
begin

text \<open>
  The command line and the access check: \<open>Args::parse\<close> (\<open>src/src/main.rs\<close>), the routes of the server,
  and \<open>require_bearer_token\<close> (\<open>src/src/auth.rs\<close>).

  \<open>addr\<close> stands for the standard library's socket address parser.
\<close>

section \<open>Arguments\<close>

record args =
  ar_wal_dir :: string
  ar_bind :: string
  ar_flush_interval_secs :: nat
  ar_shutdown_timeout_secs :: nat
  ar_catalog :: catalog_config
  ar_aws_region :: "string option"
  ar_api_token :: "string option"
  ar_query_timeout_secs :: nat
  ar_max_concurrent_queries :: nat
  ar_query_memory_limit_bytes :: nat

text \<open>The local variables of \<open>parse\<close>.\<close>

record arg_vars =
  av_wal_dir :: string
  av_bind :: string
  av_flush_interval_secs :: nat
  av_shutdown_timeout_secs :: nat
  av_query_timeout_secs :: nat
  av_max_concurrent_queries :: nat
  av_query_memory_limit_mb :: nat
  av_catalog_kind :: string
  av_warehouse_uri :: string
  av_table_bucket_arn :: "string option"
  av_s3tables_endpoint :: "string option"
  av_aws_region :: "string option"
  av_api_token_arg :: "string option"

definition arg_defaults :: arg_vars where
  "arg_defaults =
     \<lparr>av_wal_dir = ''data/wal'', av_bind = ''127.0.0.1:8080'', av_flush_interval_secs = 300,
      av_shutdown_timeout_secs = 30, av_query_timeout_secs = 30, av_max_concurrent_queries = 64,
      av_query_memory_limit_mb = 1024, av_catalog_kind = ''memory'', av_warehouse_uri = ''memory:///warehouse'',
      av_table_bucket_arn = None, av_s3tables_endpoint = None, av_aws_region = None, av_api_token_arg = None\<rparr>"

definition set_number :: "(nat \<Rightarrow> arg_vars) \<Rightarrow> string \<Rightarrow> arg_vars may_panic" where
  "set_number upd v = (case parse_u64 v of Some n \<Rightarrow> Returns (upd n) | None \<Rightarrow> Panicked)"

text \<open>One key with its value; an unknown key is warned about and skipped with its value.\<close>

definition set_arg :: "(string \<Rightarrow> bool) \<Rightarrow> string \<Rightarrow> string \<Rightarrow> arg_vars \<Rightarrow> arg_vars may_panic" where
  "set_arg addr k v a =
     (if k = ''--wal-dir'' then Returns (a\<lparr>av_wal_dir := v\<rparr>)
      else if k = ''--bind'' then (if addr v then Returns (a\<lparr>av_bind := v\<rparr>) else Panicked)
      else if k = ''--flush-interval-secs'' then set_number (\<lambda>n. a\<lparr>av_flush_interval_secs := n\<rparr>) v
      else if k = ''--shutdown-timeout-secs'' then set_number (\<lambda>n. a\<lparr>av_shutdown_timeout_secs := n\<rparr>) v
      else if k = ''--query-timeout-secs'' then set_number (\<lambda>n. a\<lparr>av_query_timeout_secs := n\<rparr>) v
      else if k = ''--max-concurrent-queries'' then set_number (\<lambda>n. a\<lparr>av_max_concurrent_queries := n\<rparr>) v
      else if k = ''--query-memory-limit-mb'' then set_number (\<lambda>n. a\<lparr>av_query_memory_limit_mb := n\<rparr>) v
      else if k = ''--catalog'' then Returns (a\<lparr>av_catalog_kind := v\<rparr>)
      else if k = ''--warehouse-uri'' then Returns (a\<lparr>av_warehouse_uri := v\<rparr>)
      else if k = ''--table-bucket-arn'' then Returns (a\<lparr>av_table_bucket_arn := Some v\<rparr>)
      else if k = ''--s3tables-endpoint'' then Returns (a\<lparr>av_s3tables_endpoint := Some v\<rparr>)
      else if k = ''--aws-region'' then Returns (a\<lparr>av_aws_region := Some v\<rparr>)
      else if k = ''--api-token'' then Returns (a\<lparr>av_api_token_arg := Some v\<rparr>)
      else Returns a)"

fun arg_loop :: "(string \<Rightarrow> bool) \<Rightarrow> string list \<Rightarrow> arg_vars \<Rightarrow> arg_vars may_panic" where
  "arg_loop addr [] a = Returns a"
| "arg_loop addr [k] a = set_arg addr k [] a"
| "arg_loop addr (k # v # rest) a =
     (case set_arg addr k v a of Panicked \<Rightarrow> Panicked | Returns a' \<Rightarrow> arg_loop addr rest a')"

definition parse_catalog :: "arg_vars \<Rightarrow> string + catalog_config" where
  "parse_catalog a =
     (if av_catalog_kind a = ''memory'' then Inr (Memory (av_warehouse_uri a))
      else if av_catalog_kind a = ''s3tables'' then
        (case av_table_bucket_arn a of
           None \<Rightarrow> Inl ''--catalog s3tables requires --table-bucket-arn''
         | Some arn \<Rightarrow> Inr (S3Tables arn (av_s3tables_endpoint a)))
      else Inl (''--catalog must be 'memory' or 's3tables' (got '' @ av_catalog_kind a @ '')''))"

text \<open>The flag if it is there, else the environment variable; then an empty token is none.\<close>

definition resolve_token :: "string option \<Rightarrow> string option \<Rightarrow> string option" where
  "resolve_token arg env =
     (case (case arg of Some t \<Rightarrow> Some t | None \<Rightarrow> env) of
        Some t \<Rightarrow> if t = [] then None else Some t
      | None \<Rightarrow> None)"

definition finish_args :: "string option \<Rightarrow> arg_vars \<Rightarrow> (string + args) may_panic" where
  "finish_args env_token a =
     (case parse_catalog a of
        Inl e \<Rightarrow> Returns (Inl e)
      | Inr catalog \<Rightarrow>
          (let bytes = av_query_memory_limit_mb a * (1024 * 1024) in
           if 2 ^ 64 \<le> bytes then Panicked
           else if av_max_concurrent_queries a = 0 then Returns (Inl ''--max-concurrent-queries must be > 0'')
           else if bytes = 0 then Returns (Inl ''--query-memory-limit-mb must be > 0'')
           else Returns (Inr
             \<lparr>ar_wal_dir = av_wal_dir a, ar_bind = av_bind a,
              ar_flush_interval_secs = av_flush_interval_secs a,
              ar_shutdown_timeout_secs = av_shutdown_timeout_secs a, ar_catalog = catalog,
              ar_aws_region = av_aws_region a, ar_api_token = resolve_token (av_api_token_arg a) env_token,
              ar_query_timeout_secs = av_query_timeout_secs a,
              ar_max_concurrent_queries = av_max_concurrent_queries a,
              ar_query_memory_limit_bytes = bytes\<rparr>)))"

definition parse_args :: "(string \<Rightarrow> bool) \<Rightarrow> string option \<Rightarrow> string list \<Rightarrow> (string + args) may_panic" where
  "parse_args addr env_token argv =
     (case arg_loop addr argv arg_defaults of Panicked \<Rightarrow> Panicked | Returns a \<Rightarrow> finish_args env_token a)"

text \<open>\<open>--aws-region\<close> is exported before the SDK starts, over whatever the variable held.\<close>

definition export_region :: "string option \<Rightarrow> (string \<rightharpoonup> string) \<Rightarrow> (string \<rightharpoonup> string)" where
  "export_region region env = (case region of Some r \<Rightarrow> env(''AWS_REGION'' \<mapsto> r) | None \<Rightarrow> env)"

section \<open>Access\<close>

datatype gate = Pass | Unauthorized401

text \<open>\<open>HeaderValue::to_str\<close> answers for visible ASCII and tabs only.\<close>

definition header_text :: "string \<Rightarrow> string option" where
  "header_text h =
     (if list_all (\<lambda>c. let n = (of_char c :: nat) in n = 9 \<or> 32 \<le> n \<and> n < 127) h then Some h else None)"

definition require_bearer_token :: "string option \<Rightarrow> (string \<times> string) list \<Rightarrow> gate" where
  "require_bearer_token expected headers =
     (case expected of
        None \<Rightarrow> Pass
      | Some expected_token \<Rightarrow>
          (case Option.bind (Option.bind (map_of headers ''authorization'') header_text) (strip_prefix ''Bearer '') of
             Some token \<Rightarrow> if token = expected_token then Pass else Unauthorized401
           | None \<Rightarrow> Unauthorized401))"

text \<open>The routes under \<open>api_v1\<close> carry the layer; \<open>/healthz\<close> and \<open>/metrics\<close> do not.\<close>

datatype route =
    R_healthz | R_metrics
  | R_sql | R_ingest | R_write | R_query | R_query_range | R_labels | R_label_values string | R_series

definition is_api_v1 :: "route \<Rightarrow> bool" where
  "is_api_v1 r \<longleftrightarrow> r \<noteq> R_healthz \<and> r \<noteq> R_metrics"

definition admit :: "args \<Rightarrow> route \<Rightarrow> (string \<times> string) list \<Rightarrow> gate" where
  "admit a r headers = (if is_api_v1 r then require_bearer_token (ar_api_token a) headers else Pass)"

section \<open>What a started server guarantees\<close>

lemma finish_args_ok:
  "finish_args env a = Returns (Inr r) \<Longrightarrow>
     0 < ar_max_concurrent_queries r \<and> 0 < ar_query_memory_limit_bytes r \<and> ar_query_memory_limit_bytes r < 2 ^ 64 \<and>
     ar_api_token r = resolve_token (av_api_token_arg a) env \<and>
     parse_catalog a = Inr (ar_catalog r)"
  by (auto simp: finish_args_def Let_def split: sum.splits if_splits)

lemma set_arg_api_token [simp]: "set_arg addr ''--api-token'' v a = Returns (a\<lparr>av_api_token_arg := Some v\<rparr>)"
  by (simp add: set_arg_def)

lemma set_arg_catalog [simp]: "set_arg addr ''--catalog'' v a = Returns (a\<lparr>av_catalog_kind := v\<rparr>)"
  by (simp add: set_arg_def)

lemma arg_loop_last:
  "even (length argv) \<Longrightarrow> arg_loop addr (argv @ [''--api-token'', v]) a = Returns a' \<Longrightarrow> av_api_token_arg a' = Some v"
  by (induction addr argv a rule: arg_loop.induct) (auto split: may_panic.splits)

lemma resolve_token_nonempty: "resolve_token arg env \<noteq> Some []"
  by (auto simp: resolve_token_def split: option.splits)

lemma header_text_Some: "header_text h = Some g \<longleftrightarrow> g = h \<and> header_text h = Some h"
  by (auto simp: header_text_def)

lemma require_bearer_token_pass:
  "require_bearer_token (Some t) headers = Pass \<longleftrightarrow>
     map_of headers ''authorization'' = Some (''Bearer '' @ t) \<and>
     header_text (''Bearer '' @ t) = Some (''Bearer '' @ t)"
proof (cases "map_of headers ''authorization''")
  case (Some h)
  show ?thesis
  proof (cases "header_text h")
    case None
    then show ?thesis using Some by (auto simp: require_bearer_token_def)
  next
    case (Some g)
    then have "g = h" "header_text h = Some h" using header_text_Some by blast+
    then have "require_bearer_token (Some t) headers = Pass \<longleftrightarrow> strip_prefix ''Bearer '' h = Some t"
      using \<open>map_of _ _ = _\<close> by (simp add: require_bearer_token_def split: option.splits)
    with \<open>header_text h = Some h\<close> \<open>map_of _ _ = _\<close> show ?thesis by (auto simp: strip_prefix_Some)
  qed
qed (simp add: require_bearer_token_def)

text \<open>
  (C32) A server that starts either has no token, and then serves everyone, or has a non-empty one, and
  then a request to any route under \<open>/api/v1\<close> gets through exactly when its \<open>Authorization\<close> header
  is \<open>Bearer\<close>, one space and that token, all of it visible ASCII; \<open>/healthz\<close> and \<open>/metrics\<close> are
  always served.
\<close>

theorem access_is_guarded:
  assumes "parse_args addr env argv = Returns (Inr a)"
  shows "ar_api_token a \<noteq> Some [] \<and>
    (admit a r headers = Pass \<longleftrightarrow>
       \<not> is_api_v1 r \<or> ar_api_token a = None \<or>
       (\<exists>t. ar_api_token a = Some t \<and> map_of headers ''authorization'' = Some (''Bearer '' @ t) \<and>
            header_text (''Bearer '' @ t) = Some (''Bearer '' @ t)))"
proof -
  obtain v where "arg_loop addr argv arg_defaults = Returns v" "finish_args env v = Returns (Inr a)"
    using assms by (auto simp: parse_args_def split: may_panic.splits)
  then have "ar_api_token a \<noteq> Some []"
    using finish_args_ok resolve_token_nonempty by metis
  moreover have "require_bearer_token None headers = Pass" by (simp add: require_bearer_token_def)
  ultimately show ?thesis
    by (cases "ar_api_token a") (auto simp: admit_def require_bearer_token_pass)
qed

theorem access_is_guarded_witness:
  "\<exists>a. parse_args (\<lambda>_. True) (Some ''s3cret'') [''--catalog'', ''memory''] = Returns (Inr a) \<and>
     admit a R_sql [(''authorization'', ''Bearer guess'')] = Unauthorized401"
proof -
  obtain a where a: "parse_args (\<lambda>_. True) (Some ''s3cret'') [''--catalog'', ''memory''] = Returns (Inr a)"
    "ar_api_token a = Some ''s3cret''"
    by (simp add: parse_args_def arg_defaults_def finish_args_def parse_catalog_def resolve_token_def)
  have "admit a R_sql [(''authorization'', ''Bearer guess'')] \<noteq> Pass"
    using access_is_guarded [OF a(1), of R_sql "[(''authorization'', ''Bearer guess'')]"] a(2)
    by (simp add: is_api_v1_def)
  then have "admit a R_sql [(''authorization'', ''Bearer guess'')] = Unauthorized401"
    by (cases "admit a R_sql [(''authorization'', ''Bearer guess'')]") simp_all
  with a(1) show ?thesis by blast
qed

text \<open>
  An empty \<open>--api-token\<close> at the end of the command line (one without a value is the same)
  switches access control off, also when \<open>SKALDBERG_API_TOKEN\<close> holds a token: the flag is preferred
  to the variable before the empty string is taken as unset.
\<close>

theorem empty_flag_disables_auth:
  assumes "parse_args addr env (argv @ [''--api-token'', []]) = Returns (Inr a)" "even (length argv)"
  shows "ar_api_token a = None \<and> admit a r headers = Pass"
proof -
  obtain v where "arg_loop addr (argv @ [''--api-token'', []]) arg_defaults = Returns v"
    and fin: "finish_args env v = Returns (Inr a)"
    using assms(1) by (auto simp: parse_args_def split: may_panic.splits)
  then have "av_api_token_arg v = Some []" using arg_loop_last [OF assms(2)] by blast
  then have "ar_api_token a = None" using finish_args_ok [OF fin] by (simp add: resolve_token_def)
  then show ?thesis by (simp add: admit_def require_bearer_token_def)
qed

theorem empty_flag_disables_auth_witness:
  "\<exists>a. parse_args (\<lambda>_. True) (Some ''s3cret'') [''--api-token'', []] = Returns (Inr a) \<and> admit a R_sql [] = Pass"
proof -
  obtain a where a: "parse_args (\<lambda>_. True) (Some ''s3cret'') ([] @ [''--api-token'', []]) = Returns (Inr a)"
    by (simp add: parse_args_def set_arg_api_token arg_defaults_def finish_args_def parse_catalog_def)
  then have "admit a R_sql [] = Pass" using empty_flag_disables_auth [OF a] by simp
  with a show ?thesis by auto
qed

end
