(* ===== verification/Convert.thy ===== *)
theory Convert
  imports Prom_Params
begin

text \<open>
  Arrow cells to JSON (\<open>src/src/convert.rs\<close>): the rows of the SQL endpoint's answer.

  A cell is its value with its Arrow type; an array is the list of its cells. What \<open>chrono\<close> and
  \<open>serde_json\<close> print is in \<open>convert_env\<close>.
\<close>

section \<open>Cells\<close>

datatype time_unit = Second | Millisecond | Microsecond | Nanosecond

datatype cell =
    CNull
  | CBoolean bool
  | CSigned int
  | CUnsigned nat
  | CFloat f64
  | CUtf8 string
  | CTimestamp time_unit int
  | CDate32 int
  | CMap "(cell \<times> cell) list"
  | CList "cell list"
  | CStruct "(string \<times> cell) list"
  | COther string

text \<open>
  \<open>ce_timestamp s ns\<close> formats the instant, if it is in \<open>chrono\<close>'s range; \<open>ce_date\<close> a number of days;
  \<open>ce_text\<close> is \<open>Value::to_string\<close>.
\<close>

record convert_env =
  ce_timestamp :: "int \<Rightarrow> int \<Rightarrow> string option"
  ce_date :: "int \<Rightarrow> string option"
  ce_text :: "json \<Rightarrow> string"

section \<open>Numbers and times\<close>

definition num_f64 :: "f64 \<Rightarrow> json" where
  "num_f64 v =
     (if is_finite v then JNum v
      else if is_nan v then JStr ''NaN''
      else if f64_gt v (Num 0) then JStr ''Infinity''
      else JStr ''-Infinity'')"

text \<open>Rust's \<open>/\<close> rounds towards zero, \<open>rem_euclid\<close> is never negative.\<close>

definition quot_i64 :: "int \<Rightarrow> int \<Rightarrow> int" where
  "quot_i64 v n = (if v < 0 then - ((- v) div n) else v div n)"

fun split_timestamp :: "time_unit \<Rightarrow> int \<Rightarrow> int \<times> int" where
  "split_timestamp Second v = (v, 0)"
| "split_timestamp Millisecond v = (quot_i64 v 1000, (v mod 1000) * 1000000)"
| "split_timestamp Microsecond v = (quot_i64 v 1000000, (v mod 1000000) * 1000)"
| "split_timestamp Nanosecond v = (quot_i64 v 1000000000, v mod 1000000000)"

definition timestamp_json :: "convert_env \<Rightarrow> time_unit \<Rightarrow> int \<Rightarrow> json" where
  "timestamp_json E unit v =
     (let (s, ns) = split_timestamp unit v in
      case ce_timestamp E s ns of Some t \<Rightarrow> JStr t | None \<Rightarrow> JStr (''ts_oor:'' @ dec_of_int s))"

definition date_json :: "convert_env \<Rightarrow> int \<Rightarrow> json" where
  "date_json E d = (case ce_date E d of Some t \<Rightarrow> JStr t | None \<Rightarrow> JStr (''date32_oor:'' @ dec_of_int d))"

section \<open>Cells to JSON\<close>

definition key_text :: "convert_env \<Rightarrow> cell \<Rightarrow> json \<Rightarrow> string" where
  "key_text E k j = (case k of CUtf8 s \<Rightarrow> s | _ \<Rightarrow> (case j of JStr s \<Rightarrow> s | other \<Rightarrow> ce_text E other))"

fun array_cell_to_json :: "convert_env \<Rightarrow> cell \<Rightarrow> json" where
  "array_cell_to_json E CNull = JNull"
| "array_cell_to_json E (CBoolean b) = JBool b"
| "array_cell_to_json E (CSigned n) = JInt n"
| "array_cell_to_json E (CUnsigned n) = JInt (int n)"
| "array_cell_to_json E (CFloat v) = num_f64 v"
| "array_cell_to_json E (CUtf8 s) = JStr s"
| "array_cell_to_json E (CTimestamp unit v) = timestamp_json E unit v"
| "array_cell_to_json E (CDate32 d) = date_json E d"
| "array_cell_to_json E (CMap kvs) =
     json_obj (map (\<lambda>(k, v). (key_text E k (array_cell_to_json E k), array_cell_to_json E v))
       (filter (\<lambda>(k, v). k \<noteq> CNull) kvs))"
| "array_cell_to_json E (CList vs) = JArr (map (array_cell_to_json E) vs)"
| "array_cell_to_json E (CStruct fs) = json_obj (map (\<lambda>(n, v). (n, array_cell_to_json E v)) fs)"
| "array_cell_to_json E (COther t) = JStr (''unsupported:'' @ t)"

text \<open>A batch: its columns, each with its name and its cells.\<close>

record cell_batch =
  cb_rows :: nat
  cb_columns :: "(string \<times> cell list) list"

definition record_batches_to_json_rows :: "convert_env \<Rightarrow> cell_batch list \<Rightarrow> json list" where
  "record_batches_to_json_rows E batches =
     concat (map (\<lambda>b. map (\<lambda>r. json_obj (map (\<lambda>(n, col). (n, array_cell_to_json E (col ! r))) (cb_columns b)))
       [0..<cb_rows b]) batches)"

section \<open>Timestamps\<close>

definition unit_ns :: "time_unit \<Rightarrow> int" where
  "unit_ns u = (case u of Second \<Rightarrow> 1000000000 | Millisecond \<Rightarrow> 1000000 | Microsecond \<Rightarrow> 1000 | Nanosecond \<Rightarrow> 1)"

lemma quot_mod:
  assumes "0 < n"
  shows "quot_i64 v n * n + v mod n = v + (if v < 0 \<and> \<not> n dvd v then n else 0)"
proof (cases "v < 0 \<and> \<not> n dvd v")
  case True
  then have "(- v) mod n = n - v mod n"
    using assms by (simp add: zmod_zminus1_eq_if dvd_eq_mod_eq_0)
  moreover have "(- v) div n * n = - v - (- v) mod n" by (simp add: minus_mod_eq_div_mult)
  ultimately show ?thesis using True by (simp add: quot_i64_def)
next
  case False
  show ?thesis
  proof (cases "v < 0")
    case True
    with False have "n dvd v" by simp
    then show ?thesis using True by (auto simp: quot_i64_def dvd_eq_mod_eq_0 [symmetric])
  next
    case nonneg: False
    then show ?thesis by (simp add: quot_i64_def)
  qed
qed

text \<open>
  A timestamp is split into seconds and nanoseconds exactly when it is not before the epoch or is a
  whole number of seconds; any other time before the epoch is shown exactly one second late, because
  the quotient is rounded towards zero and the remainder is not.
\<close>

theorem timestamp_split:
  assumes "split_timestamp u v = (s, ns)"
  shows "s * 1000000000 + ns =
      v * unit_ns u + (if v < 0 \<and> \<not> 1000000000 dvd v * unit_ns u then 1000000000 else 0) \<and>
    0 \<le> ns \<and> ns < 1000000000"
proof (cases u)
  case Millisecond
  then have "\<not> 1000000000 dvd v * 1000000 \<longleftrightarrow> \<not> 1000 dvd v"
    using dvd_mult_cancel_right [of 1000 "1000000 :: int" v] by simp
  then show ?thesis using assms Millisecond quot_mod [of 1000 v] by (auto simp: unit_ns_def)
next
  case Microsecond
  then have "\<not> 1000000000 dvd v * 1000 \<longleftrightarrow> \<not> 1000000 dvd v"
    using dvd_mult_cancel_right [of 1000000 "1000 :: int" v] by simp
  then show ?thesis using assms Microsecond quot_mod [of 1000000 v] by (auto simp: unit_ns_def)
next
  case Nanosecond
  then show ?thesis using assms quot_mod [of 1000000000 v] by (auto simp: unit_ns_def)
qed (use assms in \<open>auto simp: unit_ns_def\<close>)

theorem timestamp_split_witness:
  "split_timestamp Microsecond (- 500000) = (0, 500000000) \<and> 0 * 1000000000 + 500000000 = - 500000 * unit_ns Microsecond + (1000000000 :: int)"
proof
  show eq: "split_timestamp Microsecond (- 500000) = (0, 500000000)" by (simp add: quot_i64_def)
  have "\<not> (1000000000 :: int) dvd - 500000 * unit_ns Microsecond" by (simp add: unit_ns_def)
  with timestamp_split [OF eq]
  show "0 * 1000000000 + 500000000 = - 500000 * unit_ns Microsecond + (1000000000 :: int)" by simp
qed

section \<open>JSON\<close>

text \<open>What \<open>serde_json\<close> can write: finite numbers, and objects with one value per key.\<close>

fun json_ok :: "json \<Rightarrow> bool" where
  "json_ok (JNum v) = is_finite v"
| "json_ok (JArr js) = list_all json_ok js"
| "json_ok (JObj kvs) = (bt_wf kvs \<and> list_all (\<lambda>kv. json_ok (snd kv)) kvs)"
| "json_ok _ = True"

lemma json_obj_ok: "\<forall>kv \<in> set kvs. json_ok (snd kv) \<Longrightarrow> json_ok (json_obj kvs)"
proof -
  assume ok: "\<forall>kv \<in> set kvs. json_ok (snd kv)"
  have "json_ok j" if "(k, j) \<in> set (bt_collect kvs)" for k j
  proof -
    have "map_of (bt_collect kvs) k = Some j" using that by (simp add: bt_wf_mem [OF bt_wf_collect])
    then have "(k, j) \<in> set kvs" by (auto simp: map_of_bt_collect dest!: map_of_SomeD)
    with ok show ?thesis by fastforce
  qed
  then show ?thesis by (auto simp: json_obj_def bt_wf_collect list_all_iff)
qed

text \<open>
  Every cell becomes JSON that can be written: a NaN or an infinity becomes a string, never a
  number, and an object has one value per key. A map of strings with its keys in order, as the labels
  column holds it, becomes the object with exactly its keys and values.
\<close>

theorem cells_to_json:
  "json_ok (array_cell_to_json E c) \<and>
   (bt_wf lbls \<longrightarrow> array_cell_to_json E (CMap (map (\<lambda>(k, v). (CUtf8 k, CUtf8 v)) lbls)) =
      JObj (map (\<lambda>(k, v). (k, JStr v)) lbls))"
proof
  show "json_ok (array_cell_to_json E c)"
  proof (induction E c rule: array_cell_to_json.induct)
    case (9 E kvs)
    then show ?case by (auto intro!: json_obj_ok)
  next
    case (11 E fs)
    then show ?case by (auto intro!: json_obj_ok)
  qed (auto simp: num_f64_def timestamp_json_def date_json_def list_all_iff Let_def split: option.split prod.split)
  have "filter (\<lambda>(k, v). k \<noteq> CNull) (map (\<lambda>(k, v). (CUtf8 k, CUtf8 v)) xs) = map (\<lambda>(k, v). (CUtf8 k, CUtf8 v)) xs" for xs
    by (induction xs) auto
  then have "array_cell_to_json E (CMap (map (\<lambda>(k, v). (CUtf8 k, CUtf8 v)) lbls)) =
      json_obj (map (\<lambda>(k, v). (k, JStr v)) lbls)"
    by (simp add: comp_def case_prod_unfold key_text_def)
  moreover have "bt_collect (map (\<lambda>(k, v). (k, JStr v)) lbls) = map (\<lambda>(k, v). (k, JStr v)) lbls" if "bt_wf lbls"
    using that by (intro bt_collect_id bt_wf_map_snd)
  ultimately show "bt_wf lbls \<longrightarrow> array_cell_to_json E (CMap (map (\<lambda>(k, v). (CUtf8 k, CUtf8 v)) lbls)) =
      JObj (map (\<lambda>(k, v). (k, JStr v)) lbls)" by (simp add: json_obj_def)
qed

theorem cells_to_json_witness:
  "json_ok (array_cell_to_json E (CFloat NaN)) \<and>
   array_cell_to_json E (CMap [(CUtf8 ''job'', CUtf8 ''a''), (CUtf8 ''zone'', CUtf8 ''b'')]) =
     JObj [(''job'', JStr ''a''), (''zone'', JStr ''b'')]"
proof -
  have "bt_wf [(''job'', ''a''), (''zone'', ''b'')]" by code_simp
  with cells_to_json [of E "CFloat NaN" "[(''job'', ''a''), (''zone'', ''b'')]"] show ?thesis by simp
qed

end
