(* ===== verification/S3_Storage.thy ===== *)
theory S3_Storage
  imports Wal_Format "HOL-Library.Sublist" "HOL-Library.AList"
begin

text \<open>
  The storage of table files on S3 (\<open>src/src/aws_s3_storage.rs\<close>).

  The AWS client is the parameter \<open>s3_client\<close>, over a type of service states; \<open>documented_s3\<close> and
  \<open>lists_pages\<close> say what S3 documents of it. The loop of \<open>delete_prefix\<close> follows the service's paging
  and ends only if that does, so it is a partial function.
\<close>

section \<open>The client\<close>

record sdk_error =
  se_not_found :: bool
  se_text :: string
  se_service_text :: string

datatype head_result = HeadOk "int option" | HeadFails sdk_error

datatype get_result = GetOk bytes | GetFails string | BodyFails string

record list_page =
  lp_keys :: "string option list"
  lp_truncated :: "bool option"
  lp_next :: "string option"

record 's s3_client =
  s3_head :: "'s \<Rightarrow> string \<Rightarrow> string \<Rightarrow> head_result"
  s3_get :: "'s \<Rightarrow> string \<Rightarrow> string \<Rightarrow> string option \<Rightarrow> get_result"
  s3_put :: "'s \<Rightarrow> string \<Rightarrow> string \<Rightarrow> bytes \<Rightarrow> string option \<times> 's"
  s3_delete :: "'s \<Rightarrow> string \<Rightarrow> string \<Rightarrow> string option \<times> 's"
  s3_list :: "'s \<Rightarrow> string \<Rightarrow> string \<Rightarrow> string option \<Rightarrow> string + list_page"

section \<open>Paths and errors\<close>

datatype error_kind = DataInvalid | Unexpected

record io_error =
  ie_kind :: error_kind
  ie_msg :: string

definition unexpected :: "string \<Rightarrow> string \<Rightarrow> io_error" where
  "unexpected ctx err = \<lparr>ie_kind = Unexpected, ie_msg = ctx @ '': '' @ err\<rparr>"

definition invalid :: "string \<Rightarrow> io_error" where
  "invalid msg = \<lparr>ie_kind = DataInvalid, ie_msg = msg\<rparr>"

definition split_once :: "char \<Rightarrow> string \<Rightarrow> (string \<times> string) option" where
  "split_once c s =
     (if c \<in> set s then Some (takeWhile (\<lambda>x. x \<noteq> c) s, tl (dropWhile (\<lambda>x. x \<noteq> c) s)) else None)"

definition parse_s3_path :: "string \<Rightarrow> io_error + string \<times> string" where
  "parse_s3_path path =
     (case strip_prefix ''s3://'' path of
        None \<Rightarrow> Inl (invalid (''expected an s3:// URL, got '' @ path))
      | Some stripped \<Rightarrow>
          (case split_once (CHR ''/'') stripped of
             None \<Rightarrow> Inl (invalid (''s3 URL is missing a key: '' @ path))
           | Some bk \<Rightarrow> Inr bk))"

definition storage_client :: "'c option \<Rightarrow> io_error + 'c" where
  "storage_client c =
     (case c of
        Some a \<Rightarrow> Inr a
      | None \<Rightarrow> Inl \<lparr>ie_kind = Unexpected,
          ie_msg = ''AwsSdkS3Storage was deserialized without an SDK client; instantiate it through AwsSdkS3StorageFactory''\<rparr>)"

text \<open>Every operation first parses its path and then asks for the client.\<close>

definition at_path :: "'c option \<Rightarrow> string \<Rightarrow> ('c \<Rightarrow> string \<Rightarrow> string \<Rightarrow> io_error + 'r) \<Rightarrow> io_error + 'r" where
  "at_path c path f =
     (case parse_s3_path path of
        Inl e \<Rightarrow> Inl e
      | Inr (bucket, key) \<Rightarrow> (case storage_client c of Inl e \<Rightarrow> Inl e | Inr a \<Rightarrow> f a bucket key))"

section \<open>Reading\<close>

definition storage_exists :: "'s s3_client option \<Rightarrow> string \<Rightarrow> 's \<Rightarrow> io_error + bool" where
  "storage_exists c path s =
     at_path c path (\<lambda>a bucket key.
       case s3_head a s bucket key of
         HeadOk _ \<Rightarrow> Inr True
       | HeadFails e \<Rightarrow>
           (if se_not_found e then Inr False
            else Inl (unexpected (''head_object '' @ path) (se_service_text e))))"

definition storage_metadata :: "'s s3_client option \<Rightarrow> string \<Rightarrow> 's \<Rightarrow> io_error + nat" where
  "storage_metadata c path s =
     at_path c path (\<lambda>a bucket key.
       case s3_head a s bucket key of
         HeadOk len \<Rightarrow> Inr (nat (max (case len of Some n \<Rightarrow> n | None \<Rightarrow> 0) 0))
       | HeadFails e \<Rightarrow> Inl (unexpected (''head_object '' @ path) (se_text e)))"

definition storage_read :: "'s s3_client option \<Rightarrow> string \<Rightarrow> 's \<Rightarrow> io_error + bytes" where
  "storage_read c path s =
     at_path c path (\<lambda>a bucket key.
       case s3_get a s bucket key None of
         GetFails e \<Rightarrow> Inl (unexpected (''get_object '' @ path) e)
       | BodyFails e \<Rightarrow> Inl (unexpected (''read body '' @ path) e)
       | GetOk d \<Rightarrow> Inr d)"

record 's file_reader =
  fr_client :: "'s s3_client"
  fr_bucket :: string
  fr_key :: string

definition storage_reader :: "'s s3_client option \<Rightarrow> string \<Rightarrow> io_error + 's file_reader" where
  "storage_reader c path =
     at_path c path (\<lambda>a bucket key. Inr \<lparr>fr_client = a, fr_bucket = bucket, fr_key = key\<rparr>)"

definition range_header :: "nat \<Rightarrow> nat \<Rightarrow> string" where
  "range_header lo hi = ''bytes='' @ dec_of_nat lo @ ''-'' @ dec_of_nat hi"

text \<open>The range is half open; \<open>saturating_sub\<close> on \<open>u64\<close> is subtraction on \<open>nat\<close>.\<close>

definition reader_read :: "'s file_reader \<Rightarrow> nat \<Rightarrow> nat \<Rightarrow> 's \<Rightarrow> io_error + bytes" where
  "reader_read r start stop s =
     (case s3_get (fr_client r) s (fr_bucket r) (fr_key r) (Some (range_header start (stop - 1))) of
        GetFails e \<Rightarrow> Inl (unexpected (''get_object range '' @ dec_of_nat start @ ''-'' @ dec_of_nat stop) e)
      | BodyFails e \<Rightarrow> Inl (unexpected ''read body'' e)
      | GetOk d \<Rightarrow> Inr d)"

section \<open>Writing\<close>

definition put_result :: "string \<Rightarrow> string option \<times> 's \<Rightarrow> (io_error + unit) \<times> 's" where
  "put_result ctx r = (case fst r of None \<Rightarrow> Inr () | Some e \<Rightarrow> Inl (unexpected ctx e), snd r)"

definition change_at :: "'s s3_client option \<Rightarrow> string \<Rightarrow> 's \<Rightarrow>
    ('s s3_client \<Rightarrow> string \<Rightarrow> string \<Rightarrow> (io_error + 'r) \<times> 's) \<Rightarrow> (io_error + 'r) \<times> 's" where
  "change_at c path s f =
     (case at_path c path (\<lambda>a bucket key. Inr (f a bucket key)) of Inl e \<Rightarrow> (Inl e, s) | Inr x \<Rightarrow> x)"

definition storage_write :: "'s s3_client option \<Rightarrow> string \<Rightarrow> bytes \<Rightarrow> 's \<Rightarrow> (io_error + unit) \<times> 's" where
  "storage_write c path bs s =
     change_at c path s (\<lambda>a bucket key. put_result (''put_object '' @ path) (s3_put a s bucket key bs))"

definition storage_delete :: "'s s3_client option \<Rightarrow> string \<Rightarrow> 's \<Rightarrow> (io_error + unit) \<times> 's" where
  "storage_delete c path s =
     change_at c path s (\<lambda>a bucket key. put_result (''delete_object '' @ path) (s3_delete a s bucket key))"

text \<open>A writer's buffer is \<open>None\<close> once it is closed.\<close>

record 's file_writer =
  fw_client :: "'s s3_client"
  fw_bucket :: string
  fw_key :: string
  fw_buffer :: "bytes option"

definition storage_writer :: "'s s3_client option \<Rightarrow> string \<Rightarrow> io_error + 's file_writer" where
  "storage_writer c path =
     at_path c path (\<lambda>a bucket key. Inr \<lparr>fw_client = a, fw_bucket = bucket, fw_key = key, fw_buffer = Some []\<rparr>)"

definition writer_write :: "'s file_writer \<Rightarrow> bytes \<Rightarrow> (io_error + unit) \<times> 's file_writer" where
  "writer_write w bs =
     (case fw_buffer w of
        None \<Rightarrow> (Inl (invalid ''Cannot write to a closed file''), w)
      | Some buf \<Rightarrow> (Inr (), w\<lparr>fw_buffer := Some (buf @ bs)\<rparr>))"

definition writer_close :: "'s file_writer \<Rightarrow> 's \<Rightarrow> (io_error + unit) \<times> 's file_writer \<times> 's" where
  "writer_close w s =
     (case fw_buffer w of
        None \<Rightarrow> (Inl (invalid ''File already closed''), w, s)
      | Some buf \<Rightarrow>
          (let (r, s') = put_result ''put_object on close'' (s3_put (fw_client w) s (fw_bucket w) (fw_key w) buf)
           in (r, w\<lparr>fw_buffer := None\<rparr>, s')))"

section \<open>Deleting a prefix\<close>

fun delete_keys :: "'s s3_client \<Rightarrow> string \<Rightarrow> string option list \<Rightarrow> 's \<Rightarrow> (io_error + unit) \<times> 's" where
  "delete_keys a bucket [] s = (Inr (), s)"
| "delete_keys a bucket (None # ks) s = delete_keys a bucket ks s"
| "delete_keys a bucket (Some k # ks) s =
     (case s3_delete a s bucket k of
        (Some e, s') \<Rightarrow> (Inl (unexpected (''delete_object '' @ k) e), s')
      | (None, s') \<Rightarrow> delete_keys a bucket ks s')"

partial_function (option) delete_pages ::
    "'s s3_client \<Rightarrow> string \<Rightarrow> string \<Rightarrow> string \<Rightarrow> string option \<Rightarrow> 's \<Rightarrow> ((io_error + unit) \<times> 's) option" where
  "delete_pages a path bucket pre continuation s =
     (case s3_list a s bucket pre continuation of
        Inl e \<Rightarrow> Some (Inl (unexpected (''list_objects_v2 '' @ path) e), s)
      | Inr page \<Rightarrow>
          (case delete_keys a bucket (lp_keys page) s of
             (Inl e, s') \<Rightarrow> Some (Inl e, s')
           | (Inr _, s') \<Rightarrow>
               (if lp_truncated page = Some True then
                  (case lp_next page of
                     Some t \<Rightarrow> delete_pages a path bucket pre (Some t) s'
                   | None \<Rightarrow> Some (Inr (), s'))
                else Some (Inr (), s'))))"

text \<open>\<open>None\<close> is a call that never returns.\<close>

definition storage_delete_prefix :: "'s s3_client option \<Rightarrow> string \<Rightarrow> 's \<Rightarrow> ((io_error + unit) \<times> 's) option" where
  "storage_delete_prefix c path s =
     (case at_path c path (\<lambda>a bucket pre. Inr (delete_pages a path bucket pre None s)) of
        Inl e \<Rightarrow> Some (Inl e, s)
      | Inr r \<Rightarrow> r)"

section \<open>What S3 documents\<close>

text \<open>
  \<open>obj\<close> reads the objects out of a service state: bucket and key to contents. Reads see every write
  that was answered. A range \<open>bytes=i-j\<close> includes both ends and stops at the end of the object.
\<close>

type_synonym objects = "string \<times> string \<Rightarrow> bytes option"

definition documented_s3 :: "'s s3_client \<Rightarrow> ('s \<Rightarrow> objects) \<Rightarrow> bool" where
  "documented_s3 a obj \<longleftrightarrow>
     (\<forall>s b k. case obj s (b, k) of
        Some d \<Rightarrow> s3_head a s b k = HeadOk (Some (int (length d))) \<and> s3_get a s b k None = GetOk d \<and>
          (\<forall>i j. i \<le> j \<longrightarrow> i < length d \<longrightarrow>
             s3_get a s b k (Some (range_header i j)) = GetOk (take (j + 1 - i) (drop i d)))
      | None \<Rightarrow> (\<exists>e. s3_head a s b k = HeadFails e \<and> se_not_found e)) \<and>
     (\<forall>s b k d. \<exists>s'. s3_put a s b k d = (None, s') \<and> obj s' = (obj s)((b, k) \<mapsto> d)) \<and>
     (\<forall>s b k. \<exists>s'. s3_delete a s b k = (None, s') \<and> obj s' = (obj s)((b, k) := None))"

definition matching :: "objects \<Rightarrow> string \<Rightarrow> string \<Rightarrow> string set" where
  "matching m b p = {k. m (b, k) \<noteq> None \<and> prefix p k}"

text \<open>
  \<open>ahead tok k\<close>: key \<open>k\<close> has its turn at token \<open>tok\<close> or later. A page lists keys that are there, a
  truncated one at least one, and leaves the others ahead of the next token; the last page leaves none.
\<close>

definition lists_pages :: "'s s3_client \<Rightarrow> ('s \<Rightarrow> objects) \<Rightarrow> (string option \<Rightarrow> string \<Rightarrow> bool) \<Rightarrow> bool" where
  "lists_pages a obj ahead \<longleftrightarrow>
     (\<forall>k. ahead None k) \<and>
     (\<forall>s b p tok. \<exists>page ks. s3_list a s b p tok = Inr page \<and> lp_keys page = map Some ks \<and>
        set ks \<subseteq> matching (obj s) b p \<and>
        (if lp_truncated page = Some True
         then ks \<noteq> [] \<and> (\<exists>t. lp_next page = Some t \<and>
           (\<forall>k \<in> matching (obj s) b p. ahead tok k \<longrightarrow> k \<notin> set ks \<longrightarrow> ahead (Some t) k))
         else \<forall>k \<in> matching (obj s) b p. ahead tok k \<longrightarrow> k \<in> set ks))"

lemma documentedD:
  assumes "documented_s3 a obj"
  shows "obj s (b, k) = Some d \<Longrightarrow> s3_head a s b k = HeadOk (Some (int (length d)))"
    and "obj s (b, k) = Some d \<Longrightarrow> s3_get a s b k None = GetOk d"
    and "obj s (b, k) = Some d \<Longrightarrow> i \<le> j \<Longrightarrow> i < length d \<Longrightarrow>
      s3_get a s b k (Some (range_header i j)) = GetOk (take (j + 1 - i) (drop i d))"
proof -
  note c = assms [unfolded documented_s3_def, THEN conjunct1, THEN spec, THEN spec, THEN spec, of s b k]
  assume "obj s (b, k) = Some d"
  with c show "s3_head a s b k = HeadOk (Some (int (length d)))" "s3_get a s b k None = GetOk d"
    "i \<le> j \<Longrightarrow> i < length d \<Longrightarrow> s3_get a s b k (Some (range_header i j)) = GetOk (take (j + 1 - i) (drop i d))"
    by simp_all
qed

lemma documented_put:
  assumes "documented_s3 a obj"
  obtains s' where "s3_put a s b k d = (None, s')" "obj s' = (obj s)((b, k) \<mapsto> d)"
  using assms unfolding documented_s3_def by blast

lemma documented_delete:
  assumes "documented_s3 a obj"
  obtains s' where "s3_delete a s b k = (None, s')" "obj s' = (obj s)((b, k) := None)"
  using assms unfolding documented_s3_def by blast

lemma split_once_Some: "split_once c s = Some (x, y) \<longleftrightarrow> s = x @ c # y \<and> c \<notin> set x"
proof
  assume "s = x @ c # y \<and> c \<notin> set x"
  then show "split_once c s = Some (x, y)" by (induction x arbitrary: s) (auto simp: split_once_def)
next
  show "split_once c s = Some (x, y) \<Longrightarrow> s = x @ c # y \<and> c \<notin> set x"
  proof (induction s arbitrary: x)
    case (Cons d s)
    show ?case
    proof (cases "d = c")
      case True
      with Cons.prems have "x = []" "y = s" by (simp_all add: split_once_def)
      with True show ?thesis by simp
    next
      case False
      with Cons.prems have c: "c \<in> set s" "d # takeWhile (\<lambda>z. z \<noteq> c) s = x" "tl (dropWhile (\<lambda>z. z \<noteq> c) s) = y"
        by (simp_all add: split_once_def split: if_splits)
      then have "split_once c s = Some (takeWhile (\<lambda>z. z \<noteq> c) s, y)" by (simp add: split_once_def)
      from Cons.IH [OF this] False c(2) show ?thesis by (metis append_Cons set_ConsD)
    qed
  qed (simp add: split_once_def)
qed

lemma parse_s3_path_Inr:
  "parse_s3_path path = Inr (b, k) \<longleftrightarrow> path = ''s3://'' @ b @ ''/'' @ k \<and> CHR ''/'' \<notin> set b"
proof -
  have "parse_s3_path path = Inr (b, k) \<longleftrightarrow>
      (\<exists>r. strip_prefix ''s3://'' path = Some r \<and> split_once (CHR ''/'') r = Some (b, k))"
    by (auto simp: parse_s3_path_def split: option.splits)
  then show ?thesis unfolding strip_prefix_Some split_once_Some by auto
qed

section \<open>Files\<close>

fun write_all :: "'s file_writer \<Rightarrow> bytes list \<Rightarrow> (io_error + unit) \<times> 's file_writer" where
  "write_all w [] = (Inr (), w)"
| "write_all w (d # ds) = (case writer_write w d of (Inl e, w) \<Rightarrow> (Inl e, w) | (Inr _, w) \<Rightarrow> write_all w ds)"

lemma write_all_open: "fw_buffer w = Some buf \<Longrightarrow> write_all w ds = (Inr (), w\<lparr>fw_buffer := Some (buf @ concat ds)\<rparr>)"
  by (induction ds arbitrary: w buf) (simp_all add: writer_write_def)

text \<open>
  (C34) A file written in any number of pieces and closed is one object: its length and contents read
  back, in full and by any non-empty range, and no other object changes. The closed writer refuses
  further writes and a second close, which leave the service alone.
\<close>

theorem file_roundtrip:
  assumes "documented_s3 a obj" "parse_s3_path path = Inr (b, k)"
  shows "\<exists>w w' r s'. storage_writer (Some a) path = Inr w \<and> storage_reader (Some a) path = Inr r \<and>
    write_all w ds = (Inr (), w') \<and> writer_close w' s = (Inr (), w'\<lparr>fw_buffer := None\<rparr>, s') \<and>
    storage_exists (Some a) path s' = Inr True \<and> storage_metadata (Some a) path s' = Inr (length (concat ds)) \<and>
    storage_read (Some a) path s' = Inr (concat ds) \<and>
    (\<forall>lo hi. lo < hi \<longrightarrow> lo < length (concat ds) \<longrightarrow> reader_read r lo hi s' = Inr (take (hi - lo) (drop lo (concat ds)))) \<and>
    (\<forall>x. x \<noteq> (b, k) \<longrightarrow> obj s' x = obj s x) \<and>
    (\<exists>e. writer_close (w'\<lparr>fw_buffer := None\<rparr>) s' = (Inl e, w'\<lparr>fw_buffer := None\<rparr>, s')) \<and>
    (\<exists>e. writer_write (w'\<lparr>fw_buffer := None\<rparr>) d = (Inl e, w'\<lparr>fw_buffer := None\<rparr>))"
proof -
  let ?w = "\<lparr>fw_client = a, fw_bucket = b, fw_key = k, fw_buffer = Some []\<rparr>"
  let ?w' = "?w\<lparr>fw_buffer := Some (concat ds)\<rparr>"
  let ?r = "\<lparr>fr_client = a, fr_bucket = b, fr_key = k\<rparr>"
  have at: "at_path (Some a) path f = f a b k" for f :: "'a s3_client \<Rightarrow> string \<Rightarrow> string \<Rightarrow> io_error + 'r"
    by (simp add: at_path_def assms(2) storage_client_def)
  obtain s' where put: "s3_put a s b k (concat ds) = (None, s')" "obj s' = (obj s)((b, k) \<mapsto> concat ds)"
    by (rule documented_put [OF assms(1)])
  have all: "write_all ?w ds = (Inr (), ?w')" using write_all_open [of ?w "[]" ds] by simp
  have cl: "writer_close ?w' s = (Inr (), ?w'\<lparr>fw_buffer := None\<rparr>, s')"
    by (simp add: writer_close_def put_result_def put(1))
  have here: "obj s' (b, k) = Some (concat ds)" by (simp add: put(2))
  note D = documentedD [OF assms(1) here]
  have rng: "reader_read ?r lo hi s' = Inr (take (hi - lo) (drop lo (concat ds)))"
    if "lo < hi" "lo < length (concat ds)" for lo hi
    using D(3) [of lo "hi - 1"] that by (simp add: reader_read_def)
  have ops: "storage_writer (Some a) path = Inr ?w" "storage_reader (Some a) path = Inr ?r"
    "storage_exists (Some a) path s' = Inr True" "storage_metadata (Some a) path s' = Inr (length (concat ds))"
    "storage_read (Some a) path s' = Inr (concat ds)"
    by (simp_all only: storage_writer_def storage_reader_def storage_exists_def storage_metadata_def storage_read_def
        at D head_result.case get_result.case option.case) simp
  have closed: "\<exists>e. writer_close (?w'\<lparr>fw_buffer := None\<rparr>) s' = (Inl e, ?w'\<lparr>fw_buffer := None\<rparr>, s')"
    "\<exists>e. writer_write (?w'\<lparr>fw_buffer := None\<rparr>) d = (Inl e, ?w'\<lparr>fw_buffer := None\<rparr>)"
    by (simp_all add: writer_close_def writer_write_def)
  have others: "\<forall>x. x \<noteq> (b, k) \<longrightarrow> obj s' x = obj s x" by (simp add: put(2))
  show ?thesis
    by (rule exI [of _ ?w], rule exI [of _ ?w'], rule exI [of _ ?r], rule exI [of _ s'])
      (intro conjI allI impI ops all cl rng closed others [rule_format])
qed

text \<open>An empty range at the start of a file reads its first byte: the header cannot say "nothing".\<close>

lemma empty_range_reads_a_byte:
  assumes "documented_s3 a obj" "obj s (b, k) = Some (x # d)"
  shows "reader_read \<lparr>fr_client = a, fr_bucket = b, fr_key = k\<rparr> 0 0 s = Inr [x]"
  using documentedD(3) [OF assms, of 0 0] by (simp add: reader_read_def)

section \<open>Prefixes\<close>

lemma delete_keys_all:
  assumes "documented_s3 a obj"
  shows "\<exists>s'. delete_keys a b (map Some ks) s = (Inr (), s') \<and>
    obj s' = (\<lambda>(c, k). if c = b \<and> k \<in> set ks then None else obj s (c, k))"
proof (induction ks arbitrary: s)
  case Nil
  then show ?case by (auto simp: fun_eq_iff)
next
  case (Cons k ks)
  obtain t where t: "s3_delete a s b k = (None, t)" "obj t = (obj s)((b, k) := None)"
    by (rule documented_delete [OF assms])
  from Cons.IH [of t] show ?case by (auto simp: t fun_eq_iff split: if_splits)
qed

lemma delete_pages_all:
  assumes "documented_s3 a obj" "lists_pages a obj ahead"
  shows "finite (matching (obj s) b p) \<Longrightarrow> \<forall>k \<in> matching (obj s) b p. ahead tok k \<Longrightarrow>
    \<exists>s'. delete_pages a path b p tok s = Some (Inr (), s') \<and>
      obj s' = (\<lambda>(c, k). if c = b \<and> prefix p k then None else obj s (c, k))"
proof (induction "card (matching (obj s) b p)" arbitrary: s tok rule: less_induct)
  case less
  let ?M = "matching (obj s) b p"
  obtain page ks where pg: "s3_list a s b p tok = Inr page" "lp_keys page = map Some ks" "set ks \<subseteq> ?M"
    "if lp_truncated page = Some True
      then ks \<noteq> [] \<and> (\<exists>t. lp_next page = Some t \<and> (\<forall>k \<in> ?M. ahead tok k \<longrightarrow> k \<notin> set ks \<longrightarrow> ahead (Some t) k))
      else \<forall>k \<in> ?M. ahead tok k \<longrightarrow> k \<in> set ks"
    using assms(2) unfolding lists_pages_def by metis
  obtain u where u: "delete_keys a b (map Some ks) s = (Inr (), u)"
    "obj u = (\<lambda>(c, k). if c = b \<and> k \<in> set ks then None else obj s (c, k))"
    using delete_keys_all [OF assms(1)] by blast
  have rest: "matching (obj u) b p = ?M - set ks" by (auto simp: matching_def u(2))
  have same: "(\<lambda>(c, k). if c = b \<and> prefix p k then None else obj u (c, k)) =
      (\<lambda>(c, k). if c = b \<and> prefix p k then None else obj s (c, k))"
    using pg(3) by (auto simp: fun_eq_iff u(2) matching_def)
  show ?case
  proof (cases "lp_truncated page = Some True")
    case True
    with pg(4) obtain t where t: "ks \<noteq> []" "lp_next page = Some t"
      "\<forall>k \<in> ?M. ahead tok k \<longrightarrow> k \<notin> set ks \<longrightarrow> ahead (Some t) k" by auto
    have "matching (obj u) b p \<subset> ?M" using t(1) pg(3) unfolding rest by (cases ks) auto
    then have "card (matching (obj u) b p) < card ?M" by (rule psubset_card_mono [OF less.prems(1)])
    from less.hyps [OF this, of "Some t"] less.prems t(3)
    obtain s' where "delete_pages a path b p (Some t) u = Some (Inr (), s')"
      "obj s' = (\<lambda>(c, k). if c = b \<and> prefix p k then None else obj u (c, k))"
      unfolding rest by auto
    then show ?thesis by (simp add: delete_pages.simps pg u t(2) True same)
  next
    case False
    with pg(4) less.prems(2) have gone: "?M \<subseteq> set ks" by auto
    have "obj u (c, k) = (if c = b \<and> prefix p k then None else obj s (c, k))" for c k
      using gone pg(3) by (cases "k \<in> set ks") (auto simp: u(2) matching_def)
    then show ?thesis using False by (simp add: delete_pages.simps pg u(1) fun_eq_iff)
  qed
qed

text \<open>
  (C39) \<open>delete_prefix\<close> returns and deletes exactly the objects of the bucket whose key starts with the
  prefix, however the service splits the listing into pages.
\<close>

theorem delete_prefix_exact:
  assumes "documented_s3 a obj" "lists_pages a obj ahead" "parse_s3_path path = Inr (b, p)"
    "finite (matching (obj s) b p)"
  shows "\<exists>s'. storage_delete_prefix (Some a) path s = Some (Inr (), s') \<and>
    obj s' = (\<lambda>(c, k). if c = b \<and> prefix p k then None else obj s (c, k))"
proof -
  have "\<forall>k \<in> matching (obj s) b p. ahead None k" using assms(2) by (simp add: lists_pages_def)
  from delete_pages_all [OF assms(1,2,4) this, of path] show ?thesis
    by (simp add: storage_delete_prefix_def at_path_def assms(3) storage_client_def)
qed

section \<open>A service that keeps its objects in a list\<close>

lemma dash_not_dec: "CHR ''-'' \<notin> set (dec_of_nat n)"
  using dec_of_nat_digits [of n] by (auto simp: list_all_iff is_digit_def)

type_synonym demo_objects = "((string \<times> string) \<times> bytes) list"

definition demo_range :: "bytes \<Rightarrow> string \<Rightarrow> bytes" where
  "demo_range d h =
     (case Option.bind (strip_prefix ''bytes='' h) (split_once (CHR ''-'')) of
        Some (i, j) \<Rightarrow> take (dec_value j + 1 - dec_value i) (drop (dec_value i) d)
      | None \<Rightarrow> d)"

definition demo_keys :: "demo_objects \<Rightarrow> string \<Rightarrow> string \<Rightarrow> string list" where
  "demo_keys s b p = filter (prefix p) (map snd (filter (\<lambda>x. fst x = b) (map fst s)))"

definition demo_s3 :: "demo_objects s3_client" where
  "demo_s3 =
     \<lparr>s3_head = (\<lambda>s b k. case map_of s (b, k) of
          Some d \<Rightarrow> HeadOk (Some (int (length d)))
        | None \<Rightarrow> HeadFails \<lparr>se_not_found = True, se_text = [], se_service_text = []\<rparr>),
      s3_get = (\<lambda>s b k range. case map_of s (b, k) of
          Some d \<Rightarrow> GetOk (case range of Some h \<Rightarrow> demo_range d h | None \<Rightarrow> d)
        | None \<Rightarrow> GetFails ''NoSuchKey''),
      s3_put = (\<lambda>s b k d. (None, ((b, k), d) # s)),
      s3_delete = (\<lambda>s b k. (None, AList.delete (b, k) s)),
      s3_list = (\<lambda>s b p tok. Inr (case demo_keys s b p of
          k # k' # ks \<Rightarrow> \<lparr>lp_keys = [Some k], lp_truncated = Some (\<exists>x \<in> set (k' # ks). x \<noteq> k), lp_next = Some k\<rparr>
        | ks \<Rightarrow> \<lparr>lp_keys = map Some ks, lp_truncated = None, lp_next = None\<rparr>))\<rparr>"

lemma demo_range_header: "demo_range d (range_header i j) = take (j + 1 - i) (drop i d)"
proof -
  have "split_once (CHR ''-'') (dec_of_nat i @ ''-'' @ dec_of_nat j) = Some (dec_of_nat i, dec_of_nat j)"
    using dash_not_dec by (simp add: split_once_Some)
  moreover have "strip_prefix ''bytes='' (range_header i j) = Some (dec_of_nat i @ ''-'' @ dec_of_nat j)"
    by (simp add: strip_prefix_Some range_header_def)
  ultimately show ?thesis by (simp add: demo_range_def dec_of_nat_digits)
qed

lemma demo_documented: "documented_s3 demo_s3 map_of"
  unfolding documented_s3_def
  by (intro conjI allI) (auto simp: demo_s3_def demo_range_header delete_conv split: option.split)

lemma demo_keys_set: "set (demo_keys s b p) = matching (map_of s) b p"
  by (force simp: demo_keys_def matching_def map_of_eq_None_iff)

lemma demo_lists: "lists_pages demo_s3 map_of (\<lambda>_ _. True)"
  unfolding lists_pages_def
proof (intro conjI allI)
  fix s b p tok
  note set = demo_keys_set [of s b p]
  obtain page where page: "s3_list demo_s3 s b p tok = Inr page" by (simp add: demo_s3_def)
  show "\<exists>page ks. s3_list demo_s3 s b p tok = Inr page \<and> lp_keys page = map Some ks \<and>
      set ks \<subseteq> matching (map_of s) b p \<and>
      (if lp_truncated page = Some True
       then ks \<noteq> [] \<and> (\<exists>t. lp_next page = Some t \<and> (\<forall>k \<in> matching (map_of s) b p. True \<longrightarrow> k \<notin> set ks \<longrightarrow> True))
       else \<forall>k \<in> matching (map_of s) b p. True \<longrightarrow> k \<in> set ks)"
    unfolding set [symmetric]
    by (rule exI [of _ page], rule exI [of _ "take 1 (demo_keys s b p)"], cases "demo_keys s b p" rule: remdups_adj.cases)
      (use page in \<open>auto simp: demo_s3_def\<close>)
qed simp

text \<open>Three objects, two of them under the prefix \<open>data/\<close>.\<close>

definition demo_bucket :: demo_objects where
  "demo_bucket = [((''b'', ''data/1''), [1, 2]), ((''b'', ''data/2''), [3]), ((''b'', ''meta''), [4])]"

theorem file_roundtrip_witness:
  "\<exists>s'. storage_read (Some demo_s3) ''s3://b/data/3'' s' = Inr [5, 6, 7] \<and>
     storage_metadata (Some demo_s3) ''s3://b/data/3'' s' = Inr 3 \<and> map_of s' (''b'', ''meta'') = Some [4]"
proof -
  have p: "parse_s3_path ''s3://b/data/3'' = Inr (''b'', ''data/3'')" by (simp add: parse_s3_path_Inr)
  from file_roundtrip [OF demo_documented p, of "[[5], [6, 7]]" demo_bucket "[]"]
  obtain s' where "storage_read (Some demo_s3) ''s3://b/data/3'' s' = Inr (concat [[5], [6, 7]])"
    "storage_metadata (Some demo_s3) ''s3://b/data/3'' s' = Inr (length (concat [[5 :: byte], [6, 7]]))"
    "\<forall>x. x \<noteq> (''b'', ''data/3'') \<longrightarrow> map_of s' x = map_of demo_bucket x" by blast
  then show ?thesis by (intro exI [of _ s']) (simp add: demo_bucket_def)
qed

theorem delete_prefix_exact_witness:
  "\<exists>s'. storage_delete_prefix (Some demo_s3) ''s3://b/data/'' demo_bucket = Some (Inr (), s') \<and>
     map_of s' (''b'', ''data/1'') = None \<and> map_of s' (''b'', ''data/2'') = None \<and> map_of s' (''b'', ''meta'') = Some [4]"
proof -
  have p: "parse_s3_path ''s3://b/data/'' = Inr (''b'', ''data/'')" by (simp add: parse_s3_path_Inr)
  have "finite (matching (map_of demo_bucket) ''b'' ''data/'')" unfolding demo_keys_set [symmetric] by simp
  from delete_prefix_exact [OF demo_documented demo_lists p this] show ?thesis
    by (auto simp: demo_bucket_def)
qed

end
