(* ===== verification/Spec2Isabelle.thy ===== *)
theory Spec2Isabelle
  imports Shutdown End_To_End Handlers Views Topk Quantile Pointwise Pushdown_Topk_Props
    Pushdown_Vector_Range Metadata_Props Evaluate_Props Evaluate_Types Startup Convert S3_Storage
begin

text \<open>
  A verification development of skaldberg, a time-series database in Rust that takes samples over HTTP
  and answers Prometheus queries from Apache Iceberg tables. Names of files are those under
  \<open>src/src/\<close>; a definition has the name of the function or type it models where Isabelle allows it.

  \<^bold>\<open>The program.\<close> A sample arrives at a handler (\<open>handlers.rs\<close>), as JSON or as a remote-write body
  (\<open>ingest/remote_write.rs\<close>), is validated (\<open>ingest/validate.rs\<close>), appended to a write-ahead log
  (\<open>ingest/wal.rs\<close>), put into a buffer (\<open>ingest/buffer.rs\<close>) and acknowledged. A background task takes
  snapshots of the buffer and commits them to the two tables \<open>samples\<close> and \<open>series\<close>
  (\<open>ingest/flush.rs\<close>, \<open>iceberg_table.rs\<close>, files on S3 by \<open>aws_s3_storage.rs\<close>), then truncates the log
  (\<open>ingest/service.rs\<close>). At start-up the log is replayed (\<open>state.rs\<close>). A PromQL query
  (\<open>prometheus.rs\<close>) is parsed, classified, and evaluated recursively: some shapes run as one SQL
  statement over the tables, the others by operators in Rust on the results of such statements. The SQL
  endpoint turns Arrow rows into JSON (\<open>convert.rs\<close>). \<open>main.rs\<close> reads the command line and routes
  requests; \<open>auth.rs\<close> guards the API.

  \<^bold>\<open>Data.\<close> \<open>Prelude\<close> has bytes, little-endian integers and Rust's \<open>BTreeMap\<close>, a list of entries strictly
  sorted by key (\<open>bt_wf\<close>), with the locale \<open>entry_map\<close> as its contract. \<open>i64\<close> is \<open>int\<close> with wrapping
  (\<open>i64_wrap\<close>) or saturating (\<open>i64_sat\<close>) operations where the source has them, \<open>u64\<close> and \<open>usize\<close> are
  \<open>nat\<close>. \<open>Float64\<close> is IEEE binary64 as zeros, infinities, one NaN and rationals with exact rounding to
  nearest; \<open>Float64_Bounds\<close> bounds rounded results and \<open>Float64_Text\<close> reads decimals. \<open>Sample_Types\<close>
  holds the samples (\<open>ingest/types.rs\<close>) and the record \<open>externals\<close> of third-party functions.

  \<^bold>\<open>The write path.\<close>
  \<^item> \<open>Validate\<close>, \<open>Remote_Write\<close>: acceptance, rejection, series ids; decoding and flattening.
  \<^item> \<open>Wal\<close> is the log down to the bytes of its files, with failing writes, syncs and rotations;
    \<open>Wal_Format\<close> has the frame and file-name codecs, \<open>Wal_Log\<close> the invariant that ties bytes to a
    sequence of records, \<open>Wal_Contract\<close> the locale \<open>record_log\<close> the service relies on, interpreted on
    the writer, and \<open>Wal_Props\<close> what an append, a truncation and a reopening guarantee.
  \<^item> \<open>Buffer\<close>, \<open>Tables\<close>, \<open>Flush\<close>: samples by day and series; schemas and the idempotent bootstrap; the
    column batches, map offsets included, and the two commits, each of which is answered, refused, or
    lands unanswered.
  \<^item> \<open>Service\<close>: one definition per critical section, so that a flush can come between the halves of an
    append; \<open>Recovery\<close>: start-up and replay, and the step relation \<open>durable_step\<close> of histories of
    ingests, flushes, restarts and crashes with its invariant \<open>durable_inv\<close>.
  \<^item> \<open>Durability\<close>: in histories of whole appends, successful flushes, restarts and crashes behind a whole
    frame no acknowledged sample is lost, and in one process, while flushes succeed, each is stored exactly
    once; \<open>Hazards\<close>: the histories in which the code does lose or duplicate samples: an append behind a
    torn frame, a failed flush, a flush between the halves of an append, a request answered with an error
    whose record is in the log.
  \<^item> \<open>Shutdown\<close>: requests, flush task and the shutdown of \<open>main.rs\<close> as one transition system. A drained
    shutdown that finds the flush task idle leaves every acknowledged sample in the tables; one that
    comes during a background flush can lose samples.
  \<^item> \<open>Handlers\<close>: what a request stores, leaves in the log and answers, and the row cap of the SQL endpoint.
  \<^item> \<open>S3_Storage\<close>: files as objects; a file reads back as written; deleting a prefix ends and is exact.

  \<^bold>\<open>The read path.\<close>
  \<^item> \<open>Promql_Ast\<close>: the expression tree the code looks at and the planner \<open>detect_query_kind\<close>.
  \<^item> \<open>Prom_Ops\<close>, \<open>Histogram\<close>: the operators that run in Rust. \<open>Pointwise\<close>: each has an instant and a
    range form, and the range form is the instant form at every timestamp (locales \<open>pointwise_op\<close> and
    \<open>pointwise_pair\<close>, interpreted on every operator). \<open>Topk\<close>: which series are kept. \<open>Quantile\<close>: a
    quantile lies in its bucket and is monotone, in the rounded arithmetic of the code.
  \<^item> \<open>Prom_Params\<close>: timestamps, durations, SQL literals, JSON of answers and errors.
  \<^item> \<open>Selector\<close>, \<open>Rangefn\<close>: the statements for selectors, the metadata endpoints, and \<open>rate\<close>,
    \<open>irate\<close>, \<open>increase\<close> and \<open>delta\<close>; \<open>Selector_Props\<close> and \<open>Rangefn_Props\<close>: they return what PromQL
    selects, regrouped; evaluation times; counters that reset. \<open>Metadata_Props\<close>: what the label and
    series endpoints list.
  \<^item> \<open>Pushdown_Agg\<close>, \<open>Pushdown_Topk\<close>, \<open>Pushdown_Binary\<close>, \<open>Pushdown_Hist\<close>: the operators that run inside a
    statement; \<open>Pushdown_Groups\<close>: the groups that \<open>by\<close> and \<open>without\<close> form inside a statement;
    \<open>Pushdown_Agg_Props\<close>, \<open>Pushdown_Agg_Equiv\<close>, \<open>Pushdown_Agg_Range\<close>, \<open>Pushdown_Agg_Rate\<close>, \<open>Pushdown_Topk_Props\<close>,
    \<open>Pushdown_Binary_Props\<close>, \<open>Pushdown_Binary_Range\<close>, \<open>Pushdown_Vector_Range\<close>, \<open>Pushdown_Hist_Props\<close>: where they agree with
    the Rust operators they replace and where not. The statements of aggregations do not read the \<open>=~\<close> and
    \<open>!~\<close> matchers and those of \<open>topk\<close> apply them after the ranking, so these theorems compare them with the
    Rust path over \<open>without_regex sel\<close>, which is the selector's own answer where the two filter nothing
    (\<open>regex_true\<close>); \<open>without\<close> agrees where every selected series keeps a label and the texts of the
    labels tell them apart (\<open>remaining_tell\<close>).
  \<^item> \<open>Evaluate\<close>: the two recursive evaluators with every choice between SQL and Rust, and the query
    endpoints; \<open>Evaluate_Props\<close>: how every query is answered; \<open>Evaluate_Types\<close>: every answer is well formed.
  \<^item> \<open>Convert\<close>: Arrow cells to JSON. \<open>Startup\<close>: command line, routes, access check.
  \<^item> \<open>Write_Read\<close> joins the two halves: a selector query over the tables that the flusher wrote returns
    exactly the acknowledged samples it selects. \<open>End_To_End\<close> goes on to the answer of
    \<open>/api/v1/query_range\<close>, for a selector and for an aggregation of one. \<open>Views\<close>: the views \<open>sk_metric\<close> and \<open>sk_rate_of\<close>; the
    first is the acknowledged samples, unless a start-up could not read the series table.

  \<^bold>\<open>SQL.\<close> The source builds statements as text and gives them to DataFusion. A statement is modelled as
  the list function that SQL defines for it, common table expression by common table expression: a
  table is its rows in scan order, a join pairs rows, \<open>GROUP BY\<close> groups them, window functions read
  neighbours in the stated order. The text itself is modelled where its correctness is at stake, in the
  quoting of literals. What an engine may choose is in the record \<open>query_env\<close>: whether a statement
  fails, how floats are added up, averaged, compared and ordered, how text is cast. A theorem that
  needs one of those choices to be the IEEE one says so. The four operations on single floats are those
  of Rust in both paths (\<open>binop_value_sql\<close>). \<open>LAG\<close>, \<open>ROW_NUMBER\<close> and the join back to the first row of
  \<open>histogram_quantile\<close> are one recursion, \<open>crossing_value\<close>. Differences of timestamps inside a statement
  (\<open>eval_window\<close>) do not overflow, and sorting floats by \<open>partial_cmp\<close> is a stable sort, which Rust
  guarantees without NaN only; theorems about it exclude NaN.

  \<^bold>\<open>Other parameters.\<close> \<open>externals\<close>: the xxh3 hash, crc32, serde's JSON of samples, chrono's range.
  \<open>prom_env\<close> and \<open>convert_env\<close>: the PromQL parser, chrono's formats, the float printer, \<open>powf\<close> and the
  clock. \<open>s3_client\<close>: the AWS SDK. Their documented behaviour is a named hypothesis wherever a theorem
  uses it, and each witness instantiates them with a concrete function.

  \<^bold>\<open>Termination and bounds.\<close> The evaluators recurse on the expression, by its size; the log readers on the
  bytes left; the loop over evaluation times ends by its own counter, at the limit of 11000
  (\<open>max_range_evals\<close>), and \<open>eval_times\<close> shows that no time it lists has wrapped. Only \<open>delete_pages\<close>
  depends on a service to end: it is a partial function, and \<open>delete_prefix_exact\<close> shows that it returns
  when the service pages as documented.

  \<^bold>\<open>Not modelled.\<close> Starting the runtime, binding the listener, catching the signal
  and the timeout and concurrency layers around a route, which are \<open>tower\<close>'s
  (\<open>main.rs\<close>); building the catalog clients (\<open>iceberg_table.rs\<close>) and the
  DataFusion session (\<open>state.rs\<close>); Parquet encoding and the Iceberg commit protocol behind
  the two commits; metrics and logging; the \<open>typetag\<close> factory of the S3 storage;
  \<open>ingest/mod.rs\<close>, which only re-exports. These are calls of libraries with no decision of
  the program's own. Concurrency is the interleaving of critical sections; what a poisoned mutex does to
  later requests is left out, but a task that panics at one is an outcome of \<open>spawn_append\<close>.
\<close>

end
